(* ===== verification/Prelude.thy ===== *)
theory Prelude
  imports Main "HOL-Library.Word"
begin

section \<open>Prelude: bytes, ASCII case folding and the list helpers the components share\<close>

text \<open>
  A Rust \<^verbatim>\<open>u8\<close> is modelled as HOL's eight-bit \<open>char\<close>, a byte slice or byte vector as
  \<open>char list\<close>, so that the byte-string literals of the source read as string literals.
  The numeric value of a byte is \<open>of_char\<close>. The functions here are those of the Rust
  standard library that several components call (\<^verbatim>\<open>u8::to_ascii_lowercase\<close>,
  \<^verbatim>\<open>Iterator::position\<close>, \<^verbatim>\<open>slice::strip_suffix\<close> and their kin), and two reference functions,
  splitting at a separator and joining with it, that specifications use.
\<close>

named_theorems byte_simps \<open>facts about bytes and ASCII folding\<close>
named_theorems seg_simps \<open>facts about splitting and joining with a separator\<close>

type_synonym byte = char
type_synonym bytes = "char list"

abbreviation (input) bval :: "byte \<Rightarrow> nat" where
  "bval b \<equiv> of_char b"

subsection \<open>ASCII\<close>

definition is_ascii :: "byte \<Rightarrow> bool" where
  "is_ascii b = (bval b < 128)"

definition to_ascii_lowercase :: "byte \<Rightarrow> byte" where
  "to_ascii_lowercase b = (if 65 \<le> bval b \<and> bval b \<le> 90 then char_of (bval b + 32) else b)"

definition to_ascii_uppercase :: "byte \<Rightarrow> byte" where
  "to_ascii_uppercase b = (if 97 \<le> bval b \<and> bval b \<le> 122 then char_of (bval b - 32) else b)"

definition is_ascii_digit :: "byte \<Rightarrow> bool" where
  "is_ascii_digit b = (48 \<le> bval b \<and> bval b \<le> 57)"

definition is_ascii_alphanumeric :: "byte \<Rightarrow> bool" where
  "is_ascii_alphanumeric b = (is_ascii_digit b \<or> 65 \<le> bval b \<and> bval b \<le> 90
     \<or> 97 \<le> bval b \<and> bval b \<le> 122)"

lemma bval_char_of [byte_simps]: "n < 256 \<Longrightarrow> of_char (char_of n) = (n :: nat)"
  by simp

lemma lower_lower [simp]: "to_ascii_lowercase (to_ascii_lowercase b) = to_ascii_lowercase b"
  by (auto simp: to_ascii_lowercase_def byte_simps)

lemma upper_upper [simp]: "to_ascii_uppercase (to_ascii_uppercase b) = to_ascii_uppercase b"
  by (auto simp: to_ascii_uppercase_def byte_simps)

lemma lower_upper [simp]: "to_ascii_lowercase (to_ascii_uppercase b) = to_ascii_lowercase b"
  by (auto simp: to_ascii_lowercase_def to_ascii_uppercase_def byte_simps)

lemma upper_lower [simp]: "to_ascii_uppercase (to_ascii_lowercase b) = to_ascii_uppercase b"
  by (auto simp: to_ascii_lowercase_def to_ascii_uppercase_def byte_simps)

lemma is_ascii_lower [simp]: "is_ascii (to_ascii_lowercase b) = is_ascii b"
  by (auto simp: to_ascii_lowercase_def is_ascii_def byte_simps)

lemma is_ascii_upper [simp]: "is_ascii (to_ascii_uppercase b) = is_ascii b"
  by (auto simp: to_ascii_uppercase_def is_ascii_def byte_simps)

lemma alnum_lower [simp]: "is_ascii_alphanumeric (to_ascii_lowercase b) = is_ascii_alphanumeric b"
  by (auto simp: to_ascii_lowercase_def is_ascii_alphanumeric_def is_ascii_digit_def byte_simps)

lemma alnum_upper [simp]: "is_ascii_alphanumeric (to_ascii_uppercase b) = is_ascii_alphanumeric b"
  by (auto simp: to_ascii_uppercase_def is_ascii_alphanumeric_def is_ascii_digit_def byte_simps)

lemma lower_eq_nonletter:
  assumes "bval c < 65 \<or> 90 < bval c \<and> bval c < 97 \<or> 122 < bval c"
  shows "to_ascii_lowercase b = c \<longleftrightarrow> b = c"
    and "to_ascii_uppercase b = c \<longleftrightarrow> b = c"
  using assms by (auto simp: to_ascii_lowercase_def to_ascii_uppercase_def byte_simps)

lemma lower_eq_cases:
  "to_ascii_lowercase a = to_ascii_lowercase b \<longleftrightarrow> to_ascii_uppercase a = to_ascii_uppercase b"
  by (metis lower_upper upper_lower)

text \<open>
  The values of the ASCII functions on the letters and the punctuation of header names and
  paths, as rewrite rules: evaluation of literals by the simplifier.
\<close>

lemma upper_table:
  "list_all2 (\<lambda>a b. to_ascii_uppercase a = b)
     ''abcdefghijklmnopqrstuvwxyzABCDEFGHIJKLMNOPQRSTUVWXYZ0123456789-_./''
     ''ABCDEFGHIJKLMNOPQRSTUVWXYZABCDEFGHIJKLMNOPQRSTUVWXYZ0123456789-_./''"
  by code_simp

lemma lower_table:
  "list_all2 (\<lambda>a b. to_ascii_lowercase a = b)
     ''abcdefghijklmnopqrstuvwxyzABCDEFGHIJKLMNOPQRSTUVWXYZ0123456789-_./''
     ''abcdefghijklmnopqrstuvwxyzabcdefghijklmnopqrstuvwxyz0123456789-_./''"
  by code_simp

lemma alnum_table:
  "list_all is_ascii_alphanumeric ''abcdefghijklmnopqrstuvwxyzABCDEFGHIJKLMNOPQRSTUVWXYZ0123456789''"
  "list_all is_ascii ''abcdefghijklmnopqrstuvwxyzABCDEFGHIJKLMNOPQRSTUVWXYZ0123456789-_./''"
  by code_simp+

lemmas ascii_lits = upper_table [simplified] lower_table [simplified] alnum_table [simplified]

subsection \<open>Searching a slice\<close>

fun position :: "('a \<Rightarrow> bool) \<Rightarrow> 'a list \<Rightarrow> nat option" where
  "position P [] = None"
| "position P (x # xs) = (if P x then Some 0 else map_option Suc (position P xs))"

definition rposition :: "('a \<Rightarrow> bool) \<Rightarrow> 'a list \<Rightarrow> nat option" where
  "rposition P xs = map_option (\<lambda>i. length xs - 1 - i) (position P (rev xs))"

definition ends_with :: "'a list \<Rightarrow> 'a list \<Rightarrow> bool" where
  "ends_with xs sfx = (length sfx \<le> length xs \<and> drop (length xs - length sfx) xs = sfx)"

definition strip_suffix :: "'a list \<Rightarrow> 'a list \<Rightarrow> 'a list option" where
  "strip_suffix xs sfx =
     (if ends_with xs sfx then Some (take (length xs - length sfx) xs) else None)"

lemma position_None_iff: "position P xs = None \<longleftrightarrow> (\<forall>x \<in> set xs. \<not> P x)"
  by (induction xs) auto

lemma position_append:
  "(\<forall>x \<in> set ys. \<not> P x) \<Longrightarrow> position P (ys @ zs) = map_option (\<lambda>i. length ys + i) (position P zs)"
  by (induction ys) (cases "position P zs"; auto)+

lemma position_SomeD:
  "position P xs = Some i \<Longrightarrow>
     i < length xs \<and> P (xs ! i) \<and> (\<forall>x \<in> set (take i xs). \<not> P x)"
proof (induction xs arbitrary: i)
  case (Cons x xs)
  then show ?case by (cases "P x") auto
qed simp

lemma position_split:
  "position P xs = Some i \<longleftrightarrow>
     (\<exists>ys y zs. xs = ys @ y # zs \<and> i = length ys \<and> P y \<and> (\<forall>x \<in> set ys. \<not> P x))"
proof
  assume "position P xs = Some i"
  from position_SomeD [OF this]
  have "xs = take i xs @ xs ! i # drop (Suc i) xs" "i = length (take i xs)"
    and "P (xs ! i)" "\<forall>x \<in> set (take i xs). \<not> P x"
    by (simp_all add: id_take_nth_drop)
  then show "\<exists>ys y zs. xs = ys @ y # zs \<and> i = length ys \<and> P y \<and> (\<forall>x \<in> set ys. \<not> P x)"
    by blast
qed (auto simp: position_append)

lemma rposition_None_iff: "rposition P xs = None \<longleftrightarrow> (\<forall>x \<in> set xs. \<not> P x)"
  by (simp add: rposition_def position_None_iff)

lemma rposition_split:
  "rposition P xs = Some i \<longleftrightarrow>
     (\<exists>ys y zs. xs = ys @ y # zs \<and> i = length ys \<and> P y \<and> (\<forall>x \<in> set zs. \<not> P x))"
proof
  assume "rposition P xs = Some i"
  then obtain j where j: "position P (rev xs) = Some j" "i = length xs - 1 - j"
    by (auto simp: rposition_def)
  then obtain ys y zs where "rev xs = ys @ y # zs" "j = length ys" "P y" "\<forall>x \<in> set ys. \<not> P x"
    by (auto simp: position_split)
  moreover from this have "xs = rev zs @ y # rev ys"
    by (metis append.assoc append_Cons append_Nil rev_append rev_rev_ident rev_singleton_conv
        rev_eq_Cons_iff)
  ultimately show "\<exists>ys y zs. xs = ys @ y # zs \<and> i = length ys \<and> P y \<and> (\<forall>x \<in> set zs. \<not> P x)"
    using j(2) by (intro exI [of _ "rev zs"] exI [of _ y] exI [of _ "rev ys"]) simp
next
  assume "\<exists>ys y zs. xs = ys @ y # zs \<and> i = length ys \<and> P y \<and> (\<forall>x \<in> set zs. \<not> P x)"
  then show "rposition P xs = Some i"
    by (auto simp: rposition_def position_append)
qed

lemma ends_with_iff: "ends_with xs sfx \<longleftrightarrow> (\<exists>ys. xs = ys @ sfx)"
proof
  assume "ends_with xs sfx"
  then have "xs = take (length xs - length sfx) xs @ sfx"
    by (metis append_take_drop_id ends_with_def)
  then show "\<exists>ys. xs = ys @ sfx" ..
qed (auto simp: ends_with_def)

lemma strip_suffix_append [simp]: "strip_suffix (xs @ ys) ys = Some xs"
  by (simp add: strip_suffix_def ends_with_def)

subsection \<open>Splitting at a separator and joining\<close>

fun split_on :: "'a \<Rightarrow> 'a list \<Rightarrow> 'a list list" where
  "split_on c [] = [[]]"
| "split_on c (x # xs) =
     (if x = c then [] # split_on c xs
      else (case split_on c xs of [] \<Rightarrow> [[x]] | s # ss \<Rightarrow> (x # s) # ss))"

fun join_on :: "'a \<Rightarrow> 'a list list \<Rightarrow> 'a list" where
  "join_on c [] = []"
| "join_on c [x] = x"
| "join_on c (x # y # xs) = x @ c # join_on c (y # xs)"

lemma split_on_ne [simp]: "split_on c xs \<noteq> []"
  by (induction xs) (auto split: list.splits)

lemma split_on_sep [seg_simps]: "split_on c (c # xs) = [] # split_on c xs"
  by simp

lemma split_on_nosep: "c \<notin> set xs \<Longrightarrow> split_on c xs = [xs]"
  by (induction xs) auto

lemma split_on_append: "split_on c (xs @ c # ys) = split_on c xs @ split_on c ys"
  by (induction xs) (auto split: list.splits)

lemma split_on_append_sep:
  "c \<notin> set xs \<Longrightarrow> split_on c (xs @ c # ys) = xs # split_on c ys"
  by (simp add: split_on_append split_on_nosep)

lemma split_on_no_sep: "s \<in> set (split_on c xs) \<Longrightarrow> c \<notin> set s"
  by (induction xs arbitrary: s) (auto split: list.splits if_splits)

lemma join_on_append:
  "xs \<noteq> [] \<Longrightarrow> ys \<noteq> [] \<Longrightarrow> join_on c (xs @ ys) = join_on c xs @ c # join_on c ys"
proof (induction c xs rule: join_on.induct)
  case (2 c x)
  then show ?case by (cases ys) auto
qed auto

lemma join_on_snoc: "join_on c (xs @ [x]) = (if xs = [] then x else join_on c xs @ c # x)"
  by (simp add: join_on_append)

lemma split_join:
  "xs \<noteq> [] \<Longrightarrow> \<forall>x \<in> set xs. c \<notin> set x \<Longrightarrow> split_on c (join_on c xs) = xs"
proof (induction c xs rule: join_on.induct)
  case (3 c x y xs)
  then show ?case by (simp add: split_on_append_sep)
qed (auto simp: split_on_nosep)

lemma split_on_bytes: "s \<in> set (split_on c xs) \<Longrightarrow> set s \<subseteq> set xs"
  by (induction xs arbitrary: s) (force split: list.splits if_splits)+

lemma join_on_bytes: "set (join_on c xs) \<subseteq> insert c (\<Union> (set (map set xs)))"
  by (induction c xs rule: join_on.induct) auto

end
