(* ===== verification/CgiPath.thy ===== *)
theory CgiPath
  imports Prelude
begin

section \<open>CGI paths: \<^verbatim>\<open>crates/frankenrust-core/src/cgi.rs\<close>, the path half\<close>

text \<open>
  The split list of a CGI configuration, the search for the split point of a request path,
  the lexical cleaning of a path (Go's \<^verbatim>\<open>filepath.Clean\<close>) and the joining of an untrusted
  request path to a trusted document root. The index arithmetic of the loops is kept:
  \<open>clean_loop\<close> reads the path at an index and truncates its output buffer where the
  source does. The reference it is proved against works on path segments instead.
\<close>

subsection \<open>Leading slash and the split list\<close>

definition ensure_leading_slash :: "bytes \<Rightarrow> bytes" where
  "ensure_leading_slash path =
     (if path = [] \<or> hd path = CHR ''/'' then path else CHR ''/'' # path)"

datatype invalid_split_path = InvalidSplitPath

text \<open>Collecting an iterator of results stops at the first error.\<close>

fun normalize_split_path :: "bytes list \<Rightarrow> invalid_split_path + bytes list" where
  "normalize_split_path [] = Inr []"
| "normalize_split_path (entry # entries) =
     (if \<not> list_all is_ascii entry then Inl InvalidSplitPath
      else (case normalize_split_path entries of
              Inl e \<Rightarrow> Inl e
            | Inr rest \<Rightarrow> Inr (map to_ascii_lowercase entry # rest)))"

record split_path =
  entries :: "bytes list"

definition split_path_new :: "bytes list \<Rightarrow> invalid_split_path + split_path" where
  "split_path_new es =
     (case normalize_split_path es of Inl e \<Rightarrow> Inl e | Inr ns \<Rightarrow> Inr \<lparr>entries = ns\<rparr>)"

subsection \<open>The split position\<close>

definition matches_at :: "bytes \<Rightarrow> bytes \<Rightarrow> nat \<Rightarrow> bool" where
  "matches_at path split start =
     list_all (\<lambda>(path_byte, split_byte).
         is_ascii path_byte \<and> to_ascii_lowercase path_byte = split_byte)
       (zip (take (length split) (drop start path)) split)"

fun split_pos_loop :: "bytes \<Rightarrow> bytes list \<Rightarrow> int" where
  "split_pos_loop path [] = -1"
| "split_pos_loop path (split # rest) =
     (if split = [] \<or> length split > length path then split_pos_loop path rest
      else (case find (matches_at path split) [0 ..< Suc (length path - length split)] of
              Some start \<Rightarrow> int (start + length split)
            | None \<Rightarrow> split_pos_loop path rest))"

definition split_pos :: "bytes \<Rightarrow> bytes list \<Rightarrow> int" where
  "split_pos path split_path = (if split_path = [] then 0 else split_pos_loop path split_path)"

subsection \<open>Cleaning a path\<close>

text \<open>The innermost \<^verbatim>\<open>while\<close> of \<^verbatim>\<open>clean_path\<close>: copy the bytes of one segment.\<close>

function copy_segment :: "bytes \<Rightarrow> nat \<Rightarrow> bytes \<Rightarrow> nat \<times> bytes" where
  "copy_segment path rd out =
     (if rd < length path \<and> path ! rd \<noteq> CHR ''/''
      then copy_segment path (Suc rd) (out @ [path ! rd])
      else (rd, out))"
  by pat_completeness auto
termination
  by (relation "measure (\<lambda>(path, rd, out). length path - rd)") auto

declare copy_segment.simps [simp del]

text \<open>The \<^verbatim>\<open>while\<close> that walks back to the previous separator (or to \<^verbatim>\<open>dotdot\<close>).\<close>

fun back_to_slash :: "bytes \<Rightarrow> nat \<Rightarrow> nat \<Rightarrow> nat" where
  "back_to_slash out dotdot wr =
     (if wr > dotdot \<and> out ! wr \<noteq> CHR ''/'' then back_to_slash out dotdot (wr - 1) else wr)"

declare back_to_slash.simps [simp del]

definition at_dot :: "bytes \<Rightarrow> nat \<Rightarrow> bool" where
  "at_dot path rd = (path ! rd = CHR ''.'' \<and> (rd + 1 = length path \<or> path ! (rd + 1) = CHR ''/''))"

definition at_dotdot :: "bytes \<Rightarrow> nat \<Rightarrow> bool" where
  "at_dotdot path rd = (path ! rd = CHR ''.'' \<and> rd + 1 < length path
     \<and> path ! (rd + 1) = CHR ''.'' \<and> (rd + 2 = length path \<or> path ! (rd + 2) = CHR ''/''))"

lemma copy_segment_eq:
  "copy_segment path rd out =
     (rd + length (takeWhile (\<lambda>b. b \<noteq> CHR ''/'') (drop rd path)),
      out @ takeWhile (\<lambda>b. b \<noteq> CHR ''/'') (drop rd path))"
proof (induction path rd out rule: copy_segment.induct)
  case (1 path rd out)
  show ?case
  proof (cases "rd < length path \<and> path ! rd \<noteq> CHR ''/''")
    case True
    then have "drop rd path = path ! rd # drop (Suc rd) path"
      by (simp add: Cons_nth_drop_Suc)
    with True "1.IH" show ?thesis
      by (subst copy_segment.simps) simp
  next
    case False
    then have "takeWhile (\<lambda>b. b \<noteq> CHR ''/'') (drop rd path) = []"
      by (cases "rd < length path") (auto simp: takeWhile_eq_Nil_iff hd_drop_conv_nth)
    moreover from False have "copy_segment path rd out = (rd, out)"
      by (subst copy_segment.simps) (simp only: if_False)
    ultimately show ?thesis by simp
  qed
qed

lemma copy_segment_advances:
  "rd < length path \<Longrightarrow> path ! rd \<noteq> CHR ''/'' \<Longrightarrow> rd < fst (copy_segment path rd out)"
  by (simp add: copy_segment_eq Cons_nth_drop_Suc [symmetric])

function clean_loop :: "bool \<Rightarrow> bytes \<Rightarrow> nat \<Rightarrow> nat \<Rightarrow> bytes \<Rightarrow> bytes" where
  "clean_loop rooted path rd dotdot out =
     (if rd < length path then
        if path ! rd = CHR ''/'' \<or> at_dot path rd then
          clean_loop rooted path (rd + 1) dotdot out
        else if at_dotdot path rd then
          if length out > dotdot then
            clean_loop rooted path (rd + 2) dotdot
              (take (back_to_slash out dotdot (length out - 1)) out)
          else if \<not> rooted then
            let out' = (if out \<noteq> [] then out @ [CHR ''/''] else out) @ ''..''
            in clean_loop rooted path (rd + 2) (length out') out'
          else clean_loop rooted path (rd + 2) dotdot out
        else
          let out' = (if rooted \<and> length out \<noteq> 1 \<or> \<not> rooted \<and> out \<noteq> []
                         then out @ [CHR ''/''] else out);
              (rd', out'') = copy_segment path rd out'
          in clean_loop rooted path rd' dotdot out''
      else out)"
  by pat_completeness auto
termination
proof (relation "measure (\<lambda>(rooted, path, rd, dotdot, out). length path - rd)", goal_cases)
  case (6 rooted path rd dotdot out x y rd' out'')
  then have "rd < rd'"
    using copy_segment_advances [of rd path x] by (metis fst_conv)
  with 6 show ?case by simp
qed auto

declare clean_loop.simps [simp del]

definition clean_path :: "bytes \<Rightarrow> bytes" where
  "clean_path path =
     (if path = [] then ''.''
      else let rooted = (hd path = CHR ''/'');
               out = clean_loop rooted path (if rooted then 1 else 0) (if rooted then 1 else 0)
                          (if rooted then ''/'' else [])
           in if out = [] then ''.'' else out)"

definition join_with_slash :: "bytes \<Rightarrow> bytes \<Rightarrow> bytes" where
  "join_with_slash prefix suffix = prefix @ [CHR ''/''] @ suffix"

definition sanitized_path_join :: "bytes \<Rightarrow> bytes \<Rightarrow> bytes" where
  "sanitized_path_join root req_path =
     (let root = (if root = [] then ''.'' else root);
          cleaned_request = clean_path (join_with_slash [] req_path);
          joined = clean_path (join_with_slash root cleaned_request)
      in if length req_path > 1 \<and> last req_path = CHR ''/'' then joined @ [CHR ''/''] else joined)"

subsection \<open>The four CGI path values\<close>

record cgi_paths =
  doc_uri :: bytes
  path_info :: bytes
  script_name :: bytes
  script_filename :: bytes

definition split_cgi_path :: "bytes \<Rightarrow> split_path option \<Rightarrow> bytes \<Rightarrow> cgi_paths" where
  "split_cgi_path document_root sp path =
     (let position = (case sp of Some sp \<Rightarrow> split_pos path (entries sp)
                               | None \<Rightarrow> split_pos path [''.php'']);
          (doc, info) = (if position \<ge> 0 then (take (nat position) path, drop (nat position) path)
                         else ([], []));
          script_path = (case strip_suffix path info of Some p \<Rightarrow> p | None \<Rightarrow> path);
          name = ensure_leading_slash script_path
      in \<lparr>doc_uri = doc, path_info = info, script_name = name,
          script_filename = sanitized_path_join document_root name\<rparr>)"

subsection \<open>Reference: paths as lists of segments\<close>

text \<open>
  A path is read as the list of its segments that are neither empty nor a single dot, and
  cleaning it is a left fold over a stack of segments: a double dot removes the top of the
  stack, is dropped above the root, and is kept at the front of a relative path.
\<close>

definition path_segs :: "bytes \<Rightarrow> bytes list" where
  "path_segs p = filter (\<lambda>s. s \<noteq> [] \<and> s \<noteq> ''.'') (split_on (CHR ''/'') p)"

definition is_rooted :: "bytes \<Rightarrow> bool" where
  "is_rooted p = (p \<noteq> [] \<and> hd p = CHR ''/'')"

definition push_seg :: "bool \<Rightarrow> bytes list \<Rightarrow> bytes \<Rightarrow> bytes list" where
  "push_seg rooted st s =
     (if s = ''..'' then
        if st \<noteq> [] \<and> last st \<noteq> ''..'' then butlast st
        else if rooted then st else st @ [''..'']
      else st @ [s])"

definition norm_segs :: "bool \<Rightarrow> bytes list \<Rightarrow> bytes list" where
  "norm_segs rooted ss = foldl (push_seg rooted) [] ss"

definition raw_path :: "bool \<Rightarrow> bytes list \<Rightarrow> bytes" where
  "raw_path rooted st = (if rooted then ''/'' else []) @ join_on (CHR ''/'') st"

definition render :: "bool \<Rightarrow> bytes list \<Rightarrow> bytes" where
  "render rooted st = (if raw_path rooted st = [] then ''.'' else raw_path rooted st)"

definition proper_seg :: "bytes \<Rightarrow> bool" where
  "proper_seg s = (s \<noteq> [] \<and> s \<noteq> ''.'' \<and> s \<noteq> ''..'' \<and> CHR ''/'' \<notin> set s)"

definition wf_stack :: "bool \<Rightarrow> bytes list \<Rightarrow> bool" where
  "wf_stack rooted st = (\<exists>k ns. st = replicate k ''..'' @ ns \<and> (rooted \<longrightarrow> k = 0) \<and>
     (\<forall>n \<in> set ns. proper_seg n))"

definition dotdot_len :: "bool \<Rightarrow> bytes list \<Rightarrow> nat" where
  "dotdot_len rooted st =
     (if rooted then 1 else length (join_on (CHR ''/'') (takeWhile (\<lambda>s. s = ''..'') st)))"

lemma path_segs_Nil [seg_simps]: "path_segs [] = []"
  by (simp add: path_segs_def)

lemma path_segs_slash [seg_simps]: "path_segs (CHR ''/'' # p) = path_segs p"
  by (simp add: path_segs_def)

lemma path_segs_append_slash [seg_simps]:
  "path_segs (p @ CHR ''/'' # q) = path_segs p @ path_segs q"
  by (simp add: path_segs_def split_on_append)

lemma path_segs_seg:
  assumes "CHR ''/'' \<notin> set s" and "r = [] \<or> hd r = CHR ''/''"
  shows "path_segs (s @ r) = (if s = [] \<or> s = ''.'' then path_segs r else s # path_segs r)"
proof (cases r)
  case Nil
  with assms(1) show ?thesis by (simp add: path_segs_def split_on_nosep)
next
  case (Cons c r')
  with assms(2) have "r = CHR ''/'' # r'" by simp
  with assms(1) show ?thesis
    by (simp add: path_segs_append_slash path_segs_slash)
      (simp add: path_segs_def split_on_nosep)
qed

lemma path_segs_proper: "s \<in> set (path_segs p) \<Longrightarrow> s = ''..'' \<or> proper_seg s"
  by (auto simp: path_segs_def proper_seg_def dest: split_on_no_sep)

lemma wf_stack_Nil [simp]: "wf_stack rooted []"
  by (auto simp: wf_stack_def)

lemma wf_stack_segs: "wf_stack rooted st \<Longrightarrow> s \<in> set st \<Longrightarrow> s = ''..'' \<or> proper_seg s"
  by (auto simp: wf_stack_def)

lemma wf_stack_nonempty: "wf_stack rooted st \<Longrightarrow> s \<in> set st \<Longrightarrow> s \<noteq> [] \<and> CHR ''/'' \<notin> set s"
  by (fastforce dest: wf_stack_segs simp: proper_seg_def)

lemma push_dotdot_replicate:
  assumes "\<forall>n \<in> set ns. proper_seg n" and "rooted \<longrightarrow> k = 0"
  shows "push_seg rooted (replicate k ''..'' @ ns) ''..'' =
     (if ns \<noteq> [] then replicate k ''..'' @ butlast ns
      else if rooted then [] else replicate (Suc k) ''..'')"
proof (cases ns rule: rev_cases)
  case Nil
  with assms(2) show ?thesis
    by (cases k) (auto simp: push_seg_def replicate_append_same)
next
  case (snoc ms n)
  with assms(1) have "n \<noteq> ''..''" by (auto simp: proper_seg_def)
  with snoc show ?thesis by (simp add: push_seg_def butlast_append)
qed

lemma push_seg_wf:
  assumes "wf_stack rooted st" and "s = ''..'' \<or> proper_seg s"
  shows "wf_stack rooted (push_seg rooted st s)"
proof -
  from assms(1) obtain k ns where st: "st = replicate k ''..'' @ ns" "rooted \<longrightarrow> k = 0"
    and ns: "\<forall>n \<in> set ns. proper_seg n"
    by (auto simp: wf_stack_def)
  show ?thesis
  proof (cases "s = ''..''")
    case True
    then show ?thesis
      unfolding wf_stack_def st(1) push_dotdot_replicate [OF ns st(2)] True
      using st(2) ns
      by (cases "ns = []"; cases rooted)
        (auto intro: exI [of _ "Suc k"] dest: in_set_butlastD simp del: replicate_Suc)
  next
    case False
    with assms(2) have "proper_seg s" by simp
    with st ns show ?thesis
      by (auto simp: wf_stack_def push_seg_def False intro!: exI [of _ k] exI [of _ "ns @ [s]"])
  qed
qed

lemma foldl_push_wf:
  "wf_stack rooted st \<Longrightarrow> \<forall>s \<in> set ss. s = ''..'' \<or> proper_seg s \<Longrightarrow>
     wf_stack rooted (foldl (push_seg rooted) st ss)"
  by (induction ss arbitrary: st) (auto intro: push_seg_wf)

lemma norm_segs_wf: "wf_stack rooted (norm_segs rooted (path_segs p))"
  unfolding norm_segs_def by (rule foldl_push_wf) (auto dest: path_segs_proper)

lemma norm_segs_fixed: "wf_stack rooted st \<Longrightarrow> norm_segs rooted st = st"
proof -
  assume "wf_stack rooted st"
  then obtain k ns where st: "st = replicate k ''..'' @ ns" "rooted \<longrightarrow> k = 0"
    and ns: "\<forall>n \<in> set ns. proper_seg n"
    by (auto simp: wf_stack_def)
  have dots: "foldl (push_seg False) (replicate j ''..'') (replicate i ''..'')
      = replicate (j + i) ''..''" for i j
  proof (induction i arbitrary: j)
    case (Suc i)
    have "push_seg False (replicate j ''..'') ''..'' = replicate (Suc j) ''..''"
      using push_dotdot_replicate [of "[]" False j] by simp
    with Suc [of "Suc j"] show ?case by (simp del: replicate_Suc add: replicate_Suc [of i])
  qed simp
  have names: "foldl (push_seg rooted) xs ns = xs @ ns" for xs
    using ns by (induction ns arbitrary: xs) (auto simp: push_seg_def proper_seg_def)
  have "foldl (push_seg rooted) [] (replicate k ''..'') = replicate k ''..''"
    using dots [of 0 k] st(2) by (cases rooted) auto
  then show ?thesis by (simp add: norm_segs_def st(1) names)
qed

subsection \<open>The loop refines the fold over segments\<close>

lemma drop_at: "rd < length path \<Longrightarrow> drop rd path = path ! rd # drop (rd + 1) path"
  by (simp add: Cons_nth_drop_Suc)

lemma boundary_iff: "r \<le> length path \<Longrightarrow>
    (drop r path = [] \<or> hd (drop r path) = CHR ''/'') \<longleftrightarrow>
    (r = length path \<or> path ! r = CHR ''/'')"
  by (cases "r = length path") (simp_all add: hd_drop_conv_nth)

lemma at_dot_iff:
  assumes "rd < length path"
  shows "at_dot path rd \<longleftrightarrow> (\<exists>r. drop rd path = ''.'' @ r \<and> (r = [] \<or> hd r = CHR ''/''))"
  using assms boundary_iff [of "rd + 1" path] by (auto simp: at_dot_def drop_at)

lemma at_dotdot_iff:
  assumes "rd < length path"
  shows "at_dotdot path rd \<longleftrightarrow> (\<exists>r. drop rd path = ''..'' @ r \<and> (r = [] \<or> hd r = CHR ''/''))"
proof (cases "rd + 1 < length path")
  case True
  then have "drop rd path = path ! rd # path ! (rd + 1) # drop (rd + 2) path"
    using assms drop_at [of "rd + 1" path] by (simp add: drop_at)
  with True boundary_iff [of "rd + 2" path] show ?thesis by (auto simp: at_dotdot_def)
next
  case False
  with assms show ?thesis by (auto simp: at_dotdot_def drop_at)
qed

lemma path_segs_at_dot:
  "rd < length path \<Longrightarrow> at_dot path rd \<Longrightarrow>
     path_segs (drop rd path) = path_segs (drop (rd + 1) path)"
  using path_segs_seg [of "''.''" "drop (rd + 1) path"]
  by (auto simp: at_dot_iff drop_at)

lemma path_segs_at_dotdot:
  assumes "rd < length path" and "at_dotdot path rd"
  shows "path_segs (drop rd path) = ''..'' # path_segs (drop (rd + 2) path)"
proof -
  from assms obtain r where r: "drop rd path = ''..'' @ r" "r = [] \<or> hd r = CHR ''/''"
    by (auto simp: at_dotdot_iff)
  then have "r = drop (rd + 2) path"
    by (metis add.commute append_Cons append_Nil drop_Suc_Cons drop_drop drop0 numeral_2_eq_2)
  with r path_segs_seg [of "''..''" r] show ?thesis by simp
qed

lemma path_segs_name:
  assumes "rd < length path" and "path ! rd \<noteq> CHR ''/''" and "\<not> at_dot path rd"
    and "\<not> at_dotdot path rd"
  defines "n \<equiv> takeWhile (\<lambda>b. b \<noteq> CHR ''/'') (drop rd path)"
  shows "path_segs (drop rd path) = n # path_segs (drop (rd + length n) path)"
    and "proper_seg n"
proof -
  have rest: "drop (rd + length n) path = dropWhile (\<lambda>b. b \<noteq> CHR ''/'') (drop rd path)"
    by (simp add: n_def dropWhile_eq_drop add.commute)
  then have split: "drop rd path = n @ drop (rd + length n) path"
    unfolding n_def by simp
  have end_n: "drop (rd + length n) path = [] \<or> hd (drop (rd + length n) path) = CHR ''/''"
    unfolding rest using hd_dropWhile [of "\<lambda>b. b \<noteq> CHR ''/''" "drop rd path"] by blast
  have n0: "n \<noteq> []" "CHR ''/'' \<notin> set n"
    unfolding n_def using assms(1,2)
    by (auto simp: takeWhile_eq_Nil_iff hd_drop_conv_nth dest: set_takeWhileD)
  moreover have "n \<noteq> ''.''"
    using split end_n assms(1,3) by (metis at_dot_iff)
  moreover have "n \<noteq> ''..''"
    using split end_n assms(1,4) by (metis at_dotdot_iff)
  ultimately show "proper_seg n" by (simp add: proper_seg_def)
  show "path_segs (drop rd path) = n # path_segs (drop (rd + length n) path)"
    using path_segs_seg [OF n0(2) end_n] split n0(1) \<open>n \<noteq> ''.''\<close> by simp
qed

lemma back_to_slash_stops:
  "dotdot \<le> w \<Longrightarrow> w \<le> wr \<Longrightarrow> \<forall>i. w < i \<and> i \<le> wr \<longrightarrow> out ! i \<noteq> CHR ''/'' \<Longrightarrow>
     w = dotdot \<or> out ! w = CHR ''/'' \<Longrightarrow> back_to_slash out dotdot wr = w"
proof (induction out dotdot wr rule: back_to_slash.induct)
  case (1 out dotdot wr)
  show ?case
  proof (cases "w = wr")
    case True
    with 1 show ?thesis by (subst back_to_slash.simps) auto
  next
    case False
    with 1(2,3,4) have guard: "wr > dotdot \<and> out ! wr \<noteq> CHR ''/''" by simp
    have "back_to_slash out dotdot (wr - 1) = w"
      using False 1(2-5) by (intro "1.IH" [OF guard]) auto
    with guard show ?thesis by (subst back_to_slash.simps) simp
  qed
qed

lemma raw_path_snoc:
  assumes "wf_stack rooted st" and "out = raw_path rooted st"
  shows "raw_path rooted (st @ [s]) =
    (if rooted \<and> length out \<noteq> 1 \<or> \<not> rooted \<and> out \<noteq> [] then out @ [CHR ''/''] else out) @ s"
proof -
  have "join_on (CHR ''/'') st = [] \<longleftrightarrow> st = []"
  proof (cases st)
    case (Cons x xs)
    with assms(1) have "x \<noteq> []" by (auto dest: wf_stack_nonempty)
    with Cons show ?thesis by (cases xs) auto
  qed simp
  with assms(2) show ?thesis by (auto simp: raw_path_def join_on_snoc)
qed

lemma take_takeWhile_dots:
  assumes "\<forall>n \<in> set ns. proper_seg n"
  shows "takeWhile (\<lambda>s. s = ''..'') (replicate k ''..'' @ ns) = replicate k ''..''"
proof (induction k)
  case 0
  with assms show ?case by (cases ns) (auto simp: proper_seg_def)
qed simp

lemma dotdot_len_eq:
  assumes "\<forall>n \<in> set ns. proper_seg n" and "rooted \<longrightarrow> k = 0"
  shows "dotdot_len rooted (replicate k ''..'' @ ns) = length (raw_path rooted (replicate k ''..''))"
  using assms(2) take_takeWhile_dots [OF assms(1), of k]
  by (cases rooted) (simp_all add: dotdot_len_def raw_path_def)

lemma raw_path_append_length:
  "length (raw_path rooted xs) \<le> length (raw_path rooted (xs @ ys))"
  by (cases "xs = []"; cases "ys = []") (auto simp: raw_path_def join_on_append)

text \<open>Truncating the buffer at the position the inner loop finds pops the last segment.\<close>

lemma pop_segment:
  assumes ms: "\<forall>n \<in> set (ms @ [n]). proper_seg n" and k: "rooted \<longrightarrow> k = 0"
  defines "out \<equiv> raw_path rooted (replicate k ''..'' @ ms @ [n])"
    and "dd \<equiv> dotdot_len rooted (replicate k ''..'' @ ms @ [n])"
  shows "dd < length out"
    and "take (back_to_slash out dd (length out - 1)) out = raw_path rooted (replicate k ''..'' @ ms)"
    and "dotdot_len rooted (replicate k ''..'' @ ms) = dd"
proof -
  let ?st = "replicate k ''..'' @ ms"
  let ?pre = "raw_path rooted ?st"
  have n: "n \<noteq> []" "CHR ''/'' \<notin> set n" using ms by (auto simp: proper_seg_def)
  have wf: "wf_stack rooted ?st" using ms k by (auto simp: wf_stack_def)
  show dd: "dotdot_len rooted ?st = dd"
    using ms k dotdot_len_eq [of "ms @ [n]" rooted k] dotdot_len_eq [of ms rooted k]
    by (simp add: dd_def)
  have dd_raw: "dd = length (raw_path rooted (replicate k ''..''))"
    using dotdot_len_eq [OF ms k] by (simp add: dd_def)
  then have pre_le: "dd \<le> length ?pre"
    by (simp add: raw_path_append_length)
  have pre_eq: "dd = length ?pre" if "?pre = [] \<or> rooted \<and> length ?pre = 1"
    using that pre_le dd_raw by (auto simp: raw_path_def)
  define sep where "sep = (if rooted \<and> length ?pre \<noteq> 1 \<or> \<not> rooted \<and> ?pre \<noteq> [] then [CHR ''/''] else [])"
  have out: "out = ?pre @ sep @ n"
    using raw_path_snoc [OF wf refl, of n] unfolding out_def sep_def by (auto split: if_splits)
  show "dd < length out"
    using pre_le n(1) by (cases n) (auto simp: out)
  have "out ! length ?pre = CHR ''/'' \<or> length ?pre = dd"
    using pre_eq out by (auto simp: sep_def nth_append raw_path_def)
  moreover have "out ! i \<noteq> CHR ''/''" if i: "length ?pre < i" "i \<le> length out - 1" for i
  proof -
    have "out = (?pre @ sep) @ n" "length sep \<le> 1" using out by (auto simp: sep_def)
    with i n(1) have "out ! i = n ! (i - length (?pre @ sep))" "i - length (?pre @ sep) < length n"
      by (auto simp: nth_append)
    with n(2) show ?thesis by (metis nth_mem)
  qed
  moreover have "length ?pre \<le> length out - 1" using n(1) by (cases n) (auto simp: out)
  ultimately have "back_to_slash out dd (length out - 1) = length ?pre"
    using pre_le by (intro back_to_slash_stops) auto
  then show "take (back_to_slash out dd (length out - 1)) out = ?pre"
    by (simp add: out)
qed

lemma clean_loop_refines:
  "wf_stack rooted st \<Longrightarrow> out = raw_path rooted st \<Longrightarrow> dotdot = dotdot_len rooted st \<Longrightarrow>
     clean_loop rooted path rd dotdot out =
       raw_path rooted (foldl (push_seg rooted) st (path_segs (drop rd path)))"
proof (induction rooted path rd dotdot out arbitrary: st rule: clean_loop.induct)
  case (1 rooted path rd dotdot out)
  obtain k ns where st: "st = replicate k ''..'' @ ns" and k: "rooted \<longrightarrow> k = 0"
    and ns: "\<forall>n \<in> set ns. proper_seg n"
    using "1.prems"(1) by (auto simp: wf_stack_def)
  consider (fin) "\<not> rd < length path"
    | (skip) "rd < length path" "path ! rd = CHR ''/'' \<or> at_dot path rd"
    | (dots) "rd < length path" "\<not> (path ! rd = CHR ''/'' \<or> at_dot path rd)" "at_dotdot path rd"
    | (name) "rd < length path" "\<not> (path ! rd = CHR ''/'' \<or> at_dot path rd)" "\<not> at_dotdot path rd"
    by blast
  then show ?case
  proof cases
    case fin
    with "1.prems"(2) show ?thesis by (simp add: clean_loop.simps path_segs_Nil)
  next
    case skip
    then have "path_segs (drop rd path) = path_segs (drop (rd + 1) path)"
      using path_segs_at_dot [of rd path] by (auto simp: drop_at path_segs_slash)
    with skip "1.IH"(1) [OF skip "1.prems"] show ?thesis
      by (subst clean_loop.simps) simp
  next
    case dots
    then have segs: "path_segs (drop rd path) = ''..'' # path_segs (drop (rd + 2) path)"
      by (simp add: path_segs_at_dotdot)
    note push = push_dotdot_replicate [OF ns k]
    have wf': "wf_stack rooted (push_seg rooted st ''..'')"
      using "1.prems"(1) by (simp add: push_seg_wf)
    show ?thesis
    proof (cases ns rule: rev_cases)
      case (snoc ms n)
      note pop = pop_segment [of ms n rooted k]
      have gt: "length out > dotdot"
        and tk: "take (back_to_slash out dotdot (length out - 1)) out = raw_path rooted (push_seg rooted st ''..'')"
        and dd: "dotdot = dotdot_len rooted (push_seg rooted st ''..'')"
        using pop ns k "1.prems"(2,3) by (auto simp: st snoc push [unfolded snoc])
      from "1.IH"(2) [OF dots gt wf' tk dd] dots gt show ?thesis
        by (subst clean_loop.simps) (simp add: segs)
    next
      case Nil
      have len: "\<not> length out > dotdot"
        using "1.prems"(2,3) dotdot_len_eq [of "[]" rooted k] k by (simp add: st Nil)
      show ?thesis
      proof (cases rooted)
        case True
        then have same: "push_seg True st ''..'' = st"
          using push k by (simp add: st Nil)
        have "\<not> \<not> rooted" using True by simp
        from "1.IH"(4) [OF dots len this "1.prems"] dots len True show ?thesis
          by (subst clean_loop.simps) (simp add: segs same)
      next
        case False
        define out' where "out' = (if out \<noteq> [] then out @ [CHR ''/''] else out) @ ''..''"
        have pushed: "push_seg rooted st ''..'' = st @ [''..'']"
          using push False by (simp add: st Nil replicate_append_same)
        then have raw': "out' = raw_path rooted (push_seg rooted st ''..'')"
          using raw_path_snoc [OF "1.prems"(1,2)] False by (simp add: out'_def)
        moreover have "length out' = dotdot_len rooted (push_seg rooted st ''..'')"
          using dotdot_len_eq [of "[]" rooted "Suc k"] False push Nil raw'
          by (simp add: st del: replicate.simps)
        ultimately show ?thesis
          using "1.IH"(3) [OF dots len False out'_def wf'] dots len False
          by (subst clean_loop.simps) (simp add: segs Let_def flip: out'_def)
      qed
    qed
  next
    case name
    define n where "n = takeWhile (\<lambda>b. b \<noteq> CHR ''/'') (drop rd path)"
    define out' where "out' = (if rooted \<and> length out \<noteq> 1 \<or> \<not> rooted \<and> out \<noteq> []
      then out @ [CHR ''/''] else out)"
    have segs: "path_segs (drop rd path) = n # path_segs (drop (rd + length n) path)"
      and n: "proper_seg n"
      using path_segs_name [of rd path] name by (auto simp: n_def)
    have cp: "copy_segment path rd out' = (rd + length n, out' @ n)"
      by (simp add: copy_segment_eq n_def)
    have pushed: "push_seg rooted st n = st @ [n]"
      using n by (simp add: push_seg_def proper_seg_def)
    have "wf_stack rooted (push_seg rooted st n)"
      using "1.prems"(1) n by (simp add: push_seg_wf)
    moreover have "out' @ n = raw_path rooted (push_seg rooted st n)"
      using raw_path_snoc [OF "1.prems"(1,2)] by (simp add: pushed out'_def)
    moreover have "dotdot = dotdot_len rooted (push_seg rooted st n)"
      using dotdot_len_eq [OF ns k] dotdot_len_eq [of "ns @ [n]" rooted k] ns n k "1.prems"(3)
      by (simp add: pushed) (simp add: st)
    moreover have "clean_loop rooted path rd dotdot out
        = clean_loop rooted path (rd + length n) dotdot (out' @ n)"
      using name cp unfolding out'_def
      by (subst clean_loop.simps) (simp add: Let_def del: One_nat_def split del: if_split)
    ultimately show ?thesis
      using "1.IH"(5) [OF name out'_def cp [symmetric] refl] by (simp add: segs)
  qed
qed

lemma raw_path_initial:
  "raw_path rooted [] = (if rooted then ''/'' else [])" "dotdot_len rooted [] = (if rooted then 1 else 0)"
  by (simp_all add: raw_path_def dotdot_len_def)

lemma clean_path_render:
  "clean_path path = render (is_rooted path) (norm_segs (is_rooted path) (path_segs path))"
proof (cases path)
  case Nil
  then show ?thesis
    by (simp add: clean_path_def render_def is_rooted_def norm_segs_def raw_path_initial path_segs_Nil)
next
  case (Cons c cs)
  let ?r = "c = CHR ''/''"
  have "clean_loop ?r path (if ?r then 1 else 0) (if ?r then 1 else 0) (if ?r then ''/'' else [])
      = raw_path ?r (norm_segs ?r (path_segs (drop (if ?r then 1 else 0) path)))"
    unfolding norm_segs_def by (rule clean_loop_refines) (simp_all add: raw_path_initial)
  also have "path_segs (drop (if ?r then 1 else 0) path) = path_segs path"
    by (simp add: Cons path_segs_slash)
  finally show ?thesis
    by (cases ?r) (simp_all add: clean_path_def render_def is_rooted_def Cons Let_def)
qed

lemma path_segs_join:
  assumes "wf_stack rooted st"
  shows "path_segs (join_on (CHR ''/'') st) = st"
proof (cases "st = []")
  case False
  have "\<forall>s \<in> set st. s \<noteq> [] \<and> s \<noteq> ''.'' \<and> CHR ''/'' \<notin> set s"
    using wf_stack_segs [OF assms] by (fastforce simp: proper_seg_def)
  with False show ?thesis by (simp add: path_segs_def split_join filter_id_conv)
qed (simp add: path_segs_Nil)

lemma path_segs_render [seg_simps]: "wf_stack rooted st \<Longrightarrow> path_segs (render rooted st) = st"
  using path_segs_join [of rooted st]
  by (cases st) (auto simp: render_def raw_path_def path_segs_slash path_segs_Nil
      path_segs_def [of "''.''"])

lemma is_rooted_render [seg_simps]: "wf_stack rooted st \<Longrightarrow> is_rooted (render rooted st) = rooted"
proof (cases st)
  case (Cons x xs)
  assume "wf_stack rooted st"
  with Cons have "x \<noteq> []" "CHR ''/'' \<notin> set x" using wf_stack_nonempty [of rooted st x] by auto
  with Cons show ?thesis
    by (cases xs; cases x) (auto simp: render_def raw_path_def is_rooted_def)
qed (auto simp: render_def raw_path_def is_rooted_def)

lemma path_segs_clean: "path_segs (clean_path p) = norm_segs (is_rooted p) (path_segs p)"
  by (simp add: clean_path_render path_segs_render norm_segs_wf)

lemma is_rooted_clean: "is_rooted (clean_path p) = is_rooted p"
  by (simp add: clean_path_render is_rooted_render norm_segs_wf)

lemma norm_rooted_proper: "list_all proper_seg (norm_segs True (path_segs p))"
  using norm_segs_wf [of True p] by (auto simp: wf_stack_def list_all_iff)

lemma norm_segs_append_proper:
  "list_all proper_seg xs \<Longrightarrow> norm_segs rooted (ss @ xs) = norm_segs rooted ss @ xs"
  by (induction xs rule: rev_induct) (auto simp: norm_segs_def push_seg_def proper_seg_def)

lemma clean_path_slash_prefix:
  "is_rooted (join_with_slash [] p)" "path_segs (join_with_slash [] p) = path_segs p"
  by (simp_all add: join_with_slash_def is_rooted_def path_segs_slash)

subsection \<open>Properties of the cleaned path\<close>

text \<open>C24. The index-driven loop of \<^verbatim>\<open>clean_path\<close> computes the lexical normal form of a path: its
  result is the rendering of the path's segments folded over a stack, and cleaning twice
  changes nothing.\<close>

theorem clean_path_refines:
  "clean_path path = render (is_rooted path) (norm_segs (is_rooted path) (path_segs path)) \<and>
   clean_path (clean_path path) = clean_path path"
proof -
  have "clean_path (clean_path path)
      = render (is_rooted path) (norm_segs (is_rooted path) (norm_segs (is_rooted path) (path_segs path)))"
    by (subst (1) clean_path_render) (simp add: is_rooted_clean path_segs_clean)
  then show ?thesis by (simp add: clean_path_render norm_segs_fixed norm_segs_wf)
qed

definition root_or_dot :: "bytes \<Rightarrow> bytes" where
  "root_or_dot root = (if root = [] then ''.'' else root)"

lemma path_segs_snoc_slash: "path_segs (p @ ''/'') = path_segs p"
  using path_segs_append_slash [of p "[]"] by (simp add: path_segs_Nil)

lemma path_join_segs:
  "path_segs (sanitized_path_join root req) =
     path_segs (clean_path (root_or_dot root)) @ norm_segs True (path_segs req) \<and>
   list_all proper_seg (norm_segs True (path_segs req)) \<and>
   is_rooted (sanitized_path_join root req) = is_rooted (root_or_dot root)"
proof -
  let ?r = "root_or_dot root"
  let ?req = "clean_path (join_with_slash [] req)"
  let ?joined = "clean_path (join_with_slash ?r ?req)"
  have req: "path_segs ?req = norm_segs True (path_segs req)"
    by (simp add: path_segs_clean clean_path_slash_prefix)
  have rooted: "is_rooted (join_with_slash ?r p) = is_rooted ?r" for p
    by (auto simp: is_rooted_def join_with_slash_def root_or_dot_def)
  have segs: "path_segs ?joined = path_segs (clean_path ?r) @ norm_segs True (path_segs req)"
  proof -
    have "path_segs (join_with_slash ?r x) = path_segs ?r @ path_segs x" for x
      by (simp add: join_with_slash_def path_segs_append_slash)
    with req have "path_segs (join_with_slash ?r ?req) = path_segs ?r @ norm_segs True (path_segs req)"
      by simp
    with norm_rooted_proper [of req] show ?thesis
      by (simp add: path_segs_clean rooted norm_segs_append_proper)
  qed
  have "sanitized_path_join root req = ?joined \<or> sanitized_path_join root req = ?joined @ ''/''"
    by (simp add: sanitized_path_join_def root_or_dot_def Let_def)
  moreover have "is_rooted ?joined = is_rooted ?r"
    by (simp add: is_rooted_clean rooted)
  moreover have "?joined \<noteq> []"
    by (simp add: clean_path_render render_def)
  ultimately show ?thesis
    using segs norm_rooted_proper by (auto simp: path_segs_snoc_slash is_rooted_def)
qed

text \<open>C12. No request path escapes the document root: the joined path has the segments of the
  cleaned root followed by segments of the request none of which is empty, a single dot or a
  double dot, and it is absolute exactly when the root is.\<close>

theorem sanitized_path_join_confined:
  "path_segs (sanitized_path_join root req) =
     path_segs (clean_path (root_or_dot root)) @ norm_segs True (path_segs req) \<and>
   list_all proper_seg (norm_segs True (path_segs req)) \<and>
   is_rooted (sanitized_path_join root req) = is_rooted (root_or_dot root)"
  by (rule path_join_segs)

text \<open>The joined path has only bytes of the root and the request, and is never empty.\<close>

lemma push_seg_set: "set (push_seg rooted st s) \<subseteq> insert s (set st)"
  by (auto simp: push_seg_def dest: in_set_butlastD)

lemma norm_segs_set: "set (norm_segs rooted ss) \<subseteq> set ss"
proof (induction ss rule: rev_induct)
  case (snoc s ss)
  then show ?case using push_seg_set [of rooted "norm_segs rooted ss" s] by (auto simp: norm_segs_def)
qed (simp add: norm_segs_def)

lemma clean_path_bytes: "set (clean_path p) \<subseteq> set p \<union> {CHR ''/'', CHR ''.''}"
proof -
  have "set s \<subseteq> set p" if "s \<in> set (norm_segs rooted (path_segs p))" for s rooted
    using that norm_segs_set split_on_bytes by (fastforce simp: path_segs_def)
  then have "set (join_on (CHR ''/'') (norm_segs rooted (path_segs p))) \<subseteq> insert (CHR ''/'') (set p)" for rooted
    using join_on_bytes [of "CHR ''/''" "norm_segs rooted (path_segs p)"] by fastforce
  then show ?thesis by (auto simp: clean_path_render render_def raw_path_def)
qed

lemma sanitized_path_join_bytes:
  "set (sanitized_path_join root req) \<subseteq> set root \<union> set req \<union> {CHR ''/'', CHR ''.''}"
  using clean_path_bytes [of "join_with_slash [] req"]
    clean_path_bytes [of "join_with_slash (if root = [] then ''.'' else root) (clean_path (join_with_slash [] req))"]
  by (auto simp: sanitized_path_join_def Let_def join_with_slash_def split: if_splits)

lemma sanitized_path_join_nonempty: "sanitized_path_join root req \<noteq> []"
  by (simp add: sanitized_path_join_def Let_def clean_path_render render_def)

subsection \<open>Properties of the split position\<close>

text \<open>The reference: where an entry occurs in a path, bytes of the path folded to lower case
  and none of them above ASCII.\<close>

definition occurs_at :: "bytes \<Rightarrow> bytes \<Rightarrow> nat \<Rightarrow> bool" where
  "occurs_at path s i =
     (s \<noteq> [] \<and> i + length s \<le> length path \<and>
      list_all is_ascii (take (length s) (drop i path)) \<and>
      map to_ascii_lowercase (take (length s) (drop i path)) = s)"

lemma matches_at_iff:
  "s \<noteq> [] \<Longrightarrow> i + length s \<le> length path \<Longrightarrow> matches_at path s i \<longleftrightarrow> occurs_at path s i"
proof -
  assume "s \<noteq> []" and "i + length s \<le> length path"
  then have "length (take (length s) (drop i path)) = length s" by simp
  then have "list_all (\<lambda>(p, q). is_ascii p \<and> to_ascii_lowercase p = q)
        (zip (take (length s) (drop i path)) s) \<longleftrightarrow>
      list_all is_ascii (take (length s) (drop i path)) \<and>
      map to_ascii_lowercase (take (length s) (drop i path)) = s"
    by (rule list_induct2) auto
  with \<open>s \<noteq> []\<close> \<open>i + length s \<le> length path\<close> show ?thesis
    by (simp add: matches_at_def occurs_at_def)
qed

definition first_occurrence :: "bytes \<Rightarrow> bytes \<Rightarrow> nat \<Rightarrow> bool" where
  "first_occurrence path s i = (occurs_at path s i \<and> list_all (\<lambda>k. \<not> occurs_at path s k) [0 ..< i])"

lemma find_upt_Some:
  "find P [0 ..< n] = Some i \<longleftrightarrow> i < n \<and> P i \<and> (\<forall>k < i. \<not> P k)"
  by (auto simp: find_Some_iff)

lemma split_entry_find:
  assumes "s \<noteq> []" and "length s \<le> length path"
  shows "find (matches_at path s) [0 ..< Suc (length path - length s)] = Some i
           \<longleftrightarrow> first_occurrence path s i"
    and "find (matches_at path s) [0 ..< Suc (length path - length s)] = None
           \<longleftrightarrow> (\<forall>k. \<not> occurs_at path s k)"
proof -
  have eq: "k < Suc (length path - length s) \<and> matches_at path s k \<longleftrightarrow> occurs_at path s k" for k
    using assms matches_at_iff [of s k path] by (auto simp: occurs_at_def)
  then show "find (matches_at path s) [0 ..< Suc (length path - length s)] = Some i
           \<longleftrightarrow> first_occurrence path s i"
    unfolding find_upt_Some first_occurrence_def list_all_iff
    by (metis atLeastLessThan_iff atLeastLessThan_upt le0 order.strict_trans)
  show "find (matches_at path s) [0 ..< Suc (length path - length s)] = None
           \<longleftrightarrow> (\<forall>k. \<not> occurs_at path s k)"
    using eq by (auto simp: find_None_iff simp del: upt_Suc)
qed

definition split_result :: "bytes \<Rightarrow> bytes list \<Rightarrow> int \<Rightarrow> bool" where
  "split_result path sp pos \<longleftrightarrow>
     pos = -1 \<and> (\<forall>s \<in> set sp. \<forall>k. \<not> occurs_at path s k) \<or>
     (\<exists>pre s post i. sp = pre @ s # post \<and> pos = int (i + length s) \<and> first_occurrence path s i \<and>
        (\<forall>t \<in> set pre. \<forall>k. \<not> occurs_at path t k))"

lemma split_pos_loop_result: "split_result path sp (split_pos_loop path sp)"
proof (induction sp)
  case Nil
  then show ?case by (simp add: split_result_def)
next
  case (Cons s sp)
  let ?f = "find (matches_at path s) [0 ..< Suc (length path - length s)]"
  consider (skip) "\<forall>k. \<not> occurs_at path s k" "split_pos_loop path (s # sp) = split_pos_loop path sp"
    | (hit) i where "first_occurrence path s i" "split_pos_loop path (s # sp) = int (i + length s)"
  proof (cases "s = [] \<or> length s > length path")
    case True
    then show ?thesis by (intro that(1)) (auto simp: occurs_at_def)
  next
    case False
    then show ?thesis
      using split_entry_find [of s path] that by (cases ?f) (auto simp del: upt_Suc)
  qed
  then show ?case
  proof cases
    case skip
    with Cons show ?thesis
      unfolding split_result_def skip(2) by (metis append_Cons set_ConsD)
  next
    case hit
    then show ?thesis
      unfolding split_result_def hit(2)
      by (intro disjI2 exI [of _ "[]"] exI [of _ s] exI [of _ sp] exI [of _ i]) simp
  qed
qed

lemma split_result_range:
  "split_result path sp pos \<Longrightarrow> -1 \<le> pos \<and> pos \<le> int (length path)"
  by (auto simp: split_result_def first_occurrence_def occurs_at_def)

lemma split_pos_range: "-1 \<le> split_pos path sp \<and> split_pos path sp \<le> int (length path)"
  using split_result_range [OF split_pos_loop_result] by (simp add: split_pos_def)

text \<open>C34. \<^verbatim>\<open>split_pos\<close> on a non-empty split list returns the end of the leftmost occurrence of the
  first entry that occurs at all, and -1 exactly when none occurs; an occurrence is a run of
  ASCII bytes that folds to the entry, so no byte above 0x7f is ever matched.\<close>

theorem split_pos_first_match:
  assumes "sp \<noteq> []"
  shows "split_result path sp (split_pos path sp)"
  using assms split_pos_loop_result by (simp add: split_pos_def)

lemma split_pos_first_match_witness:
  "split_result ''/a.PHP/x.php'' [''.php''] (split_pos ''/a.PHP/x.php'' [''.php''])"
  by (rule split_pos_first_match) simp

text \<open>C26. \<^verbatim>\<open>split_cgi_path\<close> loses nothing and its defensive fallback is dead: with a split point the
  document URI and the path info concatenate to the request path, and the script name is the
  document URI with a leading slash; without one both are empty and the script name is the
  whole path. Either way the script file is the sanitised join of the root and that name.\<close>

theorem split_cgi_path_reassembles:
  "let r = split_cgi_path root sp path;
       pos = split_pos path (case sp of None \<Rightarrow> [''.php''] | Some l \<Rightarrow> entries l)
   in (if pos \<ge> 0 then doc_uri r @ path_info r = path \<and> int (length (doc_uri r)) = pos \<and>
         script_name r = ensure_leading_slash (doc_uri r)
       else doc_uri r = [] \<and> path_info r = [] \<and> script_name r = ensure_leading_slash path) \<and>
      script_filename r = sanitized_path_join root (script_name r)"
proof -
  let ?sp = "case sp of None \<Rightarrow> [''.php''] | Some l \<Rightarrow> entries l"
  define pos where "pos = split_pos path ?sp"
  have pos_eq: "(case sp of Some l \<Rightarrow> split_pos path (entries l) | None \<Rightarrow> split_pos path [''.php'']) = pos"
    by (cases sp) (simp_all add: pos_def)
  have le: "pos \<le> int (length path)"
    unfolding pos_def using split_pos_range by blast
  have strip: "strip_suffix path (drop n path) = Some (take n path)" for n
    using strip_suffix_append [of "take n path" "drop n path"] by simp
  have strip0: "strip_suffix path [] = Some path"
    using strip_suffix_append [of path "[]"] by simp
  show ?thesis
    unfolding split_cgi_path_def Let_def pos_eq pos_def [symmetric]
    using le by (cases "pos \<ge> 0") (simp_all add: strip strip0)
qed

end
