(* ===== verification/CgiAddr.thy ===== *)
theory CgiAddr
  imports Prelude
begin

section \<open>CGI addresses: \<^verbatim>\<open>crates/frankenrust-core/src/cgi.rs\<close>, host and port\<close>

text \<open>
  The byte-level port of Go's \<^verbatim>\<open>net.SplitHostPort\<close>, the lenient splitting of a remote
  address, and the derivation of the server name and port from the \<^verbatim>\<open>Host\<close> header and the
  scheme. The reference is the grammar of host-port strings: \<open>host:port\<close> with no
  colon or bracket in either part, or \<open>[host]:port\<close> with no bracket in the host.
\<close>

datatype scheme = Http | Https

definition split_host_port :: "bytes \<Rightarrow> (bytes \<times> bytes) option" where
  "split_host_port host_port =
     (case rposition (\<lambda>b. b = CHR '':'') host_port of
        None \<Rightarrow> None
      | Some colon \<Rightarrow>
          (case (if host_port \<noteq> [] \<and> hd host_port = CHR ''['' then
                   (case position (\<lambda>b. b = CHR '']'') host_port of
                      None \<Rightarrow> None
                    | Some closing_bracket \<Rightarrow>
                        (if closing_bracket + 1 = length host_port then None
                         else if closing_bracket + 1 = colon then
                           Some (1, closing_bracket + 1,
                                 take (closing_bracket - 1) (drop 1 host_port))
                         else None))
                 else
                   (let host = take colon host_port
                    in if CHR '':'' \<in> set host then None else Some (0, 0, host))) of
             None \<Rightarrow> None
           | Some (opening_bracket_offset, closing_bracket_offset, host) \<Rightarrow>
               (if CHR ''['' \<in> set (drop opening_bracket_offset host_port)
                   \<or> CHR '']'' \<in> set (drop closing_bracket_offset host_port) then None
                else Some (host, drop (colon + 1) host_port))))"

definition split_remote_addr :: "bytes \<Rightarrow> bytes \<times> bytes" where
  "split_remote_addr remote_addr =
     (case split_host_port remote_addr of
        Some (host, port) \<Rightarrow> (host, port)
      | None \<Rightarrow>
          (let (ip, port) =
             (case rposition (\<lambda>b. b = CHR '':'') remote_addr of
                Some colon \<Rightarrow> (take colon remote_addr, drop (colon + 1) remote_addr)
              | None \<Rightarrow> (remote_addr, []))
           in (if length ip \<ge> 2 \<and> hd ip = CHR ''['' \<and> last ip = CHR '']''
               then take (length ip - 2) (drop 1 ip) else ip,
               port)))"

definition default_port :: "scheme \<Rightarrow> bytes" where
  "default_port s = (case s of Http \<Rightarrow> ''80'' | Https \<Rightarrow> ''443'')"

definition derive_server_name_and_port :: "bytes \<Rightarrow> scheme \<Rightarrow> bytes \<times> bytes" where
  "derive_server_name_and_port host scheme =
     (let parsed = split_host_port host;
          server_name = (case parsed of
              Some (name, _) \<Rightarrow> (if name \<noteq> [] then name else host) | None \<Rightarrow> host);
          server_port = (case parsed of
              Some (_, port) \<Rightarrow> (if port \<noteq> [] then port else default_port scheme)
            | None \<Rightarrow> default_port scheme)
      in (server_name, server_port))"

definition derive_server_name :: "bytes \<Rightarrow> bytes" where
  "derive_server_name host =
     (case split_host_port host of
        Some (name, _) \<Rightarrow> (if name \<noteq> [] then name else host) | None \<Rightarrow> host)"

definition derive_server_port :: "bytes \<Rightarrow> scheme \<Rightarrow> bytes" where
  "derive_server_port host scheme =
     (case split_host_port host of
        Some (_, port) \<Rightarrow> (if port \<noteq> [] then port else default_port scheme)
      | None \<Rightarrow> default_port scheme)"

subsection \<open>The grammar of host-port strings\<close>

definition no_brackets :: "bytes \<Rightarrow> bool" where
  "no_brackets s = (CHR ''['' \<notin> set s \<and> CHR '']'' \<notin> set s)"

definition host_port_form :: "bytes \<Rightarrow> bytes \<Rightarrow> bytes \<Rightarrow> bool" where
  "host_port_form s host port \<longleftrightarrow>
     no_brackets host \<and> no_brackets port \<and> CHR '':'' \<notin> set port \<and>
     (CHR '':'' \<notin> set host \<and> s = host @ '':'' @ port \<or> s = ''['' @ host @ '']:'' @ port)"

text \<open>How Go's \<^verbatim>\<open>net.JoinHostPort\<close> writes an address.\<close>

definition join_host_port :: "bytes \<Rightarrow> bytes \<Rightarrow> bytes" where
  "join_host_port host port =
     (if CHR '':'' \<in> set host then ''['' @ host @ '']:'' @ port else host @ '':'' @ port)"

lemma rposition_last_colon:
  "CHR '':'' \<notin> set port \<Longrightarrow> rposition (\<lambda>b. b = CHR '':'') (pre @ '':'' @ port) = Some (length pre)"
  by (auto simp: rposition_split)

lemma position_closing:
  "CHR '']'' \<notin> set pre \<Longrightarrow> position (\<lambda>b. b = CHR '']'') (pre @ '']'' @ post) = Some (length pre)"
  by (auto simp: position_split)

lemma split_host_port_plain:
  assumes "no_brackets host" "no_brackets port" "CHR '':'' \<notin> set port" "CHR '':'' \<notin> set host"
  shows "split_host_port (host @ '':'' @ port) = Some (host, port)"
proof -
  have "hd (host @ '':'' @ port) \<noteq> CHR ''[''"
    using assms(1) by (cases host) (auto simp: no_brackets_def)
  then show ?thesis
    using assms rposition_last_colon [of port host]
    by (simp add: split_host_port_def no_brackets_def)
qed

lemma split_host_port_bracketed:
  assumes "no_brackets host" "no_brackets port" "CHR '':'' \<notin> set port"
  shows "split_host_port (''['' @ host @ '']:'' @ port) = Some (host, port)"
proof -
  have colon: "rposition (\<lambda>b. b = CHR '':'') (''['' @ host @ '']:'' @ port) = Some (length host + 2)"
    using rposition_last_colon [OF assms(3), of "''['' @ host @ '']''"] by simp
  have close: "position (\<lambda>b. b = CHR '']'') (''['' @ host @ '']:'' @ port) = Some (length host + 1)"
    using position_closing [of "''['' @ host" "'':'' @ port"] assms(1) by (simp add: no_brackets_def)
  show ?thesis
    using assms colon close by (simp add: split_host_port_def no_brackets_def)
qed

lemma split_host_port_form: "host_port_form s host port \<Longrightarrow> split_host_port s = Some (host, port)"
  unfolding host_port_form_def
  by (auto simp: split_host_port_plain [simplified] split_host_port_bracketed [simplified])

lemma split_host_port_sound:
  assumes "split_host_port s = Some (host, port)"
  shows "host_port_form s host port"
proof -
  from assms obtain colon where colon: "rposition (\<lambda>b. b = CHR '':'') s = Some colon"
    by (auto simp: split_host_port_def split: option.splits)
  then obtain pre p where s: "s = pre @ '':'' @ p" and len: "colon = length pre"
    and p: "CHR '':'' \<notin> set p"
    by (auto simp: rposition_split)
  have port: "port = p"
    using assms colon by (auto simp: split_host_port_def s len Let_def split: option.splits if_splits)
  show ?thesis
  proof (cases "s \<noteq> [] \<and> hd s = CHR ''[''")
    case True
    with assms colon obtain cb where
      cb: "position (\<lambda>b. b = CHR '']'') s = Some cb" "cb + 1 = colon"
      and host: "host = take (cb - 1) (drop 1 s)"
      and br: "CHR ''['' \<notin> set (drop 1 s)" "CHR '']'' \<notin> set (drop colon s)"
      by (auto simp: split_host_port_def split: option.splits if_splits)
    from position_SomeD [OF cb(1)] have "s ! cb = CHR '']''" "CHR '']'' \<notin> set (take cb s)"
      by auto
    have cb_pos: "cb \<noteq> 0"
      using True \<open>s ! cb = CHR '']''\<close> by (cases s; cases cb) auto
    have pre: "pre = take colon s" using s len by simp
    have "pre = take cb s @ [s ! cb]"
      using cb(2) s len unfolding pre by (simp add: take_Suc_conv_app_nth flip: cb(2))
    moreover have "take cb s = CHR ''['' # take (cb - 1) (drop 1 s)"
      using True cb_pos by (cases s) (auto simp: take_Cons')
    ultimately have pre': "pre = ''['' @ host @ '']''"
      using \<open>s ! cb = CHR '']''\<close> host by simp
    have "CHR '']'' \<notin> set host"
      using \<open>CHR '']'' \<notin> set (take cb s)\<close> \<open>take cb s = _\<close> host by simp
    moreover have "CHR ''['' \<notin> set host" "CHR ''['' \<notin> set p" "CHR '']'' \<notin> set p"
      using br s pre' len by auto
    ultimately show ?thesis
      using s pre' p port by (auto simp: host_port_form_def no_brackets_def)
  next
    case False
    with assms colon have "host = take colon s" "CHR '':'' \<notin> set host"
      "CHR ''['' \<notin> set s" "CHR '']'' \<notin> set s"
      by (auto simp: split_host_port_def Let_def split: if_splits)
    with s len p port show ?thesis
      by (auto simp: host_port_form_def no_brackets_def)
  qed
qed

text \<open>\<^verbatim>\<open>split_host_port\<close> accepts exactly the host-port grammar and returns its two parts; it
  inverts the joining of a host and a port, IPv6 brackets included.\<close>

theorem split_host_port_grammar:
  "(split_host_port s = Some (host, port)) = host_port_form s host port \<and>
   (host_port_form (join_host_port h p) h p = (no_brackets h \<and> no_brackets p \<and> CHR '':'' \<notin> set p))"
proof
  show "(split_host_port s = Some (host, port)) = host_port_form s host port"
    using split_host_port_form split_host_port_sound by blast
  show "host_port_form (join_host_port h p) h p = (no_brackets h \<and> no_brackets p \<and> CHR '':'' \<notin> set p)"
    by (auto simp: host_port_form_def join_host_port_def)
qed

text \<open>The lenient remote-address split agrees with the strict grammar where that applies and
  otherwise cuts at the last colon: the pieces, with the colon and a stripped pair of brackets
  put back, are the input, so no byte of a malformed address is lost or invented.\<close>

theorem split_remote_addr_total:
  "(case split_remote_addr s of (ip, port) \<Rightarrow>
      host_port_form s ip port \<or>
      s \<in> {ip, ''['' @ ip @ '']''} \<and> port = [] \<and> CHR '':'' \<notin> set s \<or>
      s \<in> {ip @ '':'' @ port, ''['' @ ip @ '']:'' @ port} \<and> CHR '':'' \<notin> set port)"
proof (cases "split_host_port s")
  case (Some hp)
  then show ?thesis
    using split_host_port_sound [of s "fst hp" "snd hp"] by (simp add: split_remote_addr_def case_prod_unfold)
next
  case None
  have strip: "ip = [CHR ''[''] @ take (length ip - 2) (drop 1 ip) @ [CHR '']'']"
    if "length ip \<ge> 2" "hd ip = CHR ''[''" "last ip = CHR '']''" for ip :: bytes
  proof (cases ip)
    case (Cons c cs)
    with that have "cs \<noteq> []" "last cs = CHR '']''" by (auto split: if_splits)
    then have "cs = butlast cs @ [CHR '']'']" by (metis append_butlast_last_id)
    with Cons that show ?thesis by (auto simp: butlast_conv_take)
  qed (use that in simp)
  show ?thesis
  proof (cases "rposition (\<lambda>b. b = CHR '':'') s")
    case no: None
    then have "CHR '':'' \<notin> set s" by (auto simp: rposition_None_iff)
    with None no strip [of s] show ?thesis
      by (auto simp: split_remote_addr_def)
  next
    case (Some colon)
    then obtain pre p where s: "s = pre @ '':'' @ p" "colon = length pre" "CHR '':'' \<notin> set p"
      by (auto simp: rposition_split)
    with None Some strip [of pre] show ?thesis
      by (auto simp: split_remote_addr_def)
  qed
qed

text \<open>The two single-value derivations are the components of the joint one; with a well-formed
  \<^verbatim>\<open>Host\<close> of non-empty parts it yields those parts, and otherwise the whole \<^verbatim>\<open>Host\<close> and the
  port the scheme prescribes.\<close>

theorem derive_server_name_and_port_agree:
  "derive_server_name_and_port host scheme = (derive_server_name host, derive_server_port host scheme) \<and>
   derive_server_name host =
     (if \<exists>n p. host_port_form host n p \<and> n \<noteq> [] then fst (the (split_host_port host)) else host) \<and>
   derive_server_port host scheme =
     (if \<exists>n p. host_port_form host n p \<and> p \<noteq> [] then snd (the (split_host_port host))
      else (case scheme of Http \<Rightarrow> ''80'' | Https \<Rightarrow> ''443''))"
proof -
  have "host_port_form host n p \<longleftrightarrow> split_host_port host = Some (n, p)" for n p
    using split_host_port_form split_host_port_sound by blast
  then show ?thesis
    by (auto simp: derive_server_name_and_port_def derive_server_name_def derive_server_port_def
        default_port_def Let_def split: option.splits)
qed

end
