(* ===== verification/CgiHeaders.thy ===== *)
theory CgiHeaders
  imports Prelude
begin

section \<open>CGI header names: \<^verbatim>\<open>cgi.rs\<close> and the name half of \<^verbatim>\<open>context.rs\<close>\<close>

text \<open>
  Header names travel in two spellings: the canonical MIME form that \<^verbatim>\<open>Headers\<close> stores and
  the \<^verbatim>\<open>HTTP_*\<close> variable name that PHP sees. A table of the common names gives the variable
  directly; every other name is mangled byte by byte. The byte-level port in \<^verbatim>\<open>cgi.rs\<close> and
  the string-level one in \<^verbatim>\<open>context.rs\<close> are both modelled and proved equal.
\<close>

subsection \<open>Canonical names\<close>

definition valid_header_field_byte :: "byte \<Rightarrow> bool" where
  "valid_header_field_byte b =
     (is_ascii_alphanumeric b \<or>
      b \<in> {CHR ''!'', CHR ''#'', CHR ''$'', CHR ''%'', CHR ''&'', CHR 0x27, CHR ''*'', CHR ''+'',
           CHR ''-'', CHR ''.'', CHR ''^'', CHR ''_'', CHR 0x60, CHR ''|'', CHR ''~''})"

fun canonical_loop :: "bool \<Rightarrow> bytes \<Rightarrow> bytes" where
  "canonical_loop uppercase [] = []"
| "canonical_loop uppercase (byte # name) =
     (let byte = (if uppercase then to_ascii_uppercase byte else to_ascii_lowercase byte)
      in byte # canonical_loop (byte = CHR ''-'') name)"

definition canonical_mime_header_name :: "bytes \<Rightarrow> bytes" where
  "canonical_mime_header_name name =
     (if list_ex (\<lambda>b. \<not> valid_header_field_byte b) name then name else canonical_loop True name)"

text \<open>The port in \<^verbatim>\<open>context.rs\<close> tests and folds the raw byte before it looks for the hyphen.\<close>

definition is_header_field_byte :: "byte \<Rightarrow> bool" where
  "is_header_field_byte c =
     (is_ascii_alphanumeric c \<or>
      c \<in> {CHR ''!'', CHR ''#'', CHR ''$'', CHR ''%'', CHR ''&'', CHR 0x27, CHR ''*'', CHR ''+'',
           CHR ''-'', CHR ''.'', CHR ''^'', CHR ''_'', CHR 0x60, CHR ''|'', CHR ''~''})"

fun canonical_header_loop :: "bool \<Rightarrow> bytes \<Rightarrow> bytes \<Rightarrow> bytes" where
  "canonical_header_loop upper_next [] out = out"
| "canonical_header_loop upper_next (byte # name) out =
     (let cased = (if upper_next then to_ascii_uppercase byte else to_ascii_lowercase byte)
      in canonical_header_loop (byte = CHR ''-'') name (out @ [cased]))"

definition canonical_header_name :: "bytes \<Rightarrow> bytes" where
  "canonical_header_name name =
     (if \<not> list_all is_header_field_byte name then name else canonical_header_loop True name [])"

subsection \<open>The table of common headers and the mangled names\<close>

definition COMMON_HEADERS :: "(bytes \<times> bytes) list" where
  "COMMON_HEADERS = [
  (''Accept'', ''HTTP_ACCEPT''),
  (''Accept-Charset'', ''HTTP_ACCEPT_CHARSET''),
  (''Accept-Encoding'', ''HTTP_ACCEPT_ENCODING''),
  (''Accept-Language'', ''HTTP_ACCEPT_LANGUAGE''),
  (''Access-Control-Request-Headers'', ''HTTP_ACCESS_CONTROL_REQUEST_HEADERS''),
  (''Access-Control-Request-Method'', ''HTTP_ACCESS_CONTROL_REQUEST_METHOD''),
  (''Authorization'', ''HTTP_AUTHORIZATION''),
  (''Cache-Control'', ''HTTP_CACHE_CONTROL''),
  (''Connection'', ''HTTP_CONNECTION''),
  (''Content-Disposition'', ''HTTP_CONTENT_DISPOSITION''),
  (''Content-Encoding'', ''HTTP_CONTENT_ENCODING''),
  (''Content-Length'', ''HTTP_CONTENT_LENGTH''),
  (''Content-Type'', ''HTTP_CONTENT_TYPE''),
  (''Cookie'', ''HTTP_COOKIE''),
  (''Date'', ''HTTP_DATE''),
  (''Device-Memory'', ''HTTP_DEVICE_MEMORY''),
  (''Dnt'', ''HTTP_DNT''),
  (''Downlink'', ''HTTP_DOWNLINK''),
  (''Dpr'', ''HTTP_DPR''),
  (''Early-Data'', ''HTTP_EARLY_DATA''),
  (''Ect'', ''HTTP_ECT''),
  (''Am-I'', ''HTTP_AM_I''),
  (''Expect'', ''HTTP_EXPECT''),
  (''Forwarded'', ''HTTP_FORWARDED''),
  (''From'', ''HTTP_FROM''),
  (''Host'', ''HTTP_HOST''),
  (''If-Match'', ''HTTP_IF_MATCH''),
  (''If-Modified-Since'', ''HTTP_IF_MODIFIED_SINCE''),
  (''If-None-Match'', ''HTTP_IF_NONE_MATCH''),
  (''If-Range'', ''HTTP_IF_RANGE''),
  (''If-Unmodified-Since'', ''HTTP_IF_UNMODIFIED_SINCE''),
  (''Keep-Alive'', ''HTTP_KEEP_ALIVE''),
  (''Max-Forwards'', ''HTTP_MAX_FORWARDS''),
  (''Origin'', ''HTTP_ORIGIN''),
  (''Pragma'', ''HTTP_PRAGMA''),
  (''Proxy-Authorization'', ''HTTP_PROXY_AUTHORIZATION''),
  (''Range'', ''HTTP_RANGE''),
  (''Referer'', ''HTTP_REFERER''),
  (''Rtt'', ''HTTP_RTT''),
  (''Save-Data'', ''HTTP_SAVE_DATA''),
  (''Sec-Ch-Ua'', ''HTTP_SEC_CH_UA''),
  (''Sec-Ch-Ua-Arch'', ''HTTP_SEC_CH_UA_ARCH''),
  (''Sec-Ch-Ua-Bitness'', ''HTTP_SEC_CH_UA_BITNESS''),
  (''Sec-Ch-Ua-Full-Version'', ''HTTP_SEC_CH_UA_FULL_VERSION''),
  (''Sec-Ch-Ua-Full-Version-List'', ''HTTP_SEC_CH_UA_FULL_VERSION_LIST''),
  (''Sec-Ch-Ua-Mobile'', ''HTTP_SEC_CH_UA_MOBILE''),
  (''Sec-Ch-Ua-Model'', ''HTTP_SEC_CH_UA_MODEL''),
  (''Sec-Ch-Ua-Platform'', ''HTTP_SEC_CH_UA_PLATFORM''),
  (''Sec-Ch-Ua-Platform-Version'', ''HTTP_SEC_CH_UA_PLATFORM_VERSION''),
  (''Sec-Fetch-Dest'', ''HTTP_SEC_FETCH_DEST''),
  (''Sec-Fetch-Mode'', ''HTTP_SEC_FETCH_MODE''),
  (''Sec-Fetch-Site'', ''HTTP_SEC_FETCH_SITE''),
  (''Sec-Fetch-User'', ''HTTP_SEC_FETCH_USER''),
  (''Sec-Gpc'', ''HTTP_SEC_GPC''),
  (''Service-Worker-Navigation-Preload'', ''HTTP_SERVICE_WORKER_NAVIGATION_PRELOAD''),
  (''Te'', ''HTTP_TE''),
  (''Priority'', ''HTTP_PRIORITY''),
  (''Trailer'', ''HTTP_TRAILER''),
  (''Transfer-Encoding'', ''HTTP_TRANSFER_ENCODING''),
  (''Upgrade'', ''HTTP_UPGRADE''),
  (''Upgrade-Insecure-Requests'', ''HTTP_UPGRADE_INSECURE_REQUESTS''),
  (''User-Agent'', ''HTTP_USER_AGENT''),
  (''Via'', ''HTTP_VIA''),
  (''Viewport-Width'', ''HTTP_VIEWPORT_WIDTH''),
  (''Want-Digest'', ''HTTP_WANT_DIGEST''),
  (''Warning'', ''HTTP_WARNING''),
  (''Width'', ''HTTP_WIDTH''),
  (''X-Forwarded-For'', ''HTTP_X_FORWARDED_FOR''),
  (''X-Forwarded-Host'', ''HTTP_X_FORWARDED_HOST''),
  (''X-Forwarded-Path'', ''HTTP_X_FORWARDED_PATH''),
  (''X-Forwarded-Prefix'', ''HTTP_X_FORWARDED_PREFIX''),
  (''X-Forwarded-Proto'', ''HTTP_X_FORWARDED_PROTO''),
  (''A-Im'', ''HTTP_A_IM''),
  (''Accept-Datetime'', ''HTTP_ACCEPT_DATETIME''),
  (''Content-Md5'', ''HTTP_CONTENT_MD5''),
  (''Http2-Settings'', ''HTTP_HTTP2_SETTINGS''),
  (''Prefer'', ''HTTP_PREFER''),
  (''X-Requested-With'', ''HTTP_X_REQUESTED_WITH''),
  (''Front-End-Https'', ''HTTP_FRONT_END_HTTPS''),
  (''X-Http-Method-Override'', ''HTTP_X_HTTP_METHOD_OVERRIDE''),
  (''X-Att-Deviceid'', ''HTTP_X_ATT_DEVICEID''),
  (''X-Wap-Profile'', ''HTTP_X_WAP_PROFILE''),
  (''Proxy-Connection'', ''HTTP_PROXY_CONNECTION''),
  (''X-Uidh'', ''HTTP_X_UIDH''),
  (''X-Csrf-Token'', ''HTTP_X_CSRF_TOKEN''),
  (''X-Request-Id'', ''HTTP_X_REQUEST_ID''),
  (''X-Correlation-Id'', ''HTTP_X_CORRELATION_ID''),
  (''Cloudflare-Visitor'', ''HTTP_CLOUDFLARE_VISITOR''),
  (''Cloudfront-Viewer-Address'', ''HTTP_CLOUDFRONT_VIEWER_ADDRESS''),
  (''Cloudfront-Viewer-Country'', ''HTTP_CLOUDFRONT_VIEWER_COUNTRY''),
  (''X-Amzn-Trace-Id'', ''HTTP_X_AMZN_TRACE_ID''),
  (''X-Cloud-Trace-Context'', ''HTTP_X_CLOUD_TRACE_CONTEXT''),
  (''Cf-Ray'', ''HTTP_CF_RAY''),
  (''Cf-Visitor'', ''HTTP_CF_VISITOR''),
  (''Cf-Request-Id'', ''HTTP_CF_REQUEST_ID''),
  (''Cf-Ipcountry'', ''HTTP_CF_IPCOUNTRY''),
  (''X-Device-Type'', ''HTTP_X_DEVICE_TYPE''),
  (''X-Network-Info'', ''HTTP_X_NETWORK_INFO''),
  (''X-Client-Id'', ''HTTP_X_CLIENT_ID''),
  (''X-Livewire'', ''HTTP_X_LIVEWIRE''),
  (''X-Real-Ip'', ''HTTP_X_REAL_IP'')]"

definition lookup_common_header :: "bytes \<Rightarrow> bytes option" where
  "lookup_common_header canonical_name =
     map_option snd (find (\<lambda>(name, variable). name = canonical_name) COMMON_HEADERS)"

definition common_header_var :: "bytes \<Rightarrow> bytes option" where
  "common_header_var name = lookup_common_header (canonical_mime_header_name name)"

definition mangle_byte :: "byte \<Rightarrow> byte" where
  "mangle_byte b = (if b = CHR ''-'' then CHR ''_'' else to_ascii_uppercase b)"

definition mangle_header_name :: "bytes \<Rightarrow> bytes" where
  "mangle_header_name name = ''HTTP_'' @ map mangle_byte name"

definition uncommon_header_key :: "bytes \<Rightarrow> bytes" where
  "uncommon_header_key name = mangle_header_name name @ [CHR 0x00]"

fun join_loop :: "bytes \<Rightarrow> nat \<Rightarrow> bytes list \<Rightarrow> bytes \<Rightarrow> bytes" where
  "join_loop sep index [] joined = joined"
| "join_loop sep index (value # values) joined =
     join_loop sep (Suc index) values ((if index \<noteq> 0 then joined @ sep else joined) @ value)"

definition join_header_values :: "bytes list \<Rightarrow> bytes" where
  "join_header_values values = join_loop '', '' 0 values []"

subsection \<open>Facts about canonical names\<close>

lemma is_header_field_byte_eq: "is_header_field_byte = valid_header_field_byte"
  by (simp add: fun_eq_iff is_header_field_byte_def valid_header_field_byte_def)

lemma fold_hyphen [simp]:
  "to_ascii_lowercase b = CHR ''-'' \<longleftrightarrow> b = CHR ''-''"
  "to_ascii_uppercase b = CHR ''-'' \<longleftrightarrow> b = CHR ''-''"
  by (simp_all add: lower_eq_nonletter)

lemma canonical_header_loop_eq:
  "canonical_header_loop u name out = out @ canonical_loop u name"
  by (induction name arbitrary: u out) (simp_all add: Let_def)

lemma canonical_header_name_eq: "canonical_header_name = canonical_mime_header_name"
  by (auto simp: fun_eq_iff canonical_header_name_def canonical_mime_header_name_def
      canonical_header_loop_eq is_header_field_byte_eq list_all_iff list_ex_iff)

lemma valid_byte_cased [simp]:
  "valid_header_field_byte (to_ascii_uppercase b) = valid_header_field_byte b"
  "valid_header_field_byte (to_ascii_lowercase b) = valid_header_field_byte b"
  by (simp_all add: valid_header_field_byte_def lower_eq_nonletter)

lemma canonical_loop_valid:
  "list_all valid_header_field_byte (canonical_loop u name) = list_all valid_header_field_byte name"
  by (induction u name rule: canonical_loop.induct) (simp_all add: Let_def)

lemma canonical_loop_lower: "map to_ascii_lowercase (canonical_loop u name) = map to_ascii_lowercase name"
  by (induction u name rule: canonical_loop.induct) (simp_all add: Let_def)

lemma canonical_loop_cong:
  "map to_ascii_lowercase a = map to_ascii_lowercase b \<Longrightarrow> canonical_loop u a = canonical_loop u b"
proof (induction u a arbitrary: b rule: canonical_loop.induct)
  case (2 u x a)
  then obtain y b' where b: "b = y # b'" and xy: "to_ascii_lowercase x = to_ascii_lowercase y"
    and ab: "map to_ascii_lowercase a = map to_ascii_lowercase b'"
    by auto
  from xy have "to_ascii_uppercase x = to_ascii_uppercase y" by (simp add: lower_eq_cases)
  moreover from xy have "x = CHR ''-'' \<longleftrightarrow> y = CHR ''-''" by (metis fold_hyphen(1))
  ultimately show ?case using "2.IH" [OF refl ab] xy by (simp add: b Let_def)
qed simp

lemma list_ex_invalid_iff: "list_ex (\<lambda>b. \<not> valid_header_field_byte b) name \<longleftrightarrow>
    \<not> list_all valid_header_field_byte name"
  by (simp add: list_ex_iff list_all_iff)

lemma canonical_idem:
  "canonical_mime_header_name (canonical_mime_header_name n) = canonical_mime_header_name n"
  by (simp add: canonical_mime_header_name_def list_ex_invalid_iff canonical_loop_valid)
    (metis canonical_loop_cong canonical_loop_lower)

text \<open>The two ports of Go's canonical header key agree, canonicalising is idempotent, and two
  well-formed names have the same canonical form exactly when they differ in ASCII case only.\<close>

theorem canonical_header_name_case_folding:
  assumes "list_all valid_header_field_byte a" and "list_all valid_header_field_byte b"
  shows "canonical_header_name a = canonical_mime_header_name a \<and>
    canonical_mime_header_name (canonical_mime_header_name a) = canonical_mime_header_name a \<and>
    (canonical_mime_header_name a = canonical_mime_header_name b \<longleftrightarrow>
     map to_ascii_lowercase a = map to_ascii_lowercase b)"
proof -
  have "canonical_mime_header_name a = canonical_loop True a"
    "canonical_mime_header_name b = canonical_loop True b"
    using assms by (simp_all add: canonical_mime_header_name_def list_ex_invalid_iff)
  moreover have "canonical_loop True a = canonical_loop True b \<longleftrightarrow>
      map to_ascii_lowercase a = map to_ascii_lowercase b"
    by (metis canonical_loop_cong canonical_loop_lower)
  ultimately show ?thesis
    using canonical_idem [of a] by (simp add: canonical_header_name_eq)
qed

lemma canonical_header_name_case_folding_witness:
  "list_all valid_header_field_byte ''x-ID'' \<and>
   canonical_mime_header_name ''x-ID'' = canonical_mime_header_name ''X-id''"
proof -
  have v: "list_all valid_header_field_byte ''x-ID''" "list_all valid_header_field_byte ''X-id''"
    by code_simp+
  moreover have "map to_ascii_lowercase ''x-ID'' = map to_ascii_lowercase ''X-id''"
    by code_simp
  ultimately show ?thesis
    using canonical_header_name_case_folding [OF v] by blast
qed

subsection \<open>The table agrees with mangling\<close>

lemma mangle_byte_cased [simp]:
  "mangle_byte (to_ascii_uppercase b) = mangle_byte b"
  "mangle_byte (to_ascii_lowercase b) = mangle_byte b"
  by (simp_all add: mangle_byte_def)

lemma mangle_canonical_loop: "map mangle_byte (canonical_loop u name) = map mangle_byte name"
  by (induction u name rule: canonical_loop.induct) (simp_all add: Let_def)

lemma mangle_canonical: "mangle_header_name (canonical_mime_header_name n) = mangle_header_name n"
  by (simp add: mangle_header_name_def canonical_mime_header_name_def mangle_canonical_loop)

lemma valid_table:
  "list_all valid_header_field_byte ''abcdefghijklmnopqrstuvwxyzABCDEFGHIJKLMNOPQRSTUVWXYZ0123456789-''"
  by code_simp

lemmas valid_lits = valid_table [simplified]

lemma COMMON_HEADERS_mangled:
  "list_all (\<lambda>(name, variable). variable = mangle_header_name name) COMMON_HEADERS"
  by (simp add: COMMON_HEADERS_def mangle_header_name_def mangle_byte_def ascii_lits)

lemma COMMON_HEADERS_canonical:
  "list_all (\<lambda>(name, variable). canonical_mime_header_name name = name) COMMON_HEADERS"
  by (simp add: COMMON_HEADERS_def canonical_mime_header_name_def valid_lits ascii_lits Let_def)

lemma length_COMMON_HEADERS: "length COMMON_HEADERS = 101"
  by (simp add: COMMON_HEADERS_def)

lemma lookup_common_headerD:
  "lookup_common_header n = Some v \<Longrightarrow> (n, v) \<in> set COMMON_HEADERS"
  by (fastforce simp: lookup_common_header_def find_Some_iff in_set_conv_nth)

lemma lookup_common_header_mangled: "lookup_common_header n = Some v \<Longrightarrow> v = mangle_header_name n"
  using COMMON_HEADERS_mangled by (auto dest!: lookup_common_headerD simp: list_all_iff)

text \<open>C35. The table of common headers is only a shortcut: every one of its 101 names is in canonical
  form and is found, and whatever name a request carries, in whatever case, the variable found
  in the table is the one the byte-wise mangling produces.\<close>

theorem common_headers_agree_with_mangling:
  "(case common_header_var name of Some v \<Rightarrow> v | None \<Rightarrow> mangle_header_name name) = mangle_header_name name \<and>
   length COMMON_HEADERS = 101 \<and>
   list_all (\<lambda>(n, v). common_header_var n = Some v) COMMON_HEADERS"
proof -
  have "(case common_header_var name of Some v \<Rightarrow> v | None \<Rightarrow> mangle_header_name name) = mangle_header_name name"
    by (auto simp: common_header_var_def mangle_canonical dest!: lookup_common_header_mangled
        split: option.splits)
  moreover have "lookup_common_header n = Some v" if "(n, v) \<in> set COMMON_HEADERS" for n v
  proof -
    have "lookup_common_header n \<noteq> None"
      using that by (simp add: lookup_common_header_def find_None_iff) blast
    then obtain w where w: "lookup_common_header n = Some w" by blast
    from lookup_common_header_mangled [OF w] COMMON_HEADERS_mangled that w show ?thesis
      by (auto simp: list_all_iff)
  qed
  then have "list_all (\<lambda>(n, v). common_header_var n = Some v) COMMON_HEADERS"
    using COMMON_HEADERS_canonical by (auto simp: list_all_iff common_header_var_def)
  ultimately show ?thesis
    by (simp add: length_COMMON_HEADERS)
qed

subsection \<open>Joined values\<close>

fun sep_concat :: "bytes \<Rightarrow> bytes list \<Rightarrow> bytes" where
  "sep_concat sep [] = []"
| "sep_concat sep [v] = v"
| "sep_concat sep (v # w # vs) = v @ sep @ sep_concat sep (w # vs)"

lemma join_loop_Suc: "join_loop sep (Suc i) vs joined = joined @ concat (map (\<lambda>v. sep @ v) vs)"
  by (induction vs arbitrary: i joined) auto

lemma sep_concat_Cons: "sep_concat sep (v # vs) = v @ concat (map (\<lambda>v. sep @ v) vs)"
  by (induction vs arbitrary: v) auto

lemma join_loop_sep_concat: "join_loop sep 0 vs [] = sep_concat sep vs"
  by (cases vs) (simp_all add: join_loop_Suc sep_concat_Cons)

lemma join_loop_length:
  "length (join_loop sep 0 vs []) = sum_list (map length vs) + (length vs - 1) * length sep"
  unfolding join_loop_sep_concat by (induction sep vs rule: sep_concat.induct) auto

end
