(* ===== verification/Headers.thy ===== *)
theory Headers
  imports CgiHeaders
begin

section \<open>The multi-valued header map of \<^verbatim>\<open>context.rs\<close>\<close>

text \<open>
  \<^verbatim>\<open>Headers\<close> is an association list from canonical names to the values inserted under them,
  in insertion order. The locale \<open>header_map\<close> is what the request builder, the response
  sink and the callbacks rely on; it is interpreted on the model of \<^verbatim>\<open>Headers\<close>.
\<close>

record headers =
  hdr_entries :: "(bytes \<times> bytes list) list"

definition headers_default :: headers where
  "headers_default = \<lparr>hdr_entries = []\<rparr>"

fun insert_entry :: "bytes \<Rightarrow> bytes \<Rightarrow> (bytes \<times> bytes list) list \<Rightarrow> (bytes \<times> bytes list) list" where
  "insert_entry canon value [] = [(canon, [value])]"
| "insert_entry canon value ((n, values) # es) =
     (if n = canon then (n, values @ [value]) # es else (n, values) # insert_entry canon value es)"

definition headers_insert :: "headers \<Rightarrow> bytes \<Rightarrow> bytes \<Rightarrow> headers" where
  "headers_insert h name value =
     h\<lparr>hdr_entries := insert_entry (canonical_header_name name) value (hdr_entries h)\<rparr>"

definition headers_get_all :: "headers \<Rightarrow> bytes \<Rightarrow> bytes list option" where
  "headers_get_all h name =
     (let canon = canonical_header_name name
      in map_option snd (find (\<lambda>(n, _). n = canon) (hdr_entries h)))"

definition headers_get_first :: "headers \<Rightarrow> bytes \<Rightarrow> bytes option" where
  "headers_get_first h name =
     (let canon = canonical_header_name name
      in (case find (\<lambda>(n, _). n = canon) (hdr_entries h) of
            None \<Rightarrow> None
          | Some (_, values) \<Rightarrow> (case values of [] \<Rightarrow> None | v # _ \<Rightarrow> Some v)))"

definition headers_iter :: "headers \<Rightarrow> (bytes \<times> bytes list) list" where
  "headers_iter h = hdr_entries h"

definition headers_clear :: "headers \<Rightarrow> headers" where
  "headers_clear h = h\<lparr>hdr_entries := []\<rparr>"

subsection \<open>The interface\<close>

text \<open>
  What a client may assume of a header store: lookups see the inserted values in order under
  the canonical name, the first value is the head of them, iteration lists exactly the stored
  names once each, and clearing forgets everything. \<open>inv\<close> is the store's own invariant.
\<close>

locale header_map =
  fixes empty :: 'h
    and add :: "'h \<Rightarrow> bytes \<Rightarrow> bytes \<Rightarrow> 'h"
    and all :: "'h \<Rightarrow> bytes \<Rightarrow> bytes list option"
    and first :: "'h \<Rightarrow> bytes \<Rightarrow> bytes option"
    and iter :: "'h \<Rightarrow> (bytes \<times> bytes list) list"
    and clear :: "'h \<Rightarrow> 'h"
    and inv :: "'h \<Rightarrow> bool"
    and canon :: "bytes \<Rightarrow> bytes"
  assumes inv_empty: "inv empty"
    and inv_add: "inv h \<Longrightarrow> inv (add h n v)"
    and all_empty: "all empty n = None"
    and all_add: "inv h \<Longrightarrow> all (add h n v) m =
      (if canon n = canon m then Some ((case all h m of None \<Rightarrow> [] | Some vs \<Rightarrow> vs) @ [v]) else all h m)"
    and first_all: "inv h \<Longrightarrow> first h n = (case all h n of None \<Rightarrow> None | Some vs \<Rightarrow> Some (hd vs))"
    and all_nonempty: "inv h \<Longrightarrow> all h n \<noteq> Some []"
    and iter_all: "inv h \<Longrightarrow> (n, vs) \<in> set (iter h) \<Longrightarrow> all h n = Some vs"
    and all_iter: "inv h \<Longrightarrow> all h n = Some vs \<Longrightarrow> (canon n, vs) \<in> set (iter h)"
    and iter_distinct: "inv h \<Longrightarrow> distinct (map fst (iter h))"
    and clear_empty: "clear h = empty"
begin

definition add_list :: "'h \<Rightarrow> (bytes \<times> bytes) list \<Rightarrow> 'h" where
  "add_list h ps = foldl (\<lambda>h (n, v). add h n v) h ps"

definition values_for :: "bytes \<Rightarrow> (bytes \<times> bytes) list \<Rightarrow> bytes list" where
  "values_for m ps = map snd (filter (\<lambda>(n, v). canon n = canon m) ps)"

lemma add_list_snoc: "add_list h (ps @ [(n, v)]) = add (add_list h ps) n v"
  by (simp add: add_list_def)

lemma inv_add_list: "inv h \<Longrightarrow> inv (add_list h ps)"
proof (induction ps rule: rev_induct)
  case (snoc p ps)
  then show ?case by (cases p) (simp add: add_list_snoc inv_add)
qed (simp add: add_list_def)

lemma all_add_list:
  "inv h \<Longrightarrow> all (add_list h ps) m =
     (if values_for m ps = [] then all h m
      else Some ((case all h m of None \<Rightarrow> [] | Some vs \<Rightarrow> vs) @ values_for m ps))"
proof (induction ps rule: rev_induct)
  case (snoc p ps)
  then show ?case
    by (cases p) (auto simp: add_list_snoc all_add inv_add_list values_for_def)
qed (simp add: add_list_def values_for_def)

lemma first_add_list:
  "first (add_list empty ps) m = (case values_for m ps of [] \<Rightarrow> None | v # _ \<Rightarrow> Some v)"
  by (simp add: first_all inv_add_list inv_empty all_add_list all_empty split: list.splits)

lemma add_list_names:
  "n \<in> fst ` set (iter (add_list empty ps)) \<Longrightarrow> values_for n ps \<noteq> []"
  by (auto dest!: iter_all [OF inv_add_list [OF inv_empty]]
      simp: all_add_list inv_empty all_empty split: if_splits)

end

subsection \<open>The model provides it\<close>

definition headers_inv :: "headers \<Rightarrow> bool" where
  "headers_inv h = (distinct (map fst (hdr_entries h)) \<and>
     list_all (\<lambda>(n, vs). canonical_header_name n = n \<and> vs \<noteq> []) (hdr_entries h))"

lemma canonical_header_name_idem [simp]:
  "canonical_header_name (canonical_header_name n) = canonical_header_name n"
  by (simp add: canonical_header_name_eq canonical_idem)

lemma find_entry:
  "distinct (map fst es) \<Longrightarrow> map_option snd (find (\<lambda>(n, _). n = c) es) = map_of es c"
  by (induction es) auto

lemma map_of_insert_entry:
  "map_of (insert_entry c v es) m =
     (if c = m then Some ((case map_of es m of None \<Rightarrow> [] | Some vs \<Rightarrow> vs) @ [v]) else map_of es m)"
  by (induction c v es rule: insert_entry.induct) auto

lemma names_insert_entry:
  "set (map fst (insert_entry c v es)) = insert c (set (map fst es))"
  by (induction c v es rule: insert_entry.induct) (auto simp del: set_map)

lemma distinct_insert_entry:
  "distinct (map fst es) \<Longrightarrow> distinct (map fst (insert_entry c v es))"
  by (induction c v es rule: insert_entry.induct) (auto simp: names_insert_entry simp del: set_map)

lemma entries_insert_entry:
  "list_all (\<lambda>(n, vs). canonical_header_name n = n \<and> vs \<noteq> []) es \<Longrightarrow> canonical_header_name c = c \<Longrightarrow>
   list_all (\<lambda>(n, vs). canonical_header_name n = n \<and> vs \<noteq> []) (insert_entry c v es)"
  by (induction c v es rule: insert_entry.induct) auto

lemma headers_get_all_map_of:
  "headers_inv h \<Longrightarrow> headers_get_all h n = map_of (hdr_entries h) (canonical_header_name n)"
  by (simp add: headers_get_all_def headers_inv_def find_entry Let_def)

lemma headers_inv_insert: "headers_inv h \<Longrightarrow> headers_inv (headers_insert h n v)"
  by (simp add: headers_inv_def headers_insert_def distinct_insert_entry entries_insert_entry)

lemma headers_values_nonempty: "headers_inv h \<Longrightarrow> headers_get_all h n \<noteq> Some []"
  by (auto simp: headers_get_all_map_of) (auto simp: headers_inv_def list_all_iff dest: map_of_SomeD)

lemma headers_get_first_all:
  "headers_inv h \<Longrightarrow> headers_get_first h n = (case headers_get_all h n of None \<Rightarrow> None | Some vs \<Rightarrow> Some (hd vs))"
  using headers_values_nonempty [of h n]
  by (auto simp: headers_get_first_def headers_get_all_def Let_def split: option.splits list.splits)

interpretation hdr: header_map headers_default headers_insert headers_get_all headers_get_first
  headers_iter headers_clear headers_inv canonical_header_name
proof (unfold_locales, goal_cases)
  case (4 h n v m)
  then show ?case
    by (simp add: headers_get_all_map_of headers_inv_insert)
      (simp add: headers_insert_def map_of_insert_entry)
next
  case (7 h n vs)
  then have "canonical_header_name n = n" "map_of (hdr_entries h) n = Some vs"
    by (auto simp: headers_inv_def headers_iter_def list_all_iff)
  with 7 show ?case by (simp add: headers_get_all_map_of)
next
  case (8 h n vs)
  then show ?case by (auto simp: headers_get_all_map_of headers_iter_def dest: map_of_SomeD)
next
  case (1)
  show ?case by (simp add: headers_inv_def headers_default_def)
next
  case (3 n)
  show ?case by (simp add: headers_get_all_def headers_default_def)
next
  case (9 h)
  then show ?case by (simp add: headers_inv_def headers_iter_def)
next
  case (10 h)
  show ?case by (cases h) (simp add: headers_clear_def headers_default_def)
qed (auto simp: headers_inv_insert headers_get_first_all headers_values_nonempty)

definition headers_of_list :: "(bytes \<times> bytes) list \<Rightarrow> headers" where
  "headers_of_list ps = foldl (\<lambda>h (n, v). headers_insert h n v) headers_default ps"

lemma headers_of_list_add: "headers_of_list ps = hdr.add_list headers_default ps"
  by (simp add: headers_of_list_def hdr.add_list_def)

lemma headers_of_list_inv: "headers_inv (headers_of_list ps)"
  by (simp add: headers_of_list_add hdr.inv_add_list hdr.inv_empty)

text \<open>\<^verbatim>\<open>Headers\<close> is a multi-map keyed by canonical names: after any sequence of inserts, looking a
  name up gives every value inserted under a name of the same canonical form, in order, the
  first of them for \<^verbatim>\<open>get_first\<close>, nothing if there is none, and the stored names are distinct.\<close>

theorem headers_lookup_after_inserts:
  "(let vs = map snd (filter (\<lambda>(n, v). canonical_header_name n = canonical_header_name m) ps)
    in headers_get_all (headers_of_list ps) m = (if vs = [] then None else Some vs) \<and>
       headers_get_first (headers_of_list ps) m = (if vs = [] then None else Some (hd vs))) \<and>
   distinct (map fst (headers_iter (headers_of_list ps)))"
  using hdr.all_add_list [of headers_default ps m] hdr.first_add_list [of ps m]
    hdr.iter_distinct [OF headers_of_list_inv [of ps]]
  by (auto simp: headers_of_list_add hdr.inv_empty hdr.all_empty hdr.values_for_def Let_def
      split: list.splits)

end
