(* ===== verification/Utf8.thy ===== *)
theory Utf8
  imports Prelude
begin

section \<open>UTF-8 as the Rust standard library reads and writes it\<close>

text \<open>
  A Rust \<^verbatim>\<open>char\<close> is modelled by its scalar value, a \<^verbatim>\<open>String\<close> that is built character by
  character as a list of them. \<open>utf8_next\<close> reads one well-formed sequence, with the ranges
  of RFC 3629 that \<^verbatim>\<open>str::from_utf8\<close> documents; \<open>from_utf8\<close> gives the characters or the
  offset \<^verbatim>\<open>valid_up_to\<close> of the first ill-formed byte.
\<close>

type_synonym rune = nat
type_synonym rstring = "rune list"

abbreviation (input) lit :: "string \<Rightarrow> rstring" where
  "lit s \<equiv> map of_char s"

definition cont :: "byte \<Rightarrow> bool" where
  "cont b = (128 \<le> bval b \<and> bval b < 192)"

fun utf8_next :: "bytes \<Rightarrow> (rune \<times> nat) option" where
  "utf8_next [] = None"
| "utf8_next (b0 # bs) =
     (let n0 = bval b0 in
      if n0 < 128 then Some (n0, 1)
      else if 194 \<le> n0 \<and> n0 < 224 then
        (case bs of
           b1 # _ \<Rightarrow> if cont b1 then Some ((n0 - 192) * 64 + (bval b1 - 128), 2) else None
         | [] \<Rightarrow> None)
      else if 224 \<le> n0 \<and> n0 < 240 then
        (case bs of
           b1 # b2 # _ \<Rightarrow>
             if cont b1 \<and> cont b2 \<and> (n0 = 224 \<longrightarrow> 160 \<le> bval b1) \<and> (n0 = 237 \<longrightarrow> bval b1 < 160)
             then Some ((n0 - 224) * 4096 + (bval b1 - 128) * 64 + (bval b2 - 128), 3) else None
         | _ \<Rightarrow> None)
      else if 240 \<le> n0 \<and> n0 < 245 then
        (case bs of
           b1 # b2 # b3 # _ \<Rightarrow>
             if cont b1 \<and> cont b2 \<and> cont b3 \<and> (n0 = 240 \<longrightarrow> 144 \<le> bval b1) \<and> (n0 = 244 \<longrightarrow> bval b1 < 144)
             then Some ((n0 - 240) * 262144 + (bval b1 - 128) * 4096 + (bval b2 - 128) * 64
                        + (bval b3 - 128), 4) else None
         | _ \<Rightarrow> None)
      else None)"

definition utf8_encode :: "rune \<Rightarrow> bytes" where
  "utf8_encode c =
     (if c < 128 then [char_of c]
      else if c < 2048 then [char_of (192 + c div 64), char_of (128 + c mod 64)]
      else if c < 65536 then
        [char_of (224 + c div 4096), char_of (128 + c div 64 mod 64), char_of (128 + c mod 64)]
      else [char_of (240 + c div 262144), char_of (128 + c div 4096 mod 64),
            char_of (128 + c div 64 mod 64), char_of (128 + c mod 64)])"

text \<open>The longest well-formed prefix, as characters and as a byte count.\<close>

function utf8_prefix :: "bytes \<Rightarrow> rstring \<times> nat" where
  "utf8_prefix bs =
     (case utf8_next bs of
        None \<Rightarrow> ([], 0)
      | Some (c, w) \<Rightarrow> (if w = 0 then ([], 0)
          else let (cs, n) = utf8_prefix (drop w bs) in (c # cs, w + n)))"
  by pat_completeness auto
termination
proof (relation "measure length", goal_cases)
  case (2 bs p c w)
  then have "bs \<noteq> []" by auto
  with 2 show ?case by (cases bs) auto
qed simp

declare utf8_prefix.simps [simp del]

datatype utf8_result = Utf8_Ok rstring | Utf8_Err nat

definition from_utf8 :: "bytes \<Rightarrow> utf8_result" where
  "from_utf8 bs = (let (cs, n) = utf8_prefix bs in if n = length bs then Utf8_Ok cs else Utf8_Err n)"

subsection \<open>Decoding and encoding\<close>

lemma char_of_bval: "n = bval b \<Longrightarrow> char_of n = b"
  by simp

lemma utf8_next_width: "utf8_next bs = Some (c, w) \<Longrightarrow> 0 < w \<and> w \<le> length bs"
  by (cases bs) (auto simp: Let_def split: if_splits list.splits)

lemma divmod64: "z < 64 \<Longrightarrow> (a * 64 + z) div 64 = a" "z < 64 \<Longrightarrow> (a * 64 + z) mod 64 = (z :: nat)"
  by auto

lemma cont_bval: "cont b \<Longrightarrow> \<exists>y < 64. bval b = 128 + y"
  by (rule exI [of _ "bval b - 128"]) (auto simp: cont_def)

text \<open>The four shapes of a well-formed sequence, the bits of the character written out.\<close>

lemma utf8_next_cases:
  assumes "utf8_next bs = Some (c, w)"
  obtains (one) b0 r where "bs = b0 # r" "bval b0 < 128" "c = bval b0" "w = 1"
    | (two) b0 b1 r x y where "bs = b0 # b1 # r" "bval b0 = 192 + x" "bval b1 = 128 + y"
        "2 \<le> x" "x < 32" "y < 64" "c = x * 64 + y" "w = 2"
    | (three) b0 b1 b2 r x y z where "bs = b0 # b1 # b2 # r" "bval b0 = 224 + x" "bval b1 = 128 + y"
        "bval b2 = 128 + z" "x < 16" "y < 64" "z < 64" "x = 0 \<longrightarrow> 32 \<le> y" "x = 13 \<longrightarrow> y < 32"
        "c = (x * 64 + y) * 64 + z" "w = 3"
    | (four) b0 b1 b2 b3 r x y z u where "bs = b0 # b1 # b2 # b3 # r" "bval b0 = 240 + x"
        "bval b1 = 128 + y" "bval b2 = 128 + z" "bval b3 = 128 + u" "x < 5" "y < 64" "z < 64" "u < 64"
        "x = 0 \<longrightarrow> 16 \<le> y" "x = 4 \<longrightarrow> y < 16" "c = ((x * 64 + y) * 64 + z) * 64 + u" "w = 4"
proof -
  obtain b0 bs' where bs: "bs = b0 # bs'" using assms by (cases bs) auto
  have "bval b0 < 128 \<or> 194 \<le> bval b0 \<and> bval b0 < 224 \<or> 224 \<le> bval b0 \<and> bval b0 < 240
      \<or> 240 \<le> bval b0 \<and> bval b0 < 245"
    using assms unfolding bs by (auto simp: Let_def split: if_splits)
  then show thesis
  proof (elim disjE conjE)
    assume "bval b0 < 128"
    with assms show thesis by (intro one [of b0 bs']) (simp_all add: bs)
  next
    assume g: "194 \<le> bval b0" "bval b0 < 224"
    with assms obtain b1 r where b1: "bs' = b1 # r" "cont b1"
      by (cases bs') (auto simp: bs Let_def split: if_splits)
    moreover obtain y where "y < 64" "bval b1 = 128 + y" using cont_bval b1 by blast
    moreover obtain x where "bval b0 = 192 + x" using le_Suc_ex [of 192 "bval b0"] g by auto
    ultimately show thesis using assms g by (intro two [of b0 b1 r x y]) (simp_all add: bs)
  next
    assume g: "224 \<le> bval b0" "bval b0 < 240"
    with assms obtain b1 b2 r where b: "bs' = b1 # b2 # r" "cont b1" "cont b2"
      by (cases bs') (auto simp: bs Let_def split: if_splits list.splits)
    moreover obtain y z where "y < 64" "bval b1 = 128 + y" "z < 64" "bval b2 = 128 + z"
      using cont_bval b by blast
    moreover obtain x where "bval b0 = 224 + x" using le_Suc_ex [of 224 "bval b0"] g by auto
    ultimately show thesis using assms g
      by (intro three [of b0 b1 b2 r x y z]) (simp_all add: bs split: if_splits)
  next
    assume g: "240 \<le> bval b0" "bval b0 < 245"
    with assms obtain b1 b2 b3 r where b: "bs' = b1 # b2 # b3 # r" "cont b1" "cont b2" "cont b3"
      by (cases bs') (auto simp: bs Let_def split: if_splits list.splits)
    moreover obtain y z u where "y < 64" "bval b1 = 128 + y" "z < 64" "bval b2 = 128 + z"
        "u < 64" "bval b3 = 128 + u"
      using cont_bval b by metis
    moreover obtain x where "bval b0 = 240 + x" using le_Suc_ex [of 240 "bval b0"] g by auto
    ultimately show thesis using assms g
      by (intro four [of b0 b1 b2 b3 r x y z u]) (simp_all add: bs split: if_splits)
  qed
qed

lemma utf8_next_encode:
  assumes "utf8_next bs = Some (c, w)"
  shows "utf8_encode c = take w bs"
  using assms
proof (cases rule: utf8_next_cases)
  case (two b0 b1 r x y)
  then have "\<not> c < 128" "c < 2048" "192 + c div 64 = bval b0" "128 + c mod 64 = bval b1"
    by (auto simp: divmod64)
  with two show ?thesis by (simp add: utf8_encode_def char_of_bval)
next
  case (three b0 b1 b2 r x y z)
  then have "c div 64 = x * 64 + y" "c mod 64 = z" by (simp_all only: divmod64)
  moreover from this have "c div 4096 = x" "c div 64 mod 64 = y"
    using three div_mult2_eq [of c 64 64] by (simp_all add: divmod64)
  moreover have "\<not> c < 2048" "c < 65536"
    using three by (cases "x = 0"; simp)+
  ultimately show ?thesis using three by (simp add: utf8_encode_def char_of_bval)
next
  case (four b0 b1 b2 b3 r x y z u)
  then have d1: "c div 64 = (x * 64 + y) * 64 + z" "c mod 64 = u" by (simp_all only: divmod64)
  have d2: "c div 64 div 64 = x * 64 + y" "c div 64 mod 64 = z"
    unfolding d1(1) using four by (simp_all only: divmod64)
  have d3: "c div 64 div 64 div 64 = x" "c div 64 div 64 mod 64 = y"
    unfolding d2(1) using four by (simp_all only: divmod64)
  have d4: "c div 4096 = c div 64 div 64" "c div 262144 = c div 64 div 64 div 64"
    by (simp_all flip: div_mult2_eq)
  have "\<not> c < 65536" using four by (cases "x = 0") simp_all
  with d1 d2 d3 d4 four show ?thesis by (simp add: utf8_encode_def char_of_bval)
qed (simp add: utf8_encode_def)

lemma utf8_prefix_encode:
  "utf8_prefix bs = (cs, n) \<Longrightarrow> concat (map utf8_encode cs) = take n bs \<and> n \<le> length bs"
proof (induction bs arbitrary: cs n rule: utf8_prefix.induct)
  case (1 bs)
  show ?case
  proof (cases "utf8_next bs")
    case None
    with "1.prems" show ?thesis by (simp add: utf8_prefix.simps [of bs])
  next
    case (Some cw)
    obtain c w where cw: "cw = (c, w)" by fastforce
    have w: "0 < w" "w \<le> length bs" using utf8_next_width Some cw by blast+
    obtain cs' n' where rec: "utf8_prefix (drop w bs) = (cs', n')" by fastforce
    with "1.prems" Some cw w have "cs = c # cs'" "n = w + n'"
      by (simp_all add: utf8_prefix.simps [of bs])
    moreover have "concat (map utf8_encode cs') = take n' (drop w bs) \<and> n' \<le> length (drop w bs)"
      using "1.IH" [OF Some cw [symmetric] _ rec] w by simp
    ultimately show ?thesis
      using utf8_next_encode [of bs c w] Some cw w by (auto simp: take_add)
  qed
qed

lemma from_utf8_Ok: "from_utf8 bs = Utf8_Ok cs \<Longrightarrow> concat (map utf8_encode cs) = bs"
  using utf8_prefix_encode [of bs] by (auto simp: from_utf8_def Let_def split: prod.splits if_splits)

lemma from_utf8_Err_lt: "from_utf8 bs = Utf8_Err n \<Longrightarrow> n < length bs"
  using utf8_prefix_encode [of bs] by (auto simp: from_utf8_def Let_def split: prod.splits if_splits)

text \<open>Reading depends only on the bytes read, so a well-formed prefix reads the same alone.\<close>

lemma utf8_next_take:
  assumes "utf8_next bs = Some (c, w)" "w \<le> n"
  shows "utf8_next (take n bs) = Some (c, w)"
proof -
  obtain b0 bs' where bs: "bs = b0 # bs'" using assms by (cases bs) auto
  obtain n' where n: "n = Suc n'" using assms utf8_next_width by (cases n) fastforce+
  show ?thesis
    using assms unfolding bs n
    by (auto simp: Let_def take_Cons split: if_splits list.splits nat.splits)
qed

lemma utf8_prefix_take:
  "utf8_prefix bs = (cs, n) \<Longrightarrow> utf8_prefix (take n bs) = (cs, n)"
proof (induction bs arbitrary: cs n rule: utf8_prefix.induct)
  case (1 bs)
  show ?case
  proof (cases "utf8_next bs")
    case None
    with "1.prems" show ?thesis by (auto simp: utf8_prefix.simps)
  next
    case (Some cw)
    obtain c w where cw: "cw = (c, w)" by fastforce
    have w: "0 < w" "w \<le> length bs" using utf8_next_width Some cw by blast+
    obtain cs' n' where rec: "utf8_prefix (drop w bs) = (cs', n')" by fastforce
    with "1.prems" Some cw w have n: "cs = c # cs'" "n = w + n'"
      by (simp_all add: utf8_prefix.simps [of bs])
    have "utf8_prefix (take n' (drop w bs)) = (cs', n')"
      using "1.IH" [OF Some cw [symmetric] _ rec] w by simp
    moreover have "utf8_next (take n bs) = Some (c, w)"
      using utf8_next_take Some cw n by simp
    moreover have "drop w (take n bs) = take n' (drop w bs)" by (simp add: n drop_take)
    ultimately show ?thesis using n w by (simp add: utf8_prefix.simps [of "take (w + n') bs"])
  qed
qed

lemma from_utf8_valid_prefix:
  assumes "from_utf8 bs = Utf8_Err n"
  obtains cs where "from_utf8 (take n bs) = Utf8_Ok cs" "concat (map utf8_encode cs) = take n bs"
proof -
  obtain cs m where p: "utf8_prefix bs = (cs, m)" by fastforce
  with assms have "m = n" by (auto simp: from_utf8_def split: if_splits)
  with p utf8_prefix_take [of bs cs n] have "utf8_prefix (take n bs) = (cs, n)" by simp
  moreover have "n < length bs" using assms by (rule from_utf8_Err_lt)
  ultimately have "from_utf8 (take n bs) = Utf8_Ok cs" by (simp add: from_utf8_def)
  with from_utf8_Ok that show ?thesis by blast
qed

text \<open>A scalar value read back from its encoding; the characters of a valid string are scalar values.\<close>

definition is_scalar :: "rune \<Rightarrow> bool" where
  "is_scalar c = (c < 55296 \<or> 57344 \<le> c \<and> c < 1114112)"

lemma utf8_next_scalar:
  assumes "utf8_next bs = Some (c, w)"
  shows "is_scalar c"
  using assms
proof (cases rule: utf8_next_cases)
  case (three b0 b1 b2 r x y z)
  then consider "x < 13" | "x = 13" "y < 32" | "13 < x" by linarith
  then show ?thesis by cases (use three in \<open>simp_all add: is_scalar_def\<close>)
next
  case (four b0 b1 b2 b3 r x y z u)
  then have "16 \<le> x * 64 + y" "x * 64 + y < 272" by (cases "x = 0"; cases "x = 4"; simp)+
  with four show ?thesis by (simp add: is_scalar_def)
qed (simp_all add: is_scalar_def)

lemma utf8_prefix_scalar: "utf8_prefix bs = (cs, n) \<Longrightarrow> list_all is_scalar cs"
proof (induction bs arbitrary: cs n rule: utf8_prefix.induct)
  case (1 bs)
  show ?case
  proof (cases "utf8_next bs")
    case None
    with "1.prems" show ?thesis by (simp add: utf8_prefix.simps [of bs])
  next
    case (Some cw)
    obtain c w where cw: "cw = (c, w)" by fastforce
    obtain cs' n' where rec: "utf8_prefix (drop w bs) = (cs', n')" by fastforce
    have w: "0 < w" using utf8_next_width Some cw by blast
    with rec "1.prems" Some cw have "cs = c # cs'" by (simp add: utf8_prefix.simps [of bs])
    moreover have "list_all is_scalar cs'" using "1.IH" [OF Some cw [symmetric] _ rec] w by simp
    ultimately show ?thesis using utf8_next_scalar Some cw by simp
  qed
qed

lemma from_utf8_scalar: "from_utf8 bs = Utf8_Ok cs \<Longrightarrow> list_all is_scalar cs"
  using utf8_prefix_scalar [of bs] by (auto simp: from_utf8_def split: prod.splits if_splits)

text \<open>ASCII is its own encoding.\<close>

lemma utf8_prefix_ascii: "list_all is_ascii bs \<Longrightarrow> utf8_prefix bs = (map of_char bs, length bs)"
proof (induction bs)
  case (Cons b bs)
  then have "utf8_next (b # bs) = Some (bval b, 1)" by (simp add: is_ascii_def)
  with Cons show ?case by (simp add: utf8_prefix.simps [of "b # bs"])
qed (simp add: utf8_prefix.simps)

lemma from_utf8_ascii: "list_all is_ascii bs \<Longrightarrow> from_utf8 bs = Utf8_Ok (map of_char bs)"
  by (simp add: from_utf8_def utf8_prefix_ascii)

lemma digits_ascii: "list_all is_ascii_digit bs \<Longrightarrow> list_all is_ascii bs"
  by (auto simp: list_all_iff is_ascii_digit_def is_ascii_def)

end
