(* ===== verification/GoQuote.thy ===== *)
theory GoQuote
  imports Utf8
begin

section \<open>Go's \<^verbatim>\<open>%q\<close> as \<^verbatim>\<open>context.rs\<close> ports it\<close>

text \<open>
  \<^verbatim>\<open>go_quote\<close>, \<^verbatim>\<open>quote_rune\<close> and \<^verbatim>\<open>go_is_print\<close> with their four tables. A quoted string is a list
  of scalar values (a Rust \<^verbatim>\<open>String\<close> read character by character). \<open>unquote\<close> is the reference
  reader; it is not in the program.
\<close>

subsection \<open>The tables of \<^verbatim>\<open>strconv/isprint.go\<close>\<close>

definition GO_IS_PRINT_16 :: "nat list" where
  "GO_IS_PRINT_16 = [
     32, 126, 161, 887, 890, 895, 900, 1366, 1369, 1418, 1421, 1479, 1488, 1514, 1519, 1524,
     1542, 1805, 1808, 1866, 1869, 1969, 1984, 2042, 2045, 2093, 2096, 2139, 2142, 2154, 2160,
     2190, 2200, 2444, 2447, 2448, 2451, 2482, 2486, 2489, 2492, 2500, 2503, 2504, 2507, 2510,
     2519, 2519, 2524, 2531, 2534, 2558, 2561, 2570, 2575, 2576, 2579, 2617, 2620, 2626, 2631,
     2632, 2635, 2637, 2641, 2641, 2649, 2654, 2662, 2678, 2689, 2745, 2748, 2765, 2768, 2768,
     2784, 2787, 2790, 2801, 2809, 2828, 2831, 2832, 2835, 2873, 2876, 2884, 2887, 2888, 2891,
     2893, 2901, 2903, 2908, 2915, 2918, 2935, 2946, 2954, 2958, 2965, 2969, 2975, 2979, 2980,
     2984, 2986, 2990, 3001, 3006, 3010, 3014, 3021, 3024, 3024, 3031, 3031, 3046, 3066, 3072,
     3129, 3132, 3149, 3157, 3162, 3165, 3165, 3168, 3171, 3174, 3183, 3191, 3257, 3260, 3277,
     3285, 3286, 3293, 3299, 3302, 3315, 3328, 3407, 3412, 3427, 3430, 3478, 3482, 3517, 3520,
     3526, 3530, 3530, 3535, 3551, 3558, 3567, 3570, 3572, 3585, 3642, 3647, 3675, 3713, 3773,
     3776, 3801, 3804, 3807, 3840, 3948, 3953, 4058, 4096, 4295, 4301, 4301, 4304, 4685, 4688,
     4701, 4704, 4749, 4752, 4789, 4792, 4805, 4808, 4885, 4888, 4954, 4957, 4988, 4992, 5017,
     5024, 5109, 5112, 5117, 5120, 5788, 5792, 5880, 5888, 5909, 5919, 5942, 5952, 5971, 5984,
     6003, 6016, 6109, 6112, 6121, 6128, 6137, 6144, 6169, 6176, 6264, 6272, 6314, 6320, 6389,
     6400, 6443, 6448, 6459, 6464, 6464, 6468, 6509, 6512, 6516, 6528, 6571, 6576, 6601, 6608,
     6618, 6622, 6683, 6686, 6780, 6783, 6793, 6800, 6809, 6816, 6829, 6832, 6862, 6912, 6988,
     6992, 7155, 7164, 7223, 7227, 7241, 7245, 7304, 7312, 7354, 7357, 7367, 7376, 7418, 7424,
     7957, 7960, 7965, 7968, 8005, 8008, 8013, 8016, 8061, 8064, 8147, 8150, 8175, 8178, 8190,
     8208, 8231, 8240, 8286, 8304, 8305, 8308, 8348, 8352, 8384, 8400, 8432, 8448, 8587, 8592,
     9254, 9280, 9290, 9312, 11123, 11126, 11507, 11513, 11559, 11565, 11565, 11568, 11623,
     11631, 11632, 11647, 11670, 11680, 11869, 11904, 12019, 12032, 12245, 12272, 12283, 12289,
     12438, 12441, 12543, 12549, 12771, 12784, 42124, 42128, 42182, 42192, 42539, 42560, 42743,
     42752, 42954, 42960, 42969, 42994, 43052, 43056, 43065, 43072, 43127, 43136, 43205, 43214,
     43225, 43232, 43347, 43359, 43388, 43392, 43481, 43486, 43574, 43584, 43597, 43600, 43609,
     43612, 43714, 43739, 43766, 43777, 43782, 43785, 43790, 43793, 43798, 43808, 43883, 43888,
     44013, 44016, 44025, 44032, 55203, 55216, 55238, 55243, 55291, 63744, 64109, 64112, 64217,
     64256, 64262, 64275, 64279, 64285, 64450, 64467, 64911, 64914, 64967, 64975, 64975, 65008,
     65049, 65056, 65131, 65136, 65276, 65281, 65470, 65474, 65479, 65482, 65487, 65490, 65495,
     65498, 65500, 65504, 65518, 65532, 65533]"

definition GO_IS_NOT_PRINT_16 :: "nat list" where
  "GO_IS_NOT_PRINT_16 = [
     173, 907, 909, 930, 1328, 1424, 1564, 1757, 2111, 2143, 2274, 2436, 2473, 2481, 2526, 2564,
     2601, 2609, 2612, 2615, 2621, 2653, 2692, 2702, 2706, 2729, 2737, 2740, 2758, 2762, 2816,
     2820, 2857, 2865, 2868, 2910, 2948, 2961, 2971, 2973, 3017, 3085, 3089, 3113, 3141, 3145,
     3159, 3213, 3217, 3241, 3252, 3269, 3273, 3295, 3312, 3341, 3345, 3397, 3401, 3456, 3460,
     3506, 3516, 3541, 3543, 3715, 3717, 3723, 3748, 3750, 3781, 3783, 3791, 3912, 3992, 4029,
     4045, 4294, 4681, 4695, 4697, 4745, 4785, 4799, 4801, 4823, 4881, 5760, 5997, 6001, 6158,
     6431, 6751, 7039, 8024, 8026, 8028, 8030, 8117, 8133, 8156, 8181, 8335, 11158, 11558,
     11687, 11695, 11703, 11711, 11719, 11727, 11735, 11743, 11930, 12352, 12592, 12687, 12831,
     42962, 42964, 43470, 43519, 43815, 43823, 64311, 64317, 64319, 64322, 64325, 65107, 65127,
     65141, 65511]"

definition GO_IS_PRINT_32 :: "nat list" where
  "GO_IS_PRINT_32 = [
     65536, 65613, 65616, 65629, 65664, 65786, 65792, 65794, 65799, 65843, 65847, 65948, 65952,
     65952, 66000, 66045, 66176, 66204, 66208, 66256, 66272, 66299, 66304, 66339, 66349, 66378,
     66384, 66426, 66432, 66499, 66504, 66517, 66560, 66717, 66720, 66729, 66736, 66771, 66776,
     66811, 66816, 66855, 66864, 66915, 66927, 67004, 67072, 67382, 67392, 67413, 67424, 67431,
     67456, 67514, 67584, 67589, 67592, 67640, 67644, 67644, 67647, 67742, 67751, 67759, 67808,
     67829, 67835, 67867, 67871, 67897, 67903, 67903, 67968, 68023, 68028, 68047, 68050, 68102,
     68108, 68149, 68152, 68154, 68159, 68168, 68176, 68184, 68192, 68255, 68288, 68326, 68331,
     68342, 68352, 68405, 68409, 68437, 68440, 68466, 68472, 68497, 68505, 68508, 68521, 68527,
     68608, 68680, 68736, 68786, 68800, 68850, 68858, 68903, 68912, 68921, 69216, 69293, 69296,
     69297, 69373, 69415, 69424, 69465, 69488, 69513, 69552, 69579, 69600, 69622, 69632, 69709,
     69714, 69749, 69759, 69826, 69840, 69864, 69872, 69881, 69888, 69959, 69968, 70006, 70016,
     70132, 70144, 70209, 70272, 70313, 70320, 70378, 70384, 70393, 70400, 70412, 70415, 70416,
     70419, 70468, 70471, 70472, 70475, 70477, 70480, 70480, 70487, 70487, 70493, 70499, 70502,
     70508, 70512, 70516, 70656, 70753, 70784, 70855, 70864, 70873, 71040, 71093, 71096, 71133,
     71168, 71236, 71248, 71257, 71264, 71276, 71296, 71353, 71360, 71369, 71424, 71450, 71453,
     71467, 71472, 71494, 71680, 71739, 71840, 71922, 71935, 71942, 71945, 71945, 71948, 71992,
     71995, 72006, 72016, 72025, 72096, 72103, 72106, 72151, 72154, 72164, 72192, 72263, 72272,
     72354, 72368, 72440, 72448, 72457, 72704, 72773, 72784, 72812, 72816, 72847, 72850, 72886,
     72960, 73014, 73018, 73031, 73040, 73049, 73056, 73112, 73120, 73129, 73440, 73464, 73472,
     73530, 73534, 73561, 73648, 73648, 73664, 73713, 73727, 74649, 74752, 74868, 74880, 75075,
     77712, 77810, 77824, 78895, 78912, 78933, 82944, 83526, 92160, 92728, 92736, 92777, 92782,
     92873, 92880, 92909, 92912, 92917, 92928, 92997, 93008, 93047, 93053, 93071, 93760, 93850,
     93952, 94026, 94031, 94087, 94095, 94111, 94176, 94180, 94192, 94193, 94208, 100343,
     100352, 101589, 101632, 101640, 110576, 110882, 110898, 110898, 110928, 110930, 110933,
     110933, 110948, 110951, 110960, 111355, 113664, 113770, 113776, 113788, 113792, 113800,
     113808, 113817, 113820, 113823, 118528, 118573, 118576, 118598, 118608, 118723, 118784,
     119029, 119040, 119078, 119081, 119154, 119163, 119274, 119296, 119365, 119488, 119507,
     119520, 119539, 119552, 119638, 119648, 119672, 119808, 119967, 119970, 119970, 119973,
     119974, 119977, 120074, 120077, 120134, 120138, 120485, 120488, 120779, 120782, 121483,
     121499, 121519, 122624, 122654, 122661, 122666, 122880, 122904, 122907, 122922, 122928,
     122989, 123023, 123023, 123136, 123180, 123184, 123197, 123200, 123209, 123214, 123215,
     123536, 123566, 123584, 123641, 123647, 123647, 124112, 124153, 124896, 125124, 125127,
     125142, 125184, 125259, 125264, 125273, 125278, 125279, 126065, 126132, 126209, 126269,
     126464, 126500, 126503, 126523, 126530, 126530, 126535, 126548, 126551, 126564, 126567,
     126619, 126625, 126651, 126704, 126705, 126976, 127019, 127024, 127123, 127136, 127150,
     127153, 127221, 127232, 127405, 127462, 127490, 127504, 127547, 127552, 127560, 127568,
     127569, 127584, 127589, 127744, 128727, 128732, 128748, 128752, 128764, 128768, 128886,
     128891, 128985, 128992, 129003, 129008, 129008, 129024, 129035, 129040, 129095, 129104,
     129113, 129120, 129159, 129168, 129197, 129200, 129201, 129280, 129619, 129632, 129645,
     129648, 129660, 129664, 129672, 129680, 129733, 129742, 129755, 129760, 129768, 129776,
     129784, 129792, 129994, 130032, 130041, 131072, 173791, 173824, 177977, 177984, 178205,
     178208, 183969, 183984, 191456, 194560, 195101, 196608, 201546, 201552, 205743, 917760,
     917999]"

definition GO_IS_NOT_PRINT_32 :: "nat list" where
  "GO_IS_NOT_PRINT_32 = [
     12, 39, 59, 62, 399, 926, 1403, 1419, 1427, 1430, 1442, 1458, 1466, 1926, 1969, 2057, 2102,
     2134, 2291, 2564, 2580, 2584, 3711, 3754, 4285, 4405, 4576, 4626, 4743, 4745, 4750, 4766,
     4868, 4905, 4913, 4916, 4922, 5212, 6420, 6423, 6454, 7177, 7223, 7336, 7431, 7434, 7483,
     7486, 7526, 7529, 7567, 7570, 7953, 9327, 27231, 27327, 27482, 27490, 45044, 45052, 45055,
     54357, 54429, 54445, 54458, 54460, 54468, 54534, 54549, 54557, 54586, 54591, 54597, 54609,
     55968, 57351, 57378, 57381, 59367, 59372, 59375, 59391, 60932, 60960, 60963, 60968, 60979,
     60984, 60986, 61000, 61002, 61004, 61008, 61011, 61016, 61018, 61020, 61022, 61024, 61027,
     61035, 61043, 61048, 61053, 61055, 61066, 61092, 61098, 61632, 61648, 64190, 64403]"

subsection \<open>Printability\<close>

definition partition_point :: "('a \<Rightarrow> bool) \<Rightarrow> 'a list \<Rightarrow> nat" where
  "partition_point P xs = length (takeWhile P xs)"

definition binary_search_is_err :: "nat list \<Rightarrow> nat \<Rightarrow> bool" where
  "binary_search_is_err xs x = (\<not> List.member xs x)"

definition go_is_print :: "rune \<Rightarrow> bool" where
  "go_is_print r =
     (if r \<le> 255 then
        (if 32 \<le> r \<and> r \<le> 126 then True
         else if 161 \<le> r \<and> r \<le> 255 then r \<noteq> 173
         else False)
      else if r < 65536 then
        (let needle = r mod 65536;
             i = partition_point (\<lambda>e. e < needle) GO_IS_PRINT_16
         in if length GO_IS_PRINT_16 \<le> i
               \<or> needle < GO_IS_PRINT_16 ! (2 * (i div 2))
               \<or> GO_IS_PRINT_16 ! (2 * (i div 2) + 1) < needle
            then False else binary_search_is_err GO_IS_NOT_PRINT_16 needle)
      else
        (let i = partition_point (\<lambda>e. e < r) GO_IS_PRINT_32
         in if length GO_IS_PRINT_32 \<le> i
               \<or> r < GO_IS_PRINT_32 ! (2 * (i div 2))
               \<or> GO_IS_PRINT_32 ! (2 * (i div 2) + 1) < r
            then False
            else if 131072 \<le> r then True
            else binary_search_is_err GO_IS_NOT_PRINT_32 ((r - 65536) mod 65536)))"

subsection \<open>Quoting\<close>

text \<open>\<open>{:0w x}\<close> of \<^verbatim>\<open>format!\<close>: lower-case hexadecimal, padded with zeros on the left.\<close>

definition hex_lower :: "nat \<Rightarrow> rune" where
  "hex_lower d = (if d < 10 then 48 + d else 87 + d)"

fun hex_digits :: "nat \<Rightarrow> rstring" where
  "hex_digits n = (if n < 16 then [hex_lower n] else hex_digits (n div 16) @ [hex_lower (n mod 16)])"

declare hex_digits.simps [simp del]

definition fmt_hex :: "nat \<Rightarrow> nat \<Rightarrow> rstring" where
  "fmt_hex w n = (let ds = hex_digits n in replicate (w - length ds) 48 @ ds)"

definition quote_rune :: "rune \<Rightarrow> rstring" where
  "quote_rune c =
     (if c = 34 \<or> c = 92 then [92, c]
      else if go_is_print c then [c]
      else if c = 7 then [92, 97]
      else if c = 8 then [92, 98]
      else if c = 12 then [92, 102]
      else if c = 10 then [92, 110]
      else if c = 13 then [92, 114]
      else if c = 9 then [92, 116]
      else if c = 11 then [92, 118]
      else if c < 32 \<or> c = 127 then [92, 120] @ fmt_hex 2 c
      else if c < 65536 then [92, 117] @ fmt_hex 4 c
      else [92, 85] @ fmt_hex 8 c)"

text \<open>
  The loop of \<^verbatim>\<open>go_quote\<close>. \<open>None\<close> is the \<^verbatim>\<open>expect\<close> on the valid prefix failing.
\<close>

function go_quote_loop :: "bytes \<Rightarrow> rstring option" where
  "go_quote_loop rest =
     (if rest = [] then Some []
      else (case from_utf8 rest of
          Utf8_Ok cs \<Rightarrow> Some (concat (map quote_rune cs))
        | Utf8_Err valid_up_to \<Rightarrow>
            (let valid = take valid_up_to rest; invalid = drop valid_up_to rest
             in case from_utf8 valid of
                  Utf8_Err _ \<Rightarrow> None
                | Utf8_Ok cs \<Rightarrow>
                    map_option (\<lambda>out. concat (map quote_rune cs)
                        @ [92, 120] @ fmt_hex 2 (of_char (hd invalid)) @ out)
                      (go_quote_loop (tl invalid)))))"
  by pat_completeness auto
termination
  by (relation "measure length") (auto dest: from_utf8_Err_lt)

declare go_quote_loop.simps [simp del]

definition go_quote :: "bytes \<Rightarrow> rstring option" where
  "go_quote bs = map_option (\<lambda>out. 34 # out @ [34]) (go_quote_loop bs)"

subsection \<open>Reference: reading a quoted string back\<close>

definition hexval :: "rune \<Rightarrow> nat" where
  "hexval c = (if c < 58 then c - 48 else c - 87)"

definition read_hex :: "rstring \<Rightarrow> nat" where
  "read_hex cs = foldl (\<lambda>a d. 16 * a + hexval d) 0 cs"

fun unquote_body :: "rstring \<Rightarrow> bytes option" where
  "unquote_body [] = None"
| "unquote_body [c] = (if c = 34 then Some [] else None)"
| "unquote_body (c # d # rest) =
     (if c = 34 then None
      else if c \<noteq> 92 then map_option ((@) (utf8_encode c)) (unquote_body (d # rest))
      else if d = 34 \<or> d = 92 then map_option ((#) (char_of d)) (unquote_body rest)
      else if d = 97 then map_option ((#) (char_of (7::nat))) (unquote_body rest)
      else if d = 98 then map_option ((#) (char_of (8::nat))) (unquote_body rest)
      else if d = 102 then map_option ((#) (char_of (12::nat))) (unquote_body rest)
      else if d = 110 then map_option ((#) (char_of (10::nat))) (unquote_body rest)
      else if d = 114 then map_option ((#) (char_of (13::nat))) (unquote_body rest)
      else if d = 116 then map_option ((#) (char_of (9::nat))) (unquote_body rest)
      else if d = 118 then map_option ((#) (char_of (11::nat))) (unquote_body rest)
      else if d = 120 then
        map_option ((#) (char_of (read_hex (take 2 rest)))) (unquote_body (drop 2 rest))
      else if d = 117 then
        map_option ((@) (utf8_encode (read_hex (take 4 rest)))) (unquote_body (drop 4 rest))
      else if d = 85 then
        map_option ((@) (utf8_encode (read_hex (take 8 rest)))) (unquote_body (drop 8 rest))
      else None)"

definition unquote :: "rstring \<Rightarrow> bytes option" where
  "unquote s = (case s of [] \<Rightarrow> None | c # rest \<Rightarrow> if c = 34 then unquote_body rest else None)"

subsection \<open>The tables: ranges and holes\<close>

fun in_ranges :: "nat list \<Rightarrow> nat \<Rightarrow> bool" where
  "in_ranges (lo # hi # rest) x = (lo \<le> x \<and> x \<le> hi \<or> in_ranges rest x)"
| "in_ranges _ x = False"

fun ranges_ok :: "nat list \<Rightarrow> bool" where
  "ranges_ok [] = True"
| "ranges_ok [lo] = False"
| "ranges_ok [lo, hi] = (lo \<le> hi)"
| "ranges_ok (lo # hi # lo' # rest) = (lo \<le> hi \<and> hi < lo' \<and> ranges_ok (lo' # rest))"

lemma in_ranges_below: "ranges_ok xs \<Longrightarrow> xs = [] \<or> x < hd xs \<Longrightarrow> \<not> in_ranges xs x"
  by (induction xs rule: ranges_ok.induct) auto

lemma ranges_lookup:
  assumes "ranges_ok xs"
  shows "(let i = partition_point (\<lambda>e. e < x) xs in
      \<not> (length xs \<le> i \<or> x < xs ! (2 * (i div 2)) \<or> xs ! (2 * (i div 2) + 1) < x))
    = in_ranges xs x"
  using assms
proof (induction xs rule: ranges_ok.induct)
  case (4 lo hi lo' rest)
  let ?xs = "lo' # rest"
  let ?j = "partition_point (\<lambda>e. e < x) ?xs"
  consider "x \<le> lo" | "lo < x" "x \<le> hi" | "hi < x" by linarith
  then show ?case
  proof cases
    case 1
    with 4 have "\<not> in_ranges ?xs x" by (intro in_ranges_below) auto
    with 1 4 show ?thesis by (auto simp: partition_point_def)
  next
    case 2
    with 4 have "\<not> in_ranges ?xs x" by (intro in_ranges_below) auto
    with 2 4 show ?thesis by (auto simp: partition_point_def)
  next
    case 3
    with 4 have "partition_point (\<lambda>e. e < x) (lo # hi # ?xs) = 2 + ?j"
      by (auto simp: partition_point_def)
    moreover have "(lo # hi # ?xs) ! (2 * ((2 + ?j) div 2)) = ?xs ! (2 * (?j div 2))"
      "(lo # hi # ?xs) ! (2 * ((2 + ?j) div 2) + 1) = ?xs ! (2 * (?j div 2) + 1)"
      by (simp_all add: nth_Cons split: nat.splits)
    ultimately show ?thesis using 3 4 by (simp add: Let_def)
  qed
qed (auto simp: partition_point_def)

lemma ranges_ok_16: "ranges_ok GO_IS_PRINT_16"
  by (simp add: GO_IS_PRINT_16_def)

lemma ranges_ok_32: "ranges_ok GO_IS_PRINT_32"
  by (simp add: GO_IS_PRINT_32_def)

lemma ranges_tl_below: "ranges_ok (lo # hi # rest) \<Longrightarrow> x \<le> hi \<Longrightarrow> \<not> in_ranges rest x"
  using in_ranges_below [of rest x] by (cases rest) (auto elim: ranges_ok.elims)

lemma ranges_ok_tl: "ranges_ok (lo # hi # rest) \<Longrightarrow> ranges_ok rest"
  by (cases rest) (auto elim: ranges_ok.elims)

lemma print16_latin1:
  assumes "r \<le> 255"
  shows "in_ranges GO_IS_PRINT_16 r \<longleftrightarrow> 32 \<le> r \<and> r \<le> 126 \<or> 161 \<le> r"
proof -
  obtain xs where xs: "GO_IS_PRINT_16 = 32 # 126 # 161 # 887 # xs"
    unfolding GO_IS_PRINT_16_def by blast
  have "ranges_ok (161 # 887 # xs)" using ranges_ok_16 unfolding xs by (rule ranges_ok_tl)
  then have "\<not> in_ranges xs r" by (rule ranges_tl_below) (use assms in simp)
  with assms show ?thesis unfolding xs by auto
qed

lemma not_print16_latin1: "r \<le> 255 \<Longrightarrow> r \<in> set GO_IS_NOT_PRINT_16 \<longleftrightarrow> r = 173"
  by (auto simp: GO_IS_NOT_PRINT_16_def)

text \<open>\<^verbatim>\<open>go_is_print\<close> is membership in the inclusive ranges of the print table less the holes of the
  exception table: the Latin-1 fast path, the binary searches over the flat pair lists and the
  rounding of the candidate index to its pair compute exactly that, with the 16-bit tables below
  U+10000, the 32-bit range table above and its hole table only up to U+20000.\<close>

theorem go_is_print_ranges:
  "go_is_print r =
     (if r < 65536 then in_ranges GO_IS_PRINT_16 r \<and> r \<notin> set GO_IS_NOT_PRINT_16
      else in_ranges GO_IS_PRINT_32 r \<and> (if r < 131072 then r - 65536 \<notin> set GO_IS_NOT_PRINT_32 else True))"
proof -
  consider "r \<le> 255" | "255 < r" "r < 65536" | "65536 \<le> r" by linarith
  then show ?thesis
  proof cases
    case 1
    then show ?thesis by (auto simp: go_is_print_def print16_latin1 not_print16_latin1)
  next
    case 2
    with ranges_lookup [OF ranges_ok_16, of r] show ?thesis
      by (auto simp: go_is_print_def Let_def binary_search_is_err_def)
  next
    case 3
    with ranges_lookup [OF ranges_ok_32, of r] show ?thesis
      by (auto simp: go_is_print_def Let_def binary_search_is_err_def)
  qed
qed

subsection \<open>Hexadecimal\<close>

lemma read_hex_append: "read_hex (xs @ [d]) = 16 * read_hex xs + hexval d"
  by (simp add: read_hex_def)

lemma hexval_lower: "d < 16 \<Longrightarrow> hexval (hex_lower d) = d"
  by (simp add: hexval_def hex_lower_def)

lemma read_hex_digits: "read_hex (hex_digits n) = n"
proof (induction n rule: hex_digits.induct)
  case (1 n)
  show ?case
  proof (cases "n < 16")
    case True
    then show ?thesis by (simp add: hex_digits.simps [of n] hexval_lower read_hex_def)
  next
    case False
    with 1 show ?thesis by (simp add: hex_digits.simps [of n] read_hex_append hexval_lower)
  qed
qed

lemma read_hex_zeros: "read_hex (replicate k 48 @ ds) = read_hex ds"
  by (induction k) (simp_all add: read_hex_def hexval_def)

lemma read_fmt_hex [simp]: "read_hex (fmt_hex w n) = n"
  by (simp add: fmt_hex_def Let_def read_hex_zeros read_hex_digits)

lemma length_hex_digits: "n < 16 ^ w \<Longrightarrow> 0 < w \<Longrightarrow> length (hex_digits n) \<le> w"
proof (induction n arbitrary: w rule: hex_digits.induct)
  case (1 n)
  show ?case
  proof (cases "n < 16")
    case True
    with 1 show ?thesis by (simp add: hex_digits.simps [of n])
  next
    case False
    obtain v where v: "w = Suc v" using "1.prems" by (cases w) auto
    with False "1.prems" have "n div 16 < 16 ^ v" "0 < v" by (cases v; auto)+
    with "1.IH" False v show ?thesis by (simp add: hex_digits.simps [of n])
  qed
qed

lemma length_fmt_hex: "n < 16 ^ w \<Longrightarrow> 0 < w \<Longrightarrow> length (fmt_hex w n) = w"
  by (simp add: fmt_hex_def Let_def length_hex_digits)

lemma length_fmt_hexs:
  "n < 256 \<Longrightarrow> length (fmt_hex 2 n) = 2" "n < 65536 \<Longrightarrow> length (fmt_hex 4 n) = 4"
  "n < 4294967296 \<Longrightarrow> length (fmt_hex 8 n) = 8"
  by (simp_all add: length_fmt_hex)

lemma print_ascii: "32 \<le> r \<Longrightarrow> r \<le> 126 \<Longrightarrow> go_is_print r"
  by (simp add: go_is_print_def)

lemma hex_lower_print: "d < 16 \<Longrightarrow> go_is_print (hex_lower d)"
  by (intro print_ascii) (auto simp: hex_lower_def)

lemma hex_digits_print: "list_all go_is_print (hex_digits n)"
proof (induction n rule: hex_digits.induct)
  case (1 n)
  then show ?case
    by (cases "n < 16") (simp_all add: hex_digits.simps [of n] hex_lower_print)
qed

lemma fmt_hex_print: "list_all go_is_print (fmt_hex w n)"
  by (simp add: fmt_hex_def Let_def hex_digits_print print_ascii list_all_length nth_append)
    (simp add: hex_digits_print [unfolded list_all_length])

subsection \<open>The round trip\<close>

lemma quote_rune_print: "list_all go_is_print (quote_rune c)"
  by (auto simp: quote_rune_def print_ascii fmt_hex_print)

lemma unquote_hex2:
  "n < 256 \<Longrightarrow> unquote_body (92 # 120 # fmt_hex 2 n @ rest) =
     map_option ((#) (char_of n)) (unquote_body rest)"
  by (simp add: length_fmt_hexs)

lemma unquote_quote_rune:
  assumes "is_scalar c" "rest \<noteq> []"
  shows "unquote_body (quote_rune c @ rest) = map_option ((@) (utf8_encode c)) (unquote_body rest)"
proof -
  obtain d rest' where r: "rest = d # rest'" using assms by (cases rest) auto
  have one: "(#) (char_of k) = (@) (utf8_encode k)" if "k < 128" for k
    using that by (auto simp: utf8_encode_def)
  consider "c = 34 \<or> c = 92" | "c \<noteq> 34" "c \<noteq> 92" "go_is_print c"
    | "\<not> go_is_print c" "c \<noteq> 34" "c \<noteq> 92" "c \<in> {7, 8, 9, 10, 11, 12, 13}"
    | "\<not> go_is_print c" "c \<noteq> 34" "c \<noteq> 92" "c \<notin> {7, 8, 9, 10, 11, 12, 13}" "c < 32 \<or> c = 127"
    | "\<not> go_is_print c" "c \<noteq> 34" "c \<noteq> 92" "c \<notin> {7, 8, 9, 10, 11, 12, 13}" "\<not> (c < 32 \<or> c = 127)"
        "c < 65536"
    | "\<not> go_is_print c" "c \<noteq> 34" "c \<noteq> 92" "c \<notin> {7, 8, 9, 10, 11, 12, 13}" "\<not> (c < 32 \<or> c = 127)"
        "\<not> c < 65536"
    by blast
  then show ?thesis
  proof cases
    case 1
    then show ?thesis using one [of c] by (auto simp: quote_rune_def)
  next
    case 2
    then show ?thesis by (simp add: quote_rune_def r)
  next
    case 3
    then show ?thesis using one [of c] by (auto simp: quote_rune_def)
  next
    case 4
    then have "quote_rune c = [92, 120] @ fmt_hex 2 c" "c < 128" by (auto simp: quote_rune_def)
    then show ?thesis using one [of c] by (simp add: length_fmt_hexs)
  next
    case 5
    then have "quote_rune c = [92, 117] @ fmt_hex 4 c" by (auto simp: quote_rune_def)
    with 5 show ?thesis by (simp add: length_fmt_hexs)
  next
    case 6
    then have "quote_rune c = [92, 85] @ fmt_hex 8 c" by (auto simp: quote_rune_def)
    with 6 assms show ?thesis by (simp add: length_fmt_hexs is_scalar_def)
  qed
qed

lemma unquote_quote_runes:
  "list_all is_scalar cs \<Longrightarrow> rest \<noteq> [] \<Longrightarrow>
   unquote_body (concat (map quote_rune cs) @ rest) =
     map_option ((@) (concat (map utf8_encode cs))) (unquote_body rest)"
  by (induction cs; cases "unquote_body rest") (simp_all add: unquote_quote_rune)

lemma go_quote_loop_correct:
  "\<exists>out. go_quote_loop bs = Some out \<and> unquote_body (out @ [34]) = Some bs \<and> list_all go_is_print out"
proof (induction bs rule: go_quote_loop.induct)
  case (1 bs)
  have runes: "list_all go_is_print (concat (map quote_rune cs))" for cs
    by (induction cs) (simp_all add: quote_rune_print)
  show ?case
  proof (cases "from_utf8 bs")
    case (Utf8_Ok cs)
    have "bs = [] \<Longrightarrow> cs = []"
      using Utf8_Ok by (auto simp: from_utf8_def utf8_prefix.simps split: prod.splits)
    then have "go_quote_loop bs = Some (concat (map quote_rune cs))"
      using Utf8_Ok by (cases "bs = []") (simp_all add: go_quote_loop.simps [of bs] go_quote_loop.simps [of "[]"])
    with Utf8_Ok runes show ?thesis
      by (simp add: unquote_quote_runes from_utf8_scalar from_utf8_Ok)
  next
    case (Utf8_Err n)
    then obtain cs where cs: "from_utf8 (take n bs) = Utf8_Ok cs"
        "concat (map utf8_encode cs) = take n bs" by (rule from_utf8_valid_prefix)
    have n: "n < length bs" using Utf8_Err by (rule from_utf8_Err_lt)
    then have "bs \<noteq> []" by auto
    moreover obtain b bs' where "drop n bs = b # bs'" using n by (cases "drop n bs") auto
    ultimately have b: "drop n bs = b # bs'" "bs \<noteq> []" by simp_all
    have "\<exists>out. go_quote_loop bs' = Some out \<and> unquote_body (out @ [34]) = Some bs'
        \<and> list_all go_is_print out"
      using 1 [OF b(2) Utf8_Err refl refl cs(1)] b by simp
    then obtain out where out: "go_quote_loop bs' = Some out" "unquote_body (out @ [34]) = Some bs'"
        "list_all go_is_print out" by blast
    have "bs = take n bs @ b # bs'" by (metis append_take_drop_id b(1))
    moreover have "unquote_body (92 # 120 # fmt_hex 2 (bval b) @ out @ [34]) = Some (b # bs')"
      using out by (simp only: unquote_hex2 nat_of_char_less_256) simp
    ultimately show ?thesis using out cs b Utf8_Err runes
      by (simp add: go_quote_loop.simps [of bs] unquote_quote_runes from_utf8_scalar
          fmt_hex_print print_ascii del: unquote_body.simps)
  qed
qed

text \<open>C32. \<^verbatim>\<open>go_quote\<close> never panics on its \<^verbatim>\<open>expect\<close>, its result read back gives exactly the quoted
  bytes, ill-formed UTF-8 included, and every character of the result is printable: a control
  byte or a newline of a header value cannot reach the message unescaped.\<close>

theorem go_quote_roundtrip:
  "\<exists>s. go_quote bs = Some s \<and> unquote s = Some bs \<and> list_all go_is_print s"
  using go_quote_loop_correct [of bs]
  by (auto simp: go_quote_def unquote_def print_ascii)

end
