(* ===== verification/VarsBatch.thy ===== *)
theory VarsBatch
  imports CgiHeaders
begin

section \<open>The server-variables batch of \<^verbatim>\<open>callbacks/servervars.rs\<close>: its data\<close>

text \<open>
  What one \<^verbatim>\<open>go_register_server_variables\<close> call hands to C. A raw pointer is modelled by the
  buffer it points at: one of the arena's, a field of the computed variables, an element of
  the batch's \<^verbatim>\<open>values\<close> or \<^verbatim>\<open>keys\<close>, an interned string or a C literal. The context owns a batch,
  so this theory stands before the request context; the computation is in \<open>ServerVars\<close>.
\<close>

datatype c_ptr =
    Null
  | Arena_Buf nat
  | Known_Buf string
  | Value_Buf nat
  | Key_Buf nat
  | Interned_Str bytes
  | Static_Str bytes

text \<open>The address of a buffer is passed along with its bytes; an empty one becomes NULL.\<close>

definition c_buf :: "c_ptr \<Rightarrow> bytes \<Rightarrow> c_ptr \<times> nat" where
  "c_buf addr bs = (if bs = [] then (Null, 0) else (addr, length bs))"

record computed_server_vars =
  csv_remote_addr :: bytes
  csv_remote_port :: bytes
  csv_document_root :: bytes
  csv_path_info :: bytes
  csv_php_self :: bytes
  csv_document_uri :: bytes
  csv_script_filename :: bytes
  csv_script_name :: bytes
  csv_server_name :: bytes
  csv_server_port :: bytes
  csv_content_length :: bytes
  csv_server_protocol :: bytes
  csv_http_host :: bytes
  csv_request_uri :: bytes
  csv_total_num_vars :: nat

text \<open>The by-value struct of \<^verbatim>\<open>frankenphp_register_server_vars\<close>: each buffer with its length.\<close>

record frankenphp_server_vars =
  fsv_total_num_vars :: nat
  fsv_remote_addr :: "c_ptr \<times> nat"
  fsv_remote_host :: "c_ptr \<times> nat"
  fsv_remote_port :: "c_ptr \<times> nat"
  fsv_document_root :: "c_ptr \<times> nat"
  fsv_path_info :: "c_ptr \<times> nat"
  fsv_php_self :: "c_ptr \<times> nat"
  fsv_document_uri :: "c_ptr \<times> nat"
  fsv_script_filename :: "c_ptr \<times> nat"
  fsv_script_name :: "c_ptr \<times> nat"
  fsv_server_name :: "c_ptr \<times> nat"
  fsv_server_port :: "c_ptr \<times> nat"
  fsv_content_length :: "c_ptr \<times> nat"
  fsv_server_protocol :: "c_ptr \<times> nat"
  fsv_http_host :: "c_ptr \<times> nat"
  fsv_request_uri :: "c_ptr \<times> nat"
  fsv_ssl_cipher :: "c_ptr \<times> nat"
  fsv_request_scheme :: c_ptr
  fsv_ssl_protocol :: c_ptr
  fsv_https :: c_ptr

definition as_ffi :: "computed_server_vars \<Rightarrow> frankenphp_server_vars" where
  "as_ffi v =
     (let remote_addr = c_buf (Known_Buf ''remote_addr'') (csv_remote_addr v) in
      \<lparr>fsv_total_num_vars = csv_total_num_vars v,
       fsv_remote_addr = remote_addr,
       fsv_remote_host = remote_addr,
       fsv_remote_port = c_buf (Known_Buf ''remote_port'') (csv_remote_port v),
       fsv_document_root = c_buf (Known_Buf ''document_root'') (csv_document_root v),
       fsv_path_info = c_buf (Known_Buf ''path_info'') (csv_path_info v),
       fsv_php_self = c_buf (Known_Buf ''php_self'') (csv_php_self v),
       fsv_document_uri = c_buf (Known_Buf ''document_uri'') (csv_document_uri v),
       fsv_script_filename = c_buf (Known_Buf ''script_filename'') (csv_script_filename v),
       fsv_script_name = c_buf (Known_Buf ''script_name'') (csv_script_name v),
       fsv_server_name = c_buf (Known_Buf ''server_name'') (csv_server_name v),
       fsv_server_port = c_buf (Known_Buf ''server_port'') (csv_server_port v),
       fsv_content_length = c_buf (Known_Buf ''content_length'') (csv_content_length v),
       fsv_server_protocol = c_buf (Known_Buf ''server_protocol'') (csv_server_protocol v),
       fsv_http_host = c_buf (Known_Buf ''http_host'') (csv_http_host v),
       fsv_request_uri = c_buf (Known_Buf ''request_uri'') (csv_request_uri v),
       fsv_ssl_cipher = (Null, 0),
       fsv_request_scheme = Interned_Str ''http'',
       fsv_ssl_protocol = Interned_Str '''',
       fsv_https = Interned_Str ''''\<rparr>)"

record header_var =
  hv_known_key :: c_ptr
  hv_key :: c_ptr
  hv_value :: c_ptr
  hv_value_len :: nat

record server_vars_batch =
  svb_known :: computed_server_vars
  svb_values :: "bytes list"
  svb_keys :: "bytes list"
  svb_headers :: "header_var list"

text \<open>The view C walks: the struct, the descriptor array and its count.\<close>

record c_batch =
  cb_vars :: frankenphp_server_vars
  cb_headers :: "header_var list"
  cb_num_headers :: nat

definition as_c_batch :: "server_vars_batch \<Rightarrow> c_batch" where
  "as_c_batch b =
     \<lparr>cb_vars = as_ffi (svb_known b), cb_headers = svb_headers b,
      cb_num_headers = length (svb_headers b)\<rparr>"

text \<open>Reading a pointer back, through the batch that owns the buffers.\<close>

definition known_field :: "computed_server_vars \<Rightarrow> string \<Rightarrow> bytes option" where
  "known_field v f = map_of
     [(''remote_addr'', csv_remote_addr v), (''remote_port'', csv_remote_port v),
      (''document_root'', csv_document_root v), (''path_info'', csv_path_info v),
      (''php_self'', csv_php_self v), (''document_uri'', csv_document_uri v),
      (''script_filename'', csv_script_filename v), (''script_name'', csv_script_name v),
      (''server_name'', csv_server_name v), (''server_port'', csv_server_port v),
      (''content_length'', csv_content_length v), (''server_protocol'', csv_server_protocol v),
      (''http_host'', csv_http_host v), (''request_uri'', csv_request_uri v)] f"

fun batch_deref :: "server_vars_batch \<Rightarrow> c_ptr \<Rightarrow> bytes option" where
  "batch_deref b (Known_Buf f) = known_field (svb_known b) f"
| "batch_deref b (Value_Buf i) = (if i < length (svb_values b) then Some (svb_values b ! i) else None)"
| "batch_deref b (Key_Buf i) = (if i < length (svb_keys b) then Some (svb_keys b ! i) else None)"
| "batch_deref b (Interned_Str s) = Some s"
| "batch_deref b (Static_Str s) = Some (s @ [CHR 0x00])"
| "batch_deref b _ = None"

text \<open>What C reads of a pointer and a length: the named bytes of the buffer, none for NULL.\<close>

definition c_read :: "server_vars_batch \<Rightarrow> c_ptr \<times> nat \<Rightarrow> bytes option" where
  "c_read b pl = (case pl of (Null, _) \<Rightarrow> Some [] | (p, n) \<Rightarrow> map_option (take n) (batch_deref b p))"

lemma c_read_buf:
  "batch_deref b p = Some bs \<Longrightarrow> p \<noteq> Null \<Longrightarrow> c_read b (c_buf p bs) = Some bs"
  by (cases p) (auto simp: c_read_def c_buf_def)

end
