(* ===== verification/RequestCtx.thy ===== *)
theory RequestCtx
  imports Headers GoQuote VarsBatch
begin

section \<open>The request and its context: \<^verbatim>\<open>context.rs\<close>\<close>

text \<open>
  The inbound request with its body handle, validation, the completion signal, the arena, the
  response sink's interface and the request context with its closing. The body source and the
  response sink are trait objects: their state is a type parameter, their methods an argument
  (the reader) or a record of functions (the sink), as in a vtable.
\<close>

subsection \<open>Reading the body\<close>

datatype io_error_kind = Interrupted | Other_Error

text \<open>
  One \<^verbatim>\<open>Read::read\<close> call takes the slice to fill and gives the outcome, the slice afterwards
  and the source afterwards.
\<close>

type_synonym 's read_fn = "'s \<Rightarrow> bytes \<Rightarrow> (io_error_kind + nat) \<times> bytes \<times> 's"

datatype 's request_body = Request_Body "'s option"

definition body_new :: "'s \<Rightarrow> 's request_body" where
  "body_new source = Request_Body (Some source)"

definition body_empty :: "'s request_body" where
  "body_empty = Request_Body None"

text \<open>The loop may wait for ever on a source that is always interrupted: then it has no value.\<close>

partial_function (option) fill_loop ::
  "('s \<Rightarrow> bytes \<Rightarrow> (io_error_kind + nat) \<times> bytes \<times> 's) \<Rightarrow> bytes \<Rightarrow> nat \<Rightarrow> 's \<Rightarrow> (nat \<times> bytes \<times> 's) option"
where
  "fill_loop read buf filled source =
     (if filled < length buf then
        (let remaining = length buf - filled;
             (res, slice, source') = read source (drop filled buf);
             buf' = take filled buf @ slice
         in case res of
              Inr n \<Rightarrow> (if n = 0 then Some (filled, buf', source')
                        else fill_loop read buf' (filled + min n remaining) source')
            | Inl Interrupted \<Rightarrow> fill_loop read buf' filled source'
            | Inl Other_Error \<Rightarrow> Some (filled, buf', source'))
      else Some (filled, buf, source))"

definition body_fill ::
  "'s read_fn \<Rightarrow> 's request_body \<Rightarrow> bytes \<Rightarrow> (nat \<times> bytes \<times> 's request_body) option"
where
  "body_fill read body buf =
     (case body of
        Request_Body None \<Rightarrow> Some (0, buf, body)
      | Request_Body (Some source) \<Rightarrow>
          map_option (\<lambda>(n, buf', source'). (n, buf', Request_Body (Some source')))
            (fill_loop read buf 0 source))"

text \<open>
  Whatever a source answers, \<^verbatim>\<open>fill\<close> never reports more bytes than the buffer has: the count
  is clamped even when a source over-reports. Slices keep their length by their type.
\<close>

lemma fill_loop_bounds_aux:
  "fill_loop read buf filled s = Some r \<Longrightarrow>
   (\<forall>s b. length (fst (snd (read s b))) = length b) \<Longrightarrow> filled \<le> length buf \<Longrightarrow>
   filled \<le> fst r \<and> fst r \<le> length buf \<and> length (fst (snd r)) = length buf"
proof (induction read buf filled s r rule: fill_loop.raw_induct [rotated, consumes 1, case_names step])
  case (step fill_loop read buf filled source r)
  show ?case
  proof (cases "filled < length buf")
    case False
    with step.hyps step.prems show ?thesis by auto
  next
    case True
    obtain res slice source' where rd: "read source (drop filled buf) = (res, slice, source')"
      by (metis prod_cases3)
    have len: "length (take filled buf @ slice) = length buf"
      using step.prems True rd by (metis (no_types, lifting) append_take_drop_id fst_conv length_append snd_conv)
    show ?thesis
    proof (cases res)
      case (Inl e)
      then show ?thesis
        using step.hyps step.prems step.IH [of read "take filled buf @ slice" filled source' r] True rd len
        by (cases e) auto
    next
      case (Inr n)
      let ?f = "filled + min n (length buf - filled)"
      have le: "?f \<le> length buf" using True by simp
      show ?thesis
      proof (cases "n = 0")
        case True
        then show ?thesis using step.hyps \<open>filled < length buf\<close> rd Inr len by (auto simp: Let_def)
      next
        case False
        with step.hyps True rd Inr have "fill_loop read (take filled buf @ slice) ?f source' = Some r"
          by (simp add: Let_def)
        from step.IH [OF this step.prems(1)] le len show ?thesis by linarith
      qed
    qed
  qed
qed

text \<open>
  The contract of a blocking source, as the standard library documents \<^verbatim>\<open>Read\<close>: a read copies the
  next bytes, some of what is left, none only at the end; an interruption changes nothing and
  happens finitely often. \<open>content\<close> is what the source still holds.
\<close>

locale body_source =
  fixes read :: "'s \<Rightarrow> bytes \<Rightarrow> (io_error_kind + nat) \<times> bytes \<times> 's"
    and content :: "'s \<Rightarrow> bytes"
    and retries :: "'s \<Rightarrow> nat"
  assumes read_data: "read s b = (Inr n, b', s') \<Longrightarrow>
      n \<le> length b \<and> n \<le> length (content s) \<and> b' = take n (content s) @ drop n b \<and>
      content s' = drop n (content s) \<and> retries s' \<le> retries s"
    and read_end: "read s b = (Inr 0, b', s') \<Longrightarrow> b \<noteq> [] \<Longrightarrow> content s = []"
    and read_interrupted: "read s b = (Inl Interrupted, b', s') \<Longrightarrow>
      b' = b \<and> content s' = content s \<and> retries s' < retries s"
    and read_no_error: "read s b \<noteq> (Inl Other_Error, b', s')"
begin

lemma fill_loop_total:
  "filled \<le> length buf \<Longrightarrow>
   (let m = min (length buf - filled) (length (content s)) in
    \<exists>s'. fill_loop read buf filled s =
          Some (filled + m, take filled buf @ take m (content s) @ drop (filled + m) buf, s')
       \<and> content s' = drop m (content s))"
proof (induction "retries s + length (content s)" arbitrary: s buf filled rule: less_induct)
  case less
  show ?case
  proof (cases "filled < length buf")
    case False
    with less.prems show ?thesis by (simp add: fill_loop.simps)
  next
    case True
    obtain res slice s1 where rd: "read s (drop filled buf) = (res, slice, s1)"
      by (metis prod_cases3)
    show ?thesis
    proof (cases res)
      case (Inl e)
      with rd read_no_error have "e = Interrupted" by (cases e) auto
      with rd Inl read_interrupted have r: "slice = drop filled buf" "content s1 = content s"
        "retries s1 < retries s" by metis+
      with less.hyps [of s1 filled buf] less.prems Inl rd \<open>e = Interrupted\<close> True show ?thesis
        by (simp add: fill_loop.simps [of read buf filled s])
    next
      case (Inr n)
      with rd read_data have d: "n \<le> length (drop filled buf)" "n \<le> length (content s)"
        "slice = take n (content s) @ drop n (drop filled buf)" "content s1 = drop n (content s)"
        "retries s1 \<le> retries s" by metis+
      show ?thesis
      proof (cases "n = 0")
        case True
        with rd Inr read_end \<open>filled < length buf\<close> have "content s = []" by fastforce
        with d True rd Inr \<open>filled < length buf\<close> show ?thesis
          by (simp add: fill_loop.simps [of read buf filled s])
      next
        case False
        let ?buf = "take filled buf @ slice"
        let ?m = "min (length buf - filled) (length (content s))"
        let ?m1 = "min (length ?buf - (filled + n)) (length (content s1))"
        have len: "length ?buf = length buf" using d \<open>filled < length buf\<close> by simp
        have step: "fill_loop read buf filled s = fill_loop read ?buf (filled + n) s1"
          using rd Inr False d \<open>filled < length buf\<close>
          by (simp add: fill_loop.simps [of read buf filled s] min_absorb1)
        have m: "n + ?m1 = ?m" using d \<open>filled < length buf\<close> by auto
        have "retries s1 + length (content s1) < retries s + length (content s)"
          using d False by (cases "content s") auto
        moreover have "filled + n \<le> length ?buf" using d \<open>filled < length buf\<close> len by simp
        ultimately obtain s' where s': "fill_loop read ?buf (filled + n) s1 =
            Some (filled + n + ?m1, take (filled + n) ?buf @ take ?m1 (content s1)
              @ drop (filled + n + ?m1) ?buf, s')" "content s' = drop ?m1 (content s1)"
          using less.hyps [of s1 "filled + n" ?buf] unfolding Let_def by blast
        have "take (filled + n) ?buf = take filled buf @ take n (content s)"
          using d \<open>filled < length buf\<close> by simp
        moreover have "take n (content s) @ take ?m1 (content s1) = take ?m (content s)"
          unfolding m [symmetric] d(4) by (simp add: take_add)
        moreover have "drop (filled + n + ?m1) ?buf = drop (filled + ?m) buf"
          using d \<open>filled < length buf\<close> unfolding m [symmetric] by (simp add: ac_simps)
        moreover have "drop ?m1 (content s1) = drop ?m (content s)"
          unfolding m [symmetric] d(4) by (simp add: add.commute)
        ultimately show ?thesis using s' step m unfolding Let_def by (metis append.assoc add.assoc)
      qed
    qed
  qed
qed

lemma body_fill_total:
  "let m = min (length buf) (length (content s)) in
   \<exists>s'. body_fill read (Request_Body (Some s)) buf =
          Some (m, take m (content s) @ drop m buf, Request_Body (Some s'))
       \<and> content s' = drop m (content s)"
  using fill_loop_total [of 0 buf s] by (auto simp: body_fill_def Let_def)

end

subsection \<open>The in-memory source the server installs\<close>

text \<open>
  \<^verbatim>\<open>std::io::Cursor\<close> over the collected body, the source \<^verbatim>\<open>build_request\<close> gives every request.
\<close>

record cursor =
  cur_data :: bytes
  cur_pos :: nat

definition cursor_read :: "cursor \<Rightarrow> bytes \<Rightarrow> (io_error_kind + nat) \<times> bytes \<times> cursor" where
  "cursor_read c buf =
     (let rest = drop (min (cur_pos c) (length (cur_data c))) (cur_data c);
          n = min (length rest) (length buf)
      in (Inr n, take n rest @ drop n buf, c\<lparr>cur_pos := cur_pos c + n\<rparr>))"

definition cursor_content :: "cursor \<Rightarrow> bytes" where
  "cursor_content c = drop (cur_pos c) (cur_data c)"

interpretation cur: body_source cursor_read cursor_content "\<lambda>_. 0"
proof (unfold_locales, goal_cases)
  case (1 s b n b' s')
  then show ?case
    by (auto simp: cursor_read_def cursor_content_def Let_def min_def add.commute split: if_splits)
next
  case (2 s b b' s')
  then show ?case
    by (auto simp: cursor_read_def cursor_content_def Let_def min_def split: if_splits)
qed (auto simp: cursor_read_def Let_def)


subsection \<open>The request\<close>

text \<open>
  \<open>req_cancelled\<close> names the shared flag (an \<^verbatim>\<open>Arc<AtomicBool>\<close>) in the host's store: the
  transport and the completion signal may set it while the request is alive.
\<close>

record 's request =
  req_method :: bytes
  req_raw_target :: bytes
  req_path :: bytes
  req_query :: bytes
  req_headers :: headers
  req_content_length :: "64 word"
  req_host :: bytes
  req_remote_addr :: bytes
  req_proto_major :: "16 word"
  req_proto_minor :: "16 word"
  req_cancelled :: nat
  req_body :: "'s request_body"

definition request_new :: "nat \<Rightarrow> bytes \<Rightarrow> bytes \<Rightarrow> 's request" where
  "request_new fresh_flag method path =
     \<lparr>req_method = method, req_raw_target = [], req_path = path, req_query = [],
      req_headers = headers_default, req_content_length = 0, req_host = [], req_remote_addr = [],
      req_proto_major = 1, req_proto_minor = 1, req_cancelled = fresh_flag, req_body = body_empty\<rparr>"

definition with_header :: "'s request \<Rightarrow> bytes \<Rightarrow> bytes \<Rightarrow> 's request" where
  "with_header r name value = r\<lparr>req_headers := headers_insert (req_headers r) name value\<rparr>"

definition with_raw_target :: "'s request \<Rightarrow> bytes \<Rightarrow> 's request" where
  "with_raw_target r raw_target = r\<lparr>req_raw_target := raw_target\<rparr>"

definition with_content_length :: "'s request \<Rightarrow> 64 word \<Rightarrow> 's request" where
  "with_content_length r content_length = r\<lparr>req_content_length := content_length\<rparr>"

definition with_query :: "'s request \<Rightarrow> bytes \<Rightarrow> 's request" where
  "with_query r query = r\<lparr>req_query := query\<rparr>"

definition with_host :: "'s request \<Rightarrow> bytes \<Rightarrow> 's request" where
  "with_host r host = r\<lparr>req_host := host\<rparr>"

definition with_remote_addr :: "'s request \<Rightarrow> bytes \<Rightarrow> 's request" where
  "with_remote_addr r remote_addr = r\<lparr>req_remote_addr := remote_addr\<rparr>"

definition with_proto :: "'s request \<Rightarrow> 16 word \<Rightarrow> 16 word \<Rightarrow> 's request" where
  "with_proto r major minor = r\<lparr>req_proto_major := major, req_proto_minor := minor\<rparr>"

subsection \<open>Validation\<close>

record rejected_request =
  rej_status :: "16 word"
  rej_message :: rstring

definition rejected_request_fmt :: "rejected_request \<Rightarrow> rstring" where
  "rejected_request_fmt r = rej_message r"

text \<open>
  \<^verbatim>\<open>str::parse::<i64>\<close>: an optional sign, at least one digit, nothing else, and no overflow in
  either direction while accumulating.
\<close>

fun parse_digits :: "bool \<Rightarrow> int \<Rightarrow> bytes \<Rightarrow> int option" where
  "parse_digits neg acc [] = Some acc"
| "parse_digits neg acc (b # bs) =
     (if is_ascii_digit b then
        (let d = int (bval b) - 48; v = (if neg then acc * 10 - d else acc * 10 + d)
         in if - (2 ^ 63) \<le> v \<and> v < 2 ^ 63 then parse_digits neg v bs else None)
      else None)"

definition parse_i64 :: "bytes \<Rightarrow> int option" where
  "parse_i64 s =
     (case s of
        [] \<Rightarrow> None
      | c # rest \<Rightarrow>
          if c = CHR ''+'' then (if rest = [] then None else parse_digits False 0 rest)
          else if c = CHR ''-'' then (if rest = [] then None else parse_digits True 0 rest)
          else parse_digits False 0 s)"

definition validate_request :: "'s request \<Rightarrow> rejected_request + unit" where
  "validate_request request =
     (if CHR 0x00 \<in> set (req_path request) then
        Inl \<lparr>rej_status = 400, rej_message = lit ''invalid request path''\<rparr>
      else
        (case headers_get_first (req_headers request) ''Content-Length'' of
           None \<Rightarrow> Inr ()
         | Some content_length \<Rightarrow>
             if content_length \<noteq> [] then
               (let parsed = (case from_utf8 content_length of
                    Utf8_Ok _ \<Rightarrow> parse_i64 content_length | Utf8_Err _ \<Rightarrow> None);
                    reject = Inl \<lparr>rej_status = 400, rej_message =
                      lit ''invalid Content-Length header: '' @
                      (case go_quote content_length of Some q \<Rightarrow> q | None \<Rightarrow> [])\<rparr>
                in case parsed of
                     Some n \<Rightarrow> if 0 \<le> n then Inr () else reject
                   | None \<Rightarrow> reject)
             else Inr ()))"

subsection \<open>The completion signal and the arena\<close>

text \<open>
  What lives on the transport side of a request: the cancellation flags the requests share with
  it, and the waiters that have been released. A completion signal is a closure over it.
\<close>

record host =
  host_flags :: "nat \<Rightarrow> bool"
  host_released :: "nat list"

datatype completion_signal = Completion_Signal "(host \<Rightarrow> host) option"

definition signal_new :: "(host \<Rightarrow> host) \<Rightarrow> completion_signal" where
  "signal_new f = Completion_Signal (Some f)"

definition signal_none :: completion_signal where
  "signal_none = Completion_Signal None"

definition signal_fire :: "completion_signal \<Rightarrow> host \<Rightarrow> completion_signal \<times> host" where
  "signal_fire sig w =
     (case sig of
        Completion_Signal (Some signal) \<Rightarrow> (Completion_Signal None, signal w)
      | Completion_Signal None \<Rightarrow> (Completion_Signal None, w))"

definition signal_debug :: "completion_signal \<Rightarrow> string" where
  "signal_debug sig = (case sig of Completion_Signal o' \<Rightarrow> if o' \<noteq> None then ''pending'' else ''fired'')"

record request_arena =
  arena_buffers :: "bytes list"

definition arena_default :: request_arena where
  "arena_default = \<lparr>arena_buffers = []\<rparr>"

text \<open>The pointer is the boxed buffer's identity: growing the vector moves no buffer.\<close>

definition arena_alloc :: "request_arena \<Rightarrow> bytes \<Rightarrow> c_ptr \<times> request_arena" where
  "arena_alloc arena bs =
     (let buf = bs @ [CHR 0x00]; buffers = arena_buffers arena @ [buf]
      in (Arena_Buf (length buffers - 1), arena\<lparr>arena_buffers := buffers\<rparr>))"

text \<open>Reading a pointer, and reading it as a C string.\<close>

fun arena_deref :: "request_arena \<Rightarrow> c_ptr \<Rightarrow> bytes option" where
  "arena_deref a (Arena_Buf i) =
     (if i < length (arena_buffers a) then Some (arena_buffers a ! i) else None)"
| "arena_deref a (Static_Str s) = Some (s @ [CHR 0x00])"
| "arena_deref a _ = None"

definition c_str :: "bytes \<Rightarrow> bytes" where
  "c_str buf = takeWhile (\<lambda>b. b \<noteq> CHR 0x00) buf"

subsection \<open>The response sink\<close>

datatype flush_error = Not_A_Flusher | Flush_Io

text \<open>
  The trait object's method table. A write gives the number of bytes written or an error, and
  the sink afterwards.
\<close>

record 'k response_sink =
  sink_write :: "'k \<Rightarrow> bytes \<Rightarrow> (unit + nat) \<times> 'k"
  sink_add_header :: "'k \<Rightarrow> bytes \<Rightarrow> bytes \<Rightarrow> 'k"
  sink_clear_headers :: "'k \<Rightarrow> 'k"
  sink_write_status :: "'k \<Rightarrow> 16 word \<Rightarrow> 'k"
  sink_flush :: "'k \<Rightarrow> (flush_error + unit) \<times> 'k"

subsection \<open>The request context\<close>

record ('s, 'k) request_context =
  ctx_document_root :: bytes
  ctx_split_path :: "bytes list option"
  ctx_request :: "'s request option"
  ctx_doc_uri :: bytes
  ctx_path_info :: bytes
  ctx_script_name :: bytes
  ctx_script_filename :: bytes
  ctx_request_uri :: bytes
  ctx_is_done :: bool
  ctx_client_had_closed :: bool
  ctx_response_sink :: "'k option"
  ctx_completion_signal :: completion_signal
  ctx_arena :: request_arena
  ctx_server_vars :: "server_vars_batch option"

definition context_new ::
  "bytes \<Rightarrow> bytes list option \<Rightarrow> 's request option \<Rightarrow> completion_signal \<Rightarrow> ('s, 'k) request_context"
where
  "context_new document_root split_path request completion_signal =
     (let request_uri = (case request of Some r \<Rightarrow> req_raw_target r | None \<Rightarrow> [])
      in \<lparr>ctx_document_root = document_root, ctx_split_path = split_path, ctx_request = request,
          ctx_doc_uri = [], ctx_path_info = [], ctx_script_name = [], ctx_script_filename = [],
          ctx_request_uri = request_uri, ctx_is_done = False, ctx_client_had_closed = False,
          ctx_response_sink = None, ctx_completion_signal = completion_signal,
          ctx_arena = arena_default, ctx_server_vars = None\<rparr>)"

definition context_validate :: "('s, 'k) request_context \<Rightarrow> rejected_request + unit" where
  "context_validate ctx =
     (case ctx_request ctx of Some request \<Rightarrow> validate_request request | None \<Rightarrow> Inr ())"

definition client_has_closed :: "('s, 'k) request_context \<Rightarrow> host \<Rightarrow> bool" where
  "client_has_closed ctx w =
     (case ctx_request ctx of Some request \<Rightarrow> host_flags w (req_cancelled request) | None \<Rightarrow> False)"

definition close_context :: "('s, 'k) request_context \<Rightarrow> host \<Rightarrow> ('s, 'k) request_context \<times> host" where
  "close_context ctx w =
     (if ctx_is_done ctx then (ctx, w)
      else
        (let ctx = ctx\<lparr>ctx_client_had_closed := client_has_closed ctx w\<rparr>;
             (sig, w') = signal_fire (ctx_completion_signal ctx) w
         in (ctx\<lparr>ctx_completion_signal := sig, ctx_is_done := True\<rparr>, w')))"

definition install_server_vars ::
  "('s, 'k) request_context \<Rightarrow> server_vars_batch \<Rightarrow> c_batch \<times> ('s, 'k) request_context"
where
  "install_server_vars ctx batch = (as_c_batch batch, ctx\<lparr>ctx_server_vars := Some batch\<rparr>)"

subsection \<open>Reading a body\<close>

text \<open>However a body source answers, short reads, over-reported counts, interruptions and errors
  included, \<^verbatim>\<open>fill\<close> reports at most the buffer's length, so \<^verbatim>\<open>go_read_post\<close> never tells PHP of
  bytes past its buffer. The hypothesis is that a read leaves its slice's length unchanged, which
  the type of a Rust slice guarantees.\<close>

theorem body_fill_never_overruns:
  assumes "\<And>s b. length (fst (snd (read s b))) = length b"
    and "body_fill read body buf = Some (n, buf', body')"
  shows "n \<le> length buf \<and> length buf' = length buf"
proof (cases body)
  case (Request_Body src)
  show ?thesis
  proof (cases src)
    case None
    with assms Request_Body show ?thesis by (simp add: body_fill_def)
  next
    case (Some s)
    with assms(2) Request_Body obtain s' where "fill_loop read buf 0 s = Some (n, buf', s')"
      by (auto simp: body_fill_def)
    from fill_loop_bounds_aux [OF this] assms(1) show ?thesis by simp
  qed
qed

text \<open>A reader that claims 100 bytes of a two-byte slice: the count is clamped to two.\<close>

theorem body_fill_never_overruns_witness:
  "body_fill (\<lambda>(s :: nat) b. (Inr 100, b, s)) (Request_Body (Some 0)) ''ab'' =
     Some (2, ''ab'', Request_Body (Some 0)) \<and> (2 :: nat) \<le> length ''ab''"
proof -
  have "body_fill (\<lambda>(s :: nat) b. (Inr 100, b, s)) (Request_Body (Some 0)) ''ab'' =
     Some (2, ''ab'', Request_Body (Some 0))"
    by (simp add: body_fill_def fill_loop.simps)
  with body_fill_never_overruns [OF _ this] show ?thesis by simp
qed

text \<open>Reading the body the server installs returns and fills the buffer as far as the body goes:
  the bytes are the next ones of the body, the rest of the buffer is untouched, and the count is
  short only when the body is exhausted.\<close>

theorem cursor_body_fill_exact:
  "let m = min (length buf) (length (cursor_content c)) in
   \<exists>c'. body_fill cursor_read (body_new c) buf =
          Some (m, take m (cursor_content c) @ drop m buf, body_new c')
       \<and> cursor_content c' = drop m (cursor_content c)"
  unfolding body_new_def by (rule cur.body_fill_total)

subsection \<open>What is a valid request\<close>

definition dec_value :: "int \<Rightarrow> bytes \<Rightarrow> int" where
  "dec_value acc bs = foldl (\<lambda>a b. a * 10 + (int (bval b) - 48)) acc bs"

lemma dec_value_simps [simp]:
  "dec_value acc [] = acc"
  "dec_value acc (b # bs) = dec_value (acc * 10 + (int (bval b) - 48)) bs"
  by (simp_all add: dec_value_def)

lemma dec_value_ge: "list_all is_ascii_digit bs \<Longrightarrow> 0 \<le> acc \<Longrightarrow> acc \<le> dec_value acc bs"
proof (induction bs arbitrary: acc)
  case (Cons b bs)
  then have "0 \<le> int (bval b) - 48" by (simp add: is_ascii_digit_def)
  with Cons.prems have "acc \<le> acc * 10 + (int (bval b) - 48)" by linarith
  also have "\<dots> \<le> dec_value (acc * 10 + (int (bval b) - 48)) bs"
    using Cons calculation by simp
  finally show ?case by simp
qed simp

lemma parse_digits_pos:
  "0 \<le> acc \<Longrightarrow> acc < 2 ^ 63 \<Longrightarrow>
   parse_digits False acc bs =
     (if list_all is_ascii_digit bs \<and> dec_value acc bs < 2 ^ 63 then Some (dec_value acc bs) else None)"
proof (induction bs arbitrary: acc)
  case (Cons b bs)
  show ?case
  proof (cases "is_ascii_digit b")
    case True
    let ?v = "acc * 10 + (int (bval b) - 48)"
    have v: "0 \<le> ?v" using True Cons.prems by (simp add: is_ascii_digit_def)
    show ?thesis
    proof (cases "?v < 2 ^ 63")
      case lt: True
      with Cons.IH [OF v] True v show ?thesis by (simp add: Let_def)
    next
      case False
      with dec_value_ge [OF _ v, of bs] True v show ?thesis by (auto simp: Let_def)
    qed
  qed simp
qed simp

lemma parse_digits_neg:
  "0 \<le> acc \<Longrightarrow> acc \<le> 2 ^ 63 \<Longrightarrow>
   parse_digits True (- acc) bs =
     (if list_all is_ascii_digit bs \<and> dec_value acc bs \<le> 2 ^ 63 then Some (- dec_value acc bs) else None)"
proof (induction bs arbitrary: acc)
  case (Cons b bs)
  show ?case
  proof (cases "is_ascii_digit b")
    case True
    let ?v = "acc * 10 + (int (bval b) - 48)"
    have v: "0 \<le> ?v" using True Cons.prems by (simp add: is_ascii_digit_def)
    have eq: "(- acc) * 10 - (int (bval b) - 48) = - ?v" by simp
    show ?thesis
    proof (cases "?v \<le> 2 ^ 63")
      case le: True
      with Cons.IH [OF v] True v show ?thesis
        unfolding parse_digits.simps Let_def eq if_True by simp
    next
      case False
      with dec_value_ge [OF _ v, of bs] True v show ?thesis
        unfolding parse_digits.simps Let_def eq if_True by auto
    qed
  qed simp
qed simp

text \<open>The documented grammar of an acceptable \<^verbatim>\<open>Content-Length\<close>.\<close>

definition content_length_ok :: "bytes \<Rightarrow> bool" where
  "content_length_ok v =
     (v = [] \<or>
      (let ds = (if hd v = CHR ''+'' \<or> hd v = CHR ''-'' then tl v else v)
       in ds \<noteq> [] \<and> list_all is_ascii_digit ds \<and> dec_value 0 ds < 2 ^ 63 \<and>
          (hd v \<noteq> CHR ''-'' \<or> dec_value 0 ds = 0)))"

lemma sign_not_digit: "\<not> is_ascii_digit CHR ''+''" "\<not> is_ascii_digit CHR ''-''"
  by (simp_all add: is_ascii_digit_def)

lemma parse_i64_ok:
  assumes "v \<noteq> []"
  shows "(case parse_i64 v of Some n \<Rightarrow> 0 \<le> n | None \<Rightarrow> False) \<longleftrightarrow> content_length_ok v"
proof -
  obtain c rest where v: "v = c # rest" using assms by (cases v) auto
  have pos: "parse_digits False 0 bs = (if list_all is_ascii_digit bs \<and> dec_value 0 bs < 2 ^ 63
      then Some (dec_value 0 bs) else None)" for bs by (simp add: parse_digits_pos)
  have neg: "parse_digits True 0 bs = (if list_all is_ascii_digit bs \<and> dec_value 0 bs \<le> 2 ^ 63
      then Some (- dec_value 0 bs) else None)" for bs using parse_digits_neg [of 0 bs] by simp
  have ge: "list_all is_ascii_digit bs \<Longrightarrow> 0 \<le> dec_value 0 bs" for bs
    by (rule dec_value_ge) simp_all
  consider "c = CHR ''+''" | "c = CHR ''-''" | "c \<noteq> CHR ''+''" "c \<noteq> CHR ''-''" by blast
  then show ?thesis
    by cases (use ge [of rest] ge [of v] in
      \<open>auto simp: v parse_i64_def pos neg content_length_ok_def Let_def split: if_splits
        simp del: dec_value_simps parse_digits.simps\<close>)
qed

lemma content_length_ok_ascii: "content_length_ok v \<Longrightarrow> list_all is_ascii v"
proof (cases v)
  case (Cons c rest)
  assume "content_length_ok v"
  with Cons have "list_all is_ascii_digit rest \<or> list_all is_ascii_digit v"
    and "c = CHR ''+'' \<or> c = CHR ''-'' \<or> list_all is_ascii_digit v"
    by (auto simp: content_length_ok_def Let_def split: if_splits)
  moreover have "is_ascii CHR ''+''" "is_ascii CHR ''-''" by (simp_all add: is_ascii_def)
  ultimately show ?thesis using digits_ascii [of rest] digits_ascii [of v] Cons by auto
qed simp

text \<open>C29. \<^verbatim>\<open>validate_request\<close> decides exactly the documented grammar: a path with a NUL byte is rejected
  first; a missing or empty first \<^verbatim>\<open>Content-Length\<close> is accepted; otherwise it must be an optional
  sign and digits denoting a value from 0 to the largest 64-bit signed integer, and the rejection's
  message quotes the raw value, whatever bytes it has.\<close>

theorem validate_request_grammar:
  "validate_request r =
     (if CHR 0x00 \<in> set (req_path r) then
        Inl \<lparr>rej_status = 400, rej_message = lit ''invalid request path''\<rparr>
      else case headers_get_first (req_headers r) ''Content-Length'' of
        None \<Rightarrow> Inr ()
      | Some v \<Rightarrow>
          if content_length_ok v then Inr ()
          else Inl \<lparr>rej_status = 400, rej_message =
                 lit ''invalid Content-Length header: '' @ the (go_quote v)\<rparr>)"
proof (cases "headers_get_first (req_headers r) ''Content-Length''")
  case (Some v)
  have q: "\<exists>q. go_quote v = Some q" using go_quote_loop_correct [of v] by (auto simp: go_quote_def)
  show ?thesis
  proof (cases "v = []")
    case False
    then have ok: "content_length_ok v \<longleftrightarrow> (case parse_i64 v of Some n \<Rightarrow> 0 \<le> n | None \<Rightarrow> False)"
      by (simp add: parse_i64_ok)
    have "content_length_ok v \<Longrightarrow> \<exists>cs. from_utf8 v = Utf8_Ok cs"
      using content_length_ok_ascii from_utf8_ascii by blast
    with False ok q Some show ?thesis
      by (auto simp: validate_request_def Let_def split: option.splits utf8_result.splits)
  qed (use Some in \<open>simp add: validate_request_def content_length_ok_def\<close>)
qed (simp add: validate_request_def)

subsection \<open>Closing and the arena\<close>

text \<open>Closing a context records the client's connection state as it was before the completion
  signal ran, whatever the signal does to it, runs the signal once, marks the context done and keeps
  the arena; closing it again changes nothing and runs nothing.\<close>

theorem close_context_once:
  "(let (c1, w1) = close_context ctx w; (c2, w2) = close_context c1 w1 in
    c2 = c1 \<and> w2 = w1 \<and> ctx_is_done c1 \<and> ctx_arena c1 = ctx_arena ctx \<and>
    ctx_server_vars c1 = ctx_server_vars ctx \<and>
    (if ctx_is_done ctx then c1 = ctx \<and> w1 = w
     else ctx_client_had_closed c1 = client_has_closed ctx w \<and>
          w1 = (case ctx_completion_signal ctx of
                  Completion_Signal (Some f) \<Rightarrow> f w | Completion_Signal None \<Rightarrow> w)))"
  by (auto simp: close_context_def signal_fire_def Let_def split: completion_signal.splits option.splits)

lemma arena_alloc_deref:
  "arena_alloc a bs = (p, a') \<Longrightarrow> arena_deref a' p = Some (bs @ [CHR 0x00]) \<and>
     arena_buffers a' = arena_buffers a @ [bs @ [CHR 0x00]]"
  by (auto simp: arena_alloc_def Let_def)

lemma arena_deref_mono:
  "arena_buffers a' = arena_buffers a @ extra \<Longrightarrow> arena_deref a p = Some bs \<Longrightarrow> arena_deref a' p = Some bs"
  by (cases "(a, p)" rule: arena_deref.cases) (auto simp: nth_append split: if_splits)

lemma arena_allocs_append:
  "\<exists>extra. arena_buffers (foldl (\<lambda>a bs. snd (arena_alloc a bs)) a bss) = arena_buffers a @ extra"
proof (induction bss arbitrary: a)
  case (Cons bs bss)
  obtain p a' where a': "arena_alloc a bs = (p, a')" by fastforce
  with arena_alloc_deref Cons [of a'] show ?case by fastforce
qed simp

text \<open>An arena extends another when it was reached from it by allocations only.\<close>

definition arena_extends :: "request_arena \<Rightarrow> request_arena \<Rightarrow> bool" where
  "arena_extends a a' = (\<exists>extra. arena_buffers a' = arena_buffers a @ extra)"

lemma arena_extends_refl [simp]: "arena_extends a a"
  by (simp add: arena_extends_def)

lemma arena_extends_trans: "arena_extends a b \<Longrightarrow> arena_extends b c \<Longrightarrow> arena_extends a c"
  by (auto simp: arena_extends_def)

lemma arena_extends_deref: "arena_extends a a' \<Longrightarrow> arena_deref a p = Some bs \<Longrightarrow> arena_deref a' p = Some bs"
  by (auto simp: arena_extends_def intro: arena_deref_mono)

lemma arena_alloc_extends: "arena_alloc a bs = (p, a') \<Longrightarrow>
    arena_extends a a' \<and> arena_deref a' p = Some (bs @ [CHR 0x00])"
  using arena_alloc_deref [of a bs p a'] by (auto simp: arena_extends_def)

text \<open>A pointer the arena handed out stays valid: after any later allocations it still reads the
  copied bytes and their terminating NUL, and as a C string the bytes up to the first NUL.\<close>

theorem arena_pointers_stable:
  "(let (p, a1) = arena_alloc a bs;
        a2 = foldl (\<lambda>a bs. snd (arena_alloc a bs)) a1 later
    in arena_deref a2 p = Some (bs @ [CHR 0x00]) \<and>
       map_option c_str (arena_deref a2 p) = Some (takeWhile (\<lambda>b. b \<noteq> CHR 0x00) bs) \<and>
       arena_deref a p = None)"
proof -
  obtain p a1 where a1: "arena_alloc a bs = (p, a1)" by fastforce
  obtain extra where "arena_buffers (foldl (\<lambda>a bs. snd (arena_alloc a bs)) a1 later) = arena_buffers a1 @ extra"
    using arena_allocs_append by blast
  from arena_deref_mono [OF this] arena_alloc_deref [OF a1]
  have "arena_deref (foldl (\<lambda>a bs. snd (arena_alloc a bs)) a1 later) p = Some (bs @ [CHR 0x00])" by blast
  moreover have "arena_deref a p = None" using a1 by (auto simp: arena_alloc_def Let_def)
  moreover have "c_str (bs @ [CHR 0x00]) = takeWhile (\<lambda>b. b \<noteq> CHR 0x00) bs"
    by (simp add: c_str_def takeWhile_tail)
  ultimately show ?thesis using a1 by simp
qed

end
