(* ===== verification/ContextSlots.thy ===== *)
theory ContextSlots
  imports RequestCtx
begin

section \<open>The per-thread context table: \<^verbatim>\<open>ContextSlots\<close> of \<^verbatim>\<open>context.rs\<close>\<close>

text \<open>
  The table of slots, the thread-local flag of \<^verbatim>\<open>SingleSlotGuard\<close> and the four entry points, for
  one calling thread: a closure is a function of the slot's content and of the state, so that a
  closure that re-enters the table is a value like any other. A panic is an error value; it
  unwinds through the guard, which lowers the flag. The step relation at the end is the view of
  all threads, with the slot mutexes.
\<close>

datatype slot_error = Nested_Slot_Lock | Closure_Panic

record 'c slot_state =
  slots :: "'c option list"
  holding_slot_lock :: bool

definition slots_new :: "'c slot_state" where
  "slots_new = \<lparr>slots = [], holding_slot_lock = False\<rparr>"

text \<open>The assertion of \<^verbatim>\<open>acquire\<close> on the thread's own flag: it panics, or raises the flag.\<close>

definition single_slot_guard :: "bool \<Rightarrow> slot_error + bool" where
  "single_slot_guard held = (if held then Inl Nested_Slot_Lock else Inr True)"

definition guard_acquire :: "'c slot_state \<Rightarrow> slot_error + 'c slot_state" where
  "guard_acquire s =
     (case single_slot_guard (holding_slot_lock s) of
        Inl e \<Rightarrow> Inl e
      | Inr held \<Rightarrow> Inr (s\<lparr>holding_slot_lock := held\<rparr>))"

definition guard_drop :: "'c slot_state \<Rightarrow> 'c slot_state" where
  "guard_drop s = s\<lparr>holding_slot_lock := False\<rparr>"

function grow_slots :: "nat \<Rightarrow> 'c option list \<Rightarrow> 'c option list" where
  "grow_slots thread_index xs =
     (if length xs \<le> thread_index then grow_slots thread_index (xs @ [None]) else xs)"
  by pat_completeness auto
termination by (relation "measure (\<lambda>(i, xs). Suc i - length xs)") auto

declare grow_slots.simps [simp del]

text \<open>\<^verbatim>\<open>slot\<close>: the fast path finds the slot, the slow path grows the table up to it.\<close>

definition find_slot :: "nat \<Rightarrow> 'c slot_state \<Rightarrow> 'c slot_state" where
  "find_slot thread_index s =
     (if thread_index < length (slots s) then s
      else s\<lparr>slots := grow_slots thread_index (slots s)\<rparr>)"

definition slots_set :: "nat \<Rightarrow> 'c \<Rightarrow> 'c slot_state \<Rightarrow> (slot_error + unit) \<times> 'c slot_state" where
  "slots_set thread_index ctx s =
     (case guard_acquire s of
        Inl e \<Rightarrow> (Inl e, s)
      | Inr s \<Rightarrow>
          (let s = find_slot thread_index s
           in (Inr (), guard_drop (s\<lparr>slots := (slots s)[thread_index := Some ctx]\<rparr>))))"

definition slots_clear :: "nat \<Rightarrow> 'c slot_state \<Rightarrow> (slot_error + unit) \<times> 'c slot_state" where
  "slots_clear thread_index s =
     (case guard_acquire s of
        Inl e \<Rightarrow> (Inl e, s)
      | Inr s \<Rightarrow>
          (let s = find_slot thread_index s
           in (Inr (), guard_drop (s\<lparr>slots := (slots s)[thread_index := None]\<rparr>))))"

text \<open>A closure gives its result or panics; the table it leaves behind is what it did to it.\<close>

definition slots_with_context ::
  "nat \<Rightarrow> ('c option \<Rightarrow> 'c slot_state \<Rightarrow> (slot_error + 'r) \<times> 'c slot_state) \<Rightarrow> 'c slot_state \<Rightarrow>
   (slot_error + 'r) \<times> 'c slot_state"
where
  "slots_with_context thread_index f s =
     (case guard_acquire s of
        Inl e \<Rightarrow> (Inl e, s)
      | Inr s \<Rightarrow>
          (let s = find_slot thread_index s;
               (res, s) = f (slots s ! thread_index) s
           in (res, guard_drop s)))"

text \<open>The mutable closure also gives the slot's content afterwards: None stays None, Some stays Some.\<close>

definition slots_with_context_mut ::
  "nat \<Rightarrow> ('c option \<Rightarrow> 'c slot_state \<Rightarrow> ((slot_error + 'r) \<times> 'c option) \<times> 'c slot_state) \<Rightarrow>
   'c slot_state \<Rightarrow> (slot_error + 'r) \<times> 'c slot_state"
where
  "slots_with_context_mut thread_index f s =
     (case guard_acquire s of
        Inl e \<Rightarrow> (Inl e, s)
      | Inr s \<Rightarrow>
          (let s = find_slot thread_index s;
               ((res, ctx), s) = f (slots s ! thread_index) s
           in (res, guard_drop (s\<lparr>slots := (slots s)[thread_index := ctx]\<rparr>))))"

declare single_slot_guard_def [simp]

subsection \<open>The table is a map from thread indices to contexts\<close>

definition slots_abs :: "'c slot_state \<Rightarrow> nat \<Rightarrow> 'c option" where
  "slots_abs s i = (if i < length (slots s) then slots s ! i else None)"

lemma grow_slots_eq: "grow_slots i xs = xs @ replicate (Suc i - length xs) None"
proof (induction i xs rule: grow_slots.induct)
  case (1 i xs)
  show ?case
  proof (cases "length xs \<le> i")
    case True
    then have "Suc i - length xs = Suc (Suc i - length (xs @ [None]))" by simp
    with True 1 show ?thesis by (simp add: grow_slots.simps [of i xs] del: Suc_diff_le)
  next
    case False
    then show ?thesis by (simp add: grow_slots.simps [of i xs])
  qed
qed

lemma find_slot_length [simp]: "i < length (slots (find_slot i s))"
  by (simp add: find_slot_def grow_slots_eq)

lemma find_slot_holding [simp]: "holding_slot_lock (find_slot i s) = holding_slot_lock s"
  by (simp add: find_slot_def)

lemma find_slot_abs [simp]: "slots_abs (find_slot i s) = slots_abs s"
  by (rule ext) (auto simp: slots_abs_def find_slot_def grow_slots_eq nth_append)

lemma find_slot_nth [simp]: "slots (find_slot i s) ! i = slots_abs s i"
  using find_slot_abs [of i s] find_slot_length [of i s] by (metis slots_abs_def)

lemma slots_abs_update [simp]:
  "i < length (slots s) \<Longrightarrow> slots_abs (s\<lparr>slots := (slots s)[i := c]\<rparr>) = (slots_abs s)(i := c)"
  by (rule ext) (auto simp: slots_abs_def)

lemma guard_drop_simps [simp]:
  "slots_abs (guard_drop s) = slots_abs s" "holding_slot_lock (guard_drop s) = False"
  by (simp_all add: guard_drop_def slots_abs_def fun_eq_iff)

lemma guard_set_abs [simp]: "slots_abs (s\<lparr>holding_slot_lock := b\<rparr>) = slots_abs s"
  by (simp add: slots_abs_def fun_eq_iff)

text \<open>A closure that keeps to the rules: it does its own work and leaves the table alone.\<close>

definition pure_closure ::
  "('c option \<Rightarrow> (slot_error + 'r) \<times> 'c option) \<Rightarrow>
   'c option \<Rightarrow> 'c slot_state \<Rightarrow> ((slot_error + 'r) \<times> 'c option) \<times> 'c slot_state"
where
  "pure_closure g c s = (g c, s)"

text \<open>A closure for the shared accessor, which cannot change the slot.\<close>

definition read_closure ::
  "('c option \<Rightarrow> slot_error + 'r) \<Rightarrow> 'c option \<Rightarrow> 'c slot_state \<Rightarrow> (slot_error + 'r) \<times> 'c slot_state"
where
  "read_closure g c s = (g c, s)"

lemma with_context_mut_pure:
  assumes "\<not> holding_slot_lock s"
  obtains s' where "slots_with_context_mut i (pure_closure g) s = (fst (g (slots_abs s i)), s')"
    "slots_abs s' = (slots_abs s)(i := snd (g (slots_abs s i)))" "\<not> holding_slot_lock s'"
  using assms that
  by (simp add: slots_with_context_mut_def guard_acquire_def pure_closure_def Let_def split_def)

lemma with_context_read:
  assumes "\<not> holding_slot_lock s"
  obtains s' where "slots_with_context i (read_closure g) s = (g (slots_abs s i), s')"
    "slots_abs s' = slots_abs s" "\<not> holding_slot_lock s'"
  using assms that
  by (simp add: slots_with_context_def guard_acquire_def read_closure_def Let_def split_def)

text \<open>On a thread that holds no slot lock, the table behaves as a map from thread indices to
  contexts, however it has grown: \<^verbatim>\<open>set\<close> and \<^verbatim>\<open>clear\<close> update one index and no other, a closure sees
  exactly that index's context and \<^verbatim>\<open>with_context_mut\<close> stores what it leaves there, even when it
  panics; and every entry point gives the lock up again.\<close>

theorem slots_refine_map:
  fixes s :: "'c slot_state" and ctx :: 'c and g :: "'c option \<Rightarrow> (slot_error + 'r) \<times> 'c option"
  assumes "\<not> holding_slot_lock s"
  shows "slots_set i ctx s = (Inr (), snd (slots_set i ctx s)) \<and>
      slots_abs (snd (slots_set i ctx s)) = (slots_abs s)(i \<mapsto> ctx) \<and>
      slots_clear i s = (Inr (), snd (slots_clear i s)) \<and>
      slots_abs (snd (slots_clear i s)) = (slots_abs s)(i := None) \<and>
      fst (slots_with_context_mut i (pure_closure g) s) = fst (g (slots_abs s i)) \<and>
      slots_abs (snd (slots_with_context_mut i (pure_closure g) s))
        = (slots_abs s)(i := snd (g (slots_abs s i))) \<and>
      \<not> holding_slot_lock (snd (slots_set i ctx s)) \<and> \<not> holding_slot_lock (snd (slots_clear i s)) \<and>
      \<not> holding_slot_lock (snd (slots_with_context_mut i (pure_closure g) s))"
  using assms
  by (simp add: slots_set_def slots_clear_def slots_with_context_mut_def guard_acquire_def
      pure_closure_def Let_def split_def)

text \<open>A fresh table: setting index 2 grows it to three slots, the closure reads the value back.\<close>

theorem slots_refine_map_witness:
  "\<not> holding_slot_lock (slots_new :: nat slot_state) \<and>
   slots_abs (snd (slots_set 2 (7 :: nat) slots_new)) = (slots_abs slots_new)(2 \<mapsto> 7)"
proof -
  have h: "\<not> holding_slot_lock (slots_new :: nat slot_state)" by (simp add: slots_new_def)
  from slots_refine_map [OF h, of 2 7 "\<lambda>c. (Inr (), c)"] h show ?thesis by blast
qed

text \<open>A closure that re-enters the table panics before it touches any slot, for its own index or
  another: whichever of the four entry points it calls, on whatever index, the call fails with the
  table and the flag as they were, so no thread ever waits for a slot while it holds one.\<close>

theorem nested_entry_panics:
  assumes "holding_slot_lock s"
  shows "slots_set j ctx s = (Inl Nested_Slot_Lock, s) \<and>
     slots_clear j s = (Inl Nested_Slot_Lock, s) \<and>
     slots_with_context j f s = (Inl Nested_Slot_Lock, s) \<and>
     slots_with_context_mut j f' s = (Inl Nested_Slot_Lock, s)"
  using assms
  by (simp add: slots_set_def slots_clear_def slots_with_context_def slots_with_context_mut_def
      guard_acquire_def)

text \<open>Inside a closure on index 0, setting index 1 panics and the table is as it was.\<close>

theorem nested_entry_panics_witness:
  "fst (slots_with_context 0 (\<lambda>c s. slots_set 1 (5 :: nat) s) slots_new) = Inl Nested_Slot_Lock"
proof -
  let ?s = "find_slot 0 ((slots_new :: nat slot_state)\<lparr>holding_slot_lock := True\<rparr>)"
  have "holding_slot_lock ?s" by simp
  from nested_entry_panics [OF this] have "slots_set 1 (5 :: nat) ?s = (Inl Nested_Slot_Lock, ?s)"
    by blast
  then show ?thesis
    by (simp add: slots_with_context_def guard_acquire_def slots_new_def)
qed

subsection \<open>All threads: no deadlock on the slots\<close>

text \<open>
  A thread has its flag, the slot mutexes it holds, those of the innermost closure first, and the
  mutex it waits for. A running thread, inside closures or not, may call an entry point on any
  index at any time: the guard comes first, and only what it lets through goes on to the mutex.
  What it refuses panics, as a closure may of itself, and the panic unwinds any number of the
  enclosing entry points before something catches it; each lets its mutex go and lowers the flag.
\<close>

record slot_thread =
  th_holding :: bool
  th_locked :: "nat list"
  th_wanted :: "nat option"

record slot_system =
  lock_threads :: "nat \<Rightarrow> slot_thread"
  owner :: "nat \<Rightarrow> nat option"

definition slot_start :: slot_system where
  "slot_start = \<lparr>lock_threads = (\<lambda>_. \<lparr>th_holding = False, th_locked = [], th_wanted = None\<rparr>), owner = (\<lambda>_. None)\<rparr>"

definition enter_slot :: "nat \<Rightarrow> nat \<Rightarrow> bool \<Rightarrow> slot_system \<Rightarrow> slot_system" where
  "enter_slot t i held s =
     s\<lparr>lock_threads := (lock_threads s)(t := (lock_threads s t)\<lparr>th_holding := held, th_wanted := Some i\<rparr>)\<rparr>"

definition lock_slot :: "nat \<Rightarrow> nat \<Rightarrow> slot_system \<Rightarrow> slot_system" where
  "lock_slot t i s =
     s\<lparr>lock_threads := (lock_threads s)(t := (lock_threads s t)\<lparr>th_locked := i # th_locked (lock_threads s t), th_wanted := None\<rparr>),
       owner := (owner s)(i \<mapsto> t)\<rparr>"

definition leave_slot :: "nat \<Rightarrow> slot_system \<Rightarrow> slot_system" where
  "leave_slot t s =
     (case th_locked (lock_threads s t) of
        [] \<Rightarrow> s
      | i # rest \<Rightarrow> s\<lparr>lock_threads := (lock_threads s)(t := (lock_threads s t)\<lparr>th_holding := False, th_locked := rest\<rparr>),
                      owner := (owner s)(i := None)\<rparr>)"

primrec unwind :: "nat \<Rightarrow> nat \<Rightarrow> slot_system \<Rightarrow> slot_system" where
  "unwind t 0 s = s"
| "unwind t (Suc k) s = unwind t k (leave_slot t s)"

inductive slot_step :: "nat \<Rightarrow> slot_system \<Rightarrow> slot_system \<Rightarrow> bool" for t where
  enter: "th_wanted (lock_threads s t) = None \<Longrightarrow> single_slot_guard (th_holding (lock_threads s t)) = Inr held \<Longrightarrow>
    slot_step t s (enter_slot t i held s)"
| nested: "th_wanted (lock_threads s t) = None \<Longrightarrow> single_slot_guard (th_holding (lock_threads s t)) = Inl e \<Longrightarrow>
    slot_step t s (unwind t k s)"
| lock: "th_wanted (lock_threads s t) = Some i \<Longrightarrow> owner s i = None \<Longrightarrow> slot_step t s (lock_slot t i s)"
| leave: "th_wanted (lock_threads s t) = None \<Longrightarrow> th_locked (lock_threads s t) \<noteq> [] \<Longrightarrow> slot_step t s (leave_slot t s)"
| closure_panics: "th_wanted (lock_threads s t) = None \<Longrightarrow> slot_step t s (unwind t k s)"

inductive slot_reachable :: "slot_system \<Rightarrow> bool" where
  init: "slot_reachable slot_start"
| step: "slot_reachable s \<Longrightarrow> slot_step t s s' \<Longrightarrow> slot_reachable s'"

text \<open>A set of threads each of which waits for a slot that another of them holds.\<close>

definition deadlocked :: "nat set \<Rightarrow> slot_system \<Rightarrow> bool" where
  "deadlocked T s = (T \<noteq> {} \<and> (\<forall>t \<in> T. \<exists>i u. th_wanted (lock_threads s t) = Some i \<and> owner s i = Some u \<and> u \<in> T))"

text \<open>What the guard keeps: the flag is up from the entry to the exit, and there is one entry at a time.\<close>

definition guarded :: "slot_thread \<Rightarrow> bool" where
  "guarded th =
     (th_holding th = (th_locked th \<noteq> [] \<or> th_wanted th \<noteq> None) \<and>
      length (th_locked th) + (if th_wanted th = None then 0 else 1) \<le> 1)"

definition slots_guarded :: "slot_system \<Rightarrow> bool" where
  "slots_guarded s =
     ((\<forall>t. guarded (lock_threads s t)) \<and> (\<forall>i t. owner s i = Some t \<longleftrightarrow> i \<in> set (th_locked (lock_threads s t))))"

lemma guardedD: "slots_guarded s \<Longrightarrow> guarded (lock_threads s t)"
  by (simp add: slots_guarded_def)

lemma leave_slot_guarded:
  assumes inv: "slots_guarded s" and w: "th_wanted (lock_threads s t) = None"
  shows "slots_guarded (leave_slot t s)" "th_wanted (lock_threads (leave_slot t s) t) = None"
proof -
  show "th_wanted (lock_threads (leave_slot t s) t) = None"
    using w by (simp add: leave_slot_def split: list.splits)
  show "slots_guarded (leave_slot t s)"
  proof (cases "th_locked (lock_threads s t)")
    case Nil
    with inv show ?thesis by (simp add: leave_slot_def)
  next
    case (Cons i rest)
    with w guardedD [OF inv, of t] have "rest = []" by (simp add: guarded_def)
    moreover have own: "owner s j = Some u \<longleftrightarrow> j \<in> set (th_locked (lock_threads s u))" for j u
      using inv by (simp add: slots_guarded_def)
    moreover have "i \<notin> set (th_locked (lock_threads s u))" if "u \<noteq> t" for u
      using own [of i t] own [of i u] Cons that by auto
    moreover have "guarded ((lock_threads s t)\<lparr>th_holding := False, th_locked := []\<rparr>)"
      using w by (simp add: guarded_def)
    ultimately show ?thesis
      using Cons guardedD [OF inv] by (auto simp: slots_guarded_def leave_slot_def)
  qed
qed

lemma unwind_guarded:
  "slots_guarded s \<Longrightarrow> th_wanted (lock_threads s t) = None \<Longrightarrow> slots_guarded (unwind t k s)"
proof (induction k arbitrary: s)
  case (Suc k)
  show ?case using Suc.IH [OF leave_slot_guarded [OF Suc.prems]] by simp
qed simp

lemma slot_step_guarded: "slot_step t s s' \<Longrightarrow> slots_guarded s \<Longrightarrow> slots_guarded s'"
proof (induction rule: slot_step.induct)
  case (enter s held i)
  with guardedD [OF enter(3), of t] have "guarded ((lock_threads s t)\<lparr>th_holding := held, th_wanted := Some i\<rparr>)"
    by (auto simp: guarded_def split: if_splits)
  with enter(3) show ?case by (auto simp: slots_guarded_def enter_slot_def)
next
  case (lock s i)
  with guardedD [OF lock(3), of t] have none: "th_locked (lock_threads s t) = []" by (simp add: guarded_def)
  moreover have "i \<notin> set (th_locked (lock_threads s u))" for u
    using lock by (auto simp: slots_guarded_def dest: spec [of _ i])
  moreover have "guarded ((lock_threads s t)\<lparr>th_locked := [i], th_wanted := None\<rparr>)"
    using lock guardedD [OF lock(3), of t] by (simp add: guarded_def)
  ultimately show ?case
    using lock(3) by (auto simp: slots_guarded_def lock_slot_def)
qed (auto intro: leave_slot_guarded unwind_guarded)

lemma slot_reachable_guarded: "slot_reachable s \<Longrightarrow> slots_guarded s"
proof (induction rule: slot_reachable.induct)
  case init
  show ?case by (simp add: slots_guarded_def guarded_def slot_start_def)
qed (rule slot_step_guarded)

lemma waiter_holds_none:
  assumes inv: "slots_guarded s" and "th_wanted (lock_threads s t) = Some i"
  shows "owner s j \<noteq> Some t"
proof -
  have "th_locked (lock_threads s t) = []" using assms(2) guardedD [OF inv, of t] by (simp add: guarded_def)
  with inv show ?thesis by (simp add: slots_guarded_def)
qed

lemma owner_runs:
  assumes inv: "slots_guarded s" and "owner s i = Some u"
  shows "th_wanted (lock_threads s u) = None" "th_locked (lock_threads s u) = [i]"
proof -
  have "i \<in> set (th_locked (lock_threads s u))" using assms by (simp add: slots_guarded_def)
  with guardedD [OF inv, of u] show "th_wanted (lock_threads s u) = None" "th_locked (lock_threads s u) = [i]"
    by (cases "th_locked (lock_threads s u)"; simp add: guarded_def split: if_splits)+
qed

text \<open>C28. The slot mutexes cannot deadlock, however often closures call back into the table. In every
  reachable state of all threads no set of threads waits for slots that its own members hold; a
  thread that waits for a slot holds none, and either takes the slot in its next step or waits for
  one other thread, which waits for nothing, holds no other slot and can leave this one.\<close>

theorem slot_locks_never_deadlock:
  assumes "slot_reachable s"
  shows "\<not> deadlocked T s \<and> length (th_locked (lock_threads s t)) \<le> 1 \<and>
     (th_wanted (lock_threads s t) = Some i \<longrightarrow>
        (\<forall>j. owner s j \<noteq> Some t) \<and>
        (slot_step t s (lock_slot t i s) \<or>
         (\<exists>u. owner s i = Some u \<and> u \<noteq> t \<and> th_wanted (lock_threads s u) = None \<and> th_locked (lock_threads s u) = [i] \<and>
              slot_step u s (leave_slot u s) \<and> owner (leave_slot u s) i = None)))"
proof -
  have inv: "slots_guarded s" using assms by (rule slot_reachable_guarded)
  have "\<not> deadlocked T s"
  proof
    assume d: "deadlocked T s"
    then obtain t i u where u: "owner s i = Some u" "u \<in> T" unfolding deadlocked_def by blast
    with d obtain j where "th_wanted (lock_threads s u) = Some j" by (auto simp: deadlocked_def)
    with owner_runs(1) [OF inv u(1)] show False by simp
  qed
  moreover have "length (th_locked (lock_threads s t)) \<le> 1"
    using guardedD [OF inv, of t] by (simp add: guarded_def)
  moreover have "slot_step t s (lock_slot t i s) \<or>
         (\<exists>u. owner s i = Some u \<and> u \<noteq> t \<and> th_wanted (lock_threads s u) = None \<and> th_locked (lock_threads s u) = [i] \<and>
              slot_step u s (leave_slot u s) \<and> owner (leave_slot u s) i = None)"
    if w: "th_wanted (lock_threads s t) = Some i"
  proof (cases "owner s i")
    case None
    with w show ?thesis by (simp add: slot_step.lock)
  next
    case (Some u)
    note u = owner_runs [OF inv Some]
    then have "slot_step u s (leave_slot u s)" by (simp add: slot_step.leave)
    moreover have "owner (leave_slot u s) i = None" using u by (simp add: leave_slot_def)
    moreover have "u \<noteq> t" using u w by auto
    ultimately show ?thesis using Some u by blast
  qed
  ultimately show ?thesis using waiter_holds_none [OF inv] by blast
qed

text \<open>Thread 0 is inside slot 0 and thread 1 inside slot 1, the start of a crossing: the guard refuses them
  both each other's slot. Thread 2 waits for slot 1.\<close>

lemma enters_and_locks:
  assumes "slot_reachable s" "th_wanted (lock_threads s t) = None" "\<not> th_holding (lock_threads s t)"
  shows "slot_reachable (enter_slot t i True s)"
    "owner s i = None \<Longrightarrow> slot_reachable (lock_slot t i (enter_slot t i True s))"
proof -
  show entered: "slot_reachable (enter_slot t i True s)"
    using slot_reachable.step [OF assms(1) slot_step.enter [OF assms(2)]] assms(3) by simp
  have "th_wanted (lock_threads (enter_slot t i True s) t) = Some i" by (simp add: enter_slot_def)
  moreover assume "owner s i = None"
  then have "owner (enter_slot t i True s) i = None" by (simp add: enter_slot_def)
  ultimately show "slot_reachable (lock_slot t i (enter_slot t i True s))"
    by (rule slot_reachable.step [OF entered slot_step.lock])
qed

lemma crossing_reached:
  obtains s where "slot_reachable s" "owner s 0 = Some 0" "owner s 1 = Some 1" "th_wanted (lock_threads s 2) = Some 1"
    "single_slot_guard (th_holding (lock_threads s 0)) = Inl Nested_Slot_Lock"
    "single_slot_guard (th_holding (lock_threads s 1)) = Inl Nested_Slot_Lock"
proof -
  let ?s1 = "lock_slot 0 0 (enter_slot 0 0 True slot_start)"
  let ?s2 = "lock_slot 1 1 (enter_slot 1 1 True ?s1)"
  let ?s3 = "enter_slot 2 1 True ?s2"
  have "slot_reachable ?s1"
    by (rule enters_and_locks(2) [OF slot_reachable.init]) (simp_all add: slot_start_def)
  then have "slot_reachable ?s2"
    by (rule enters_and_locks(2)) (simp_all add: enter_slot_def lock_slot_def slot_start_def)
  then have "slot_reachable ?s3"
    by (rule enters_and_locks(1)) (simp_all add: enter_slot_def lock_slot_def slot_start_def)
  then show thesis
    by (rule that) (simp_all add: enter_slot_def lock_slot_def slot_start_def)
qed

theorem slot_locks_never_deadlock_witness:
  "\<exists>s. slot_reachable s \<and> owner s 0 = Some 0 \<and> owner s 1 = Some 1 \<and>
     single_slot_guard (th_holding (lock_threads s 0)) = Inl Nested_Slot_Lock \<and> \<not> deadlocked {0, 1, 2} s \<and>
     th_wanted (lock_threads s 2) = Some 1 \<and>
     (slot_step 2 s (lock_slot 2 1 s) \<or> slot_step 1 s (leave_slot 1 s) \<and> owner (leave_slot 1 s) 1 = None)"
proof -
  obtain s where s: "slot_reachable s" "owner s 0 = Some 0" "owner s 1 = Some 1" "th_wanted (lock_threads s 2) = Some 1"
    "single_slot_guard (th_holding (lock_threads s 0)) = Inl Nested_Slot_Lock"
    by (rule crossing_reached)
  from slot_locks_never_deadlock [OF s(1), of "{0, 1, 2}" 2 1] s show ?thesis
    by (intro exI [of _ s]) auto
qed

end
