(* ===== verification/ThreadState.thy ===== *)
theory ThreadState
  imports Prelude
begin

section \<open>Thread lifecycle state: \<^verbatim>\<open>state.rs\<close>\<close>

text \<open>
  The state enumeration, the mutex-guarded state with its subscribers, and the waiting
  timestamp. Each operation that takes the lock once is a function; the blocking ones
  (\<^verbatim>\<open>wait_for\<close>, its timed variant and \<^verbatim>\<open>request_safe_state_change\<close>) are split at their lock
  releases in the step relation at the end, where any number of callers interleave. A channel is
  disconnected when no subscriber holds its sender any more, which is how \<^verbatim>\<open>mpsc\<close> documents it.
\<close>

subsection \<open>States\<close>

datatype state =
    Reserved | Booting | BootRequested | ShuttingDown | Done | Inactive | Ready
  | TransitionRequested | TransitionInProgress | TransitionComplete
  | Rebooting | ForceRebooting | RebootReady | YieldingForReboot

fun state_code :: "state \<Rightarrow> nat" where
  "state_code Reserved = 0"
| "state_code Booting = 1"
| "state_code BootRequested = 2"
| "state_code ShuttingDown = 3"
| "state_code Done = 4"
| "state_code Inactive = 5"
| "state_code Ready = 6"
| "state_code TransitionRequested = 7"
| "state_code TransitionInProgress = 8"
| "state_code TransitionComplete = 9"
| "state_code Rebooting = 10"
| "state_code ForceRebooting = 11"
| "state_code RebootReady = 12"
| "state_code YieldingForReboot = 13"

fun state_name :: "state \<Rightarrow> string" where
  "state_name Reserved = ''reserved''"
| "state_name Booting = ''booting''"
| "state_name BootRequested = ''boot requested''"
| "state_name ShuttingDown = ''shutting down''"
| "state_name Done = ''done''"
| "state_name Inactive = ''inactive''"
| "state_name Ready = ''ready''"
| "state_name TransitionRequested = ''transition requested''"
| "state_name TransitionInProgress = ''transition in progress''"
| "state_name TransitionComplete = ''transition complete''"
| "state_name Rebooting = ''rebooting''"
| "state_name ForceRebooting = ''rebooting (force)''"
| "state_name RebootReady = ''reboot ready''"
| "state_name YieldingForReboot = ''yielding for reboot''"

definition state_fmt :: "state \<Rightarrow> string" where
  "state_fmt s = state_name s"

lemma state_code_inject: "state_code a = state_code b \<longleftrightarrow> a = b"
  by (cases a; cases b) simp_all

text \<open>The enumeration is ordered by its discriminants.\<close>

instantiation state :: linorder
begin
definition less_eq_state :: "state \<Rightarrow> state \<Rightarrow> bool" where
  "less_eq_state a b = (state_code a \<le> state_code b)"
definition less_state :: "state \<Rightarrow> state \<Rightarrow> bool" where
  "less_state a b = (state_code a < state_code b)"
instance
  by standard (auto simp: less_eq_state_def less_state_def state_code_inject)
end

subsection \<open>The guarded state and its subscribers\<close>

record subscriber =
  sub_states :: "state list"
  sub_sender :: "nat option"
  sub_token :: nat

record thread_state =
  ts_current :: state
  ts_subscribers :: "subscriber list"
  ts_waiting_since :: "64 word"

definition ts_new :: thread_state where
  "ts_new = \<lparr>ts_current = Reserved, ts_subscribers = [], ts_waiting_since = 0\<rparr>"

definition ts_is :: "thread_state \<Rightarrow> state \<Rightarrow> bool" where
  "ts_is ts st = (ts_current ts = st)"

definition ts_get :: "thread_state \<Rightarrow> state" where
  "ts_get ts = ts_current ts"

definition ts_name :: "thread_state \<Rightarrow> string" where
  "ts_name ts = state_name (ts_get ts)"

text \<open>Dropping a matching subscriber drops its only sender: its channel is disconnected.\<close>

definition notify_subscribers :: "subscriber list \<Rightarrow> state \<Rightarrow> subscriber list" where
  "notify_subscribers subs next_state = filter (\<lambda>s. next_state \<notin> set (sub_states s)) subs"

definition ts_set :: "thread_state \<Rightarrow> state \<Rightarrow> thread_state" where
  "ts_set ts next_state =
     ts\<lparr>ts_current := next_state, ts_subscribers := notify_subscribers (ts_subscribers ts) next_state\<rparr>"

definition compare_and_swap :: "thread_state \<Rightarrow> state \<Rightarrow> state \<Rightarrow> bool \<times> thread_state" where
  "compare_and_swap ts compare_to swap_to =
     (if ts_current ts \<noteq> compare_to then (False, ts)
      else (True, ts\<lparr>ts_current := swap_to,
                     ts_subscribers := notify_subscribers (ts_subscribers ts) swap_to\<rparr>))"

text \<open>The fresh identity stands for both the new channel and the new \<^verbatim>\<open>Arc\<close> token.\<close>

definition subscribe :: "thread_state \<Rightarrow> state list \<Rightarrow> nat \<Rightarrow> (nat \<times> nat) option \<times> thread_state" where
  "subscribe ts states fresh =
     (if ts_current ts \<in> set states then (None, ts)
      else (Some (fresh, fresh),
            ts\<lparr>ts_subscribers := ts_subscribers ts @
                 [\<lparr>sub_states = states, sub_sender = Some fresh, sub_token = fresh\<rparr>]\<rparr>))"

definition disconnected :: "thread_state \<Rightarrow> nat \<Rightarrow> bool" where
  "disconnected ts chan = list_all (\<lambda>s. sub_sender s \<noteq> Some chan) (ts_subscribers ts)"

text \<open>What a timed wait does when its timeout fires.\<close>

definition unsubscribe :: "thread_state \<Rightarrow> nat \<Rightarrow> thread_state" where
  "unsubscribe ts token =
     ts\<lparr>ts_subscribers := filter (\<lambda>s. sub_token s \<noteq> token) (ts_subscribers ts)\<rparr>"

text \<open>
  One pass of the loop of \<^verbatim>\<open>request_safe_state_change\<close> under the lock: a verdict, or None to wait
  for one of the states below and try again.
\<close>

definition request_pass :: "thread_state \<Rightarrow> state \<Rightarrow> bool option \<times> thread_state" where
  "request_pass ts next_state =
     (if ts_current ts \<in> {Reserved, ShuttingDown, Done} then (Some False, ts)
      else if ts_current ts \<in> {Ready, Inactive} then
        (Some True, ts\<lparr>ts_current := next_state,
                       ts_subscribers := notify_subscribers (ts_subscribers ts) next_state\<rparr>)
      else (None, ts))"

definition request_wait_states :: "state list" where
  "request_wait_states = [Ready, Inactive, Reserved]"

subsection \<open>The waiting timestamp\<close>

text \<open>
  A \<^verbatim>\<open>SystemTime\<close> is its signed distance to the Unix epoch in nanoseconds; a \<^verbatim>\<open>Duration\<close> is
  non-negative. Milliseconds truncate, so a time before the epoch is rounded away from it.
\<close>

definition as_millis :: "int \<Rightarrow> int" where
  "as_millis duration = duration div 1000000"

definition try_i64 :: "int \<Rightarrow> int option" where
  "try_i64 v = (if v < 2 ^ 63 then Some v else None)"

definition unix_millis :: "int \<Rightarrow> int" where
  "unix_millis time =
     (if 0 \<le> time then (case try_i64 (as_millis time) of Some m \<Rightarrow> m | None \<Rightarrow> 2 ^ 63 - 1)
      else
        (let duration = - time;
             magnitude = min (2 ^ 128 - 1)
               (as_millis duration + (if duration mod 1000000000 mod 1000000 \<noteq> 0 then 1 else 0))
         in case try_i64 magnitude of Some m \<Rightarrow> - m | None \<Rightarrow> - (2 ^ 63)))"

definition mark_as_waiting :: "thread_state \<Rightarrow> bool \<Rightarrow> int \<Rightarrow> thread_state" where
  "mark_as_waiting ts is_waiting now =
     ts\<lparr>ts_waiting_since := (if is_waiting then word_of_int (unix_millis now) else 0)\<rparr>"

definition is_in_waiting_state :: "thread_state \<Rightarrow> bool" where
  "is_in_waiting_state ts = (ts_waiting_since ts \<noteq> 0)"

definition wait_time :: "thread_state \<Rightarrow> int \<Rightarrow> 64 word" where
  "wait_time ts now =
     (if ts_waiting_since ts = 0 then 0 else word_of_int (unix_millis now) - ts_waiting_since ts)"

definition set_wait_time :: "thread_state \<Rightarrow> int \<Rightarrow> thread_state" where
  "set_wait_time ts time = ts\<lparr>ts_waiting_since := word_of_int (unix_millis time)\<rparr>"

text \<open>\<^verbatim>\<open>unix_millis\<close> is the floor of the time in milliseconds on both sides of the epoch, clamped
  to the signed 64-bit range.\<close>

theorem unix_millis_floor:
  "unix_millis time = max (- (2 ^ 63)) (min (2 ^ 63 - 1) (time div 1000000))"
proof (cases "0 \<le> time")
  case False
  have m: "(- time) mod 1000000000 mod 1000000 = (- time) mod 1000000" by (simp add: mod_mod_cancel)
  define q where "q = (- time) div 1000000 + (if (- time) mod 1000000 \<noteq> 0 then 1 else 0)"
  have "time div 1000000 = - q"
    using zdiv_zminus1_eq_if [of 1000000 "- time"] unfolding q_def minus_minus by (simp split: if_splits)
  moreover have "unix_millis time =
      (case try_i64 (min (2 ^ 128 - 1) q) of Some m \<Rightarrow> - m | None \<Rightarrow> - (2 ^ 63))"
    using False unfolding unix_millis_def as_millis_def Let_def m q_def by simp
  moreover have "0 \<le> q" using False by (simp add: q_def pos_imp_zdiv_nonneg_iff)
  ultimately show ?thesis
    by (simp add: try_i64_def min_def max_def)
next
  case True
  then have "0 \<le> time div 1000000" by (simp add: pos_imp_zdiv_nonneg_iff)
  with True show ?thesis by (auto simp: unix_millis_def try_i64_def as_millis_def min_def max_def)
qed

subsection \<open>Many callers: a step relation\<close>

text \<open>
  Callers are named by numbers. A caller waits with a continuation: return, return or give up at
  the timeout, or try its state change again. \<open>ws_trace\<close> is history, in no branch: every value the
  state was given, for stating what a returning wait has seen; a waiter carries the length the
  trace had when it subscribed.
\<close>

datatype continuation = Return_After | Timed | Retry state

datatype caller =
    Idle
  | Waiting "state list" nat nat continuation nat
  | Requesting state
  | Request_Wait state
  | Returned bool

record wait_system =
  ws_ts :: thread_state
  ws_next :: nat
  ws_callers :: "nat \<Rightarrow> caller"
  ws_trace :: "state list"

definition ws_start :: wait_system where
  "ws_start = \<lparr>ws_ts = ts_new, ws_next = 0, ws_callers = (\<lambda>_. Idle), ws_trace = [Reserved]\<rparr>"

definition after_wait :: "continuation \<Rightarrow> caller" where
  "after_wait k = (case k of Retry st \<Rightarrow> Requesting st | _ \<Rightarrow> Returned True)"

definition begin_wait :: "nat \<Rightarrow> state list \<Rightarrow> continuation \<Rightarrow> wait_system \<Rightarrow> wait_system" where
  "begin_wait p states k w =
     (case subscribe (ws_ts w) states (ws_next w) of
        (None, ts) \<Rightarrow> w\<lparr>ws_callers := (ws_callers w)(p := after_wait k)\<rparr>
      | (Some (chan, token), ts) \<Rightarrow>
          w\<lparr>ws_ts := ts, ws_next := ws_next w + 1,
            ws_callers := (ws_callers w)(p := Waiting states chan token k (length (ws_trace w)))\<rparr>)"

inductive ws_step :: "wait_system \<Rightarrow> wait_system \<Rightarrow> bool" where
  set: "ws_step w (w\<lparr>ws_ts := ts_set (ws_ts w) st, ws_trace := ws_trace w @ [st]\<rparr>)"
| cas: "compare_and_swap (ws_ts w) a b = (True, ts) \<Longrightarrow>
    ws_step w (w\<lparr>ws_ts := ts, ws_trace := ws_trace w @ [b]\<rparr>)"
| wait: "ws_callers w p = Idle \<Longrightarrow> ws_step w (begin_wait p states Return_After w)"
| timed: "ws_callers w p = Idle \<Longrightarrow> ws_step w (begin_wait p states Timed w)"
| wake: "ws_callers w p = Waiting states chan token k n \<Longrightarrow> disconnected (ws_ts w) chan \<Longrightarrow>
    ws_step w (w\<lparr>ws_callers := (ws_callers w)(p := after_wait k)\<rparr>)"
| timeout: "ws_callers w p = Waiting states chan token Timed n \<Longrightarrow>
    ws_step w (w\<lparr>ws_ts := unsubscribe (ws_ts w) token, ws_callers := (ws_callers w)(p := Returned False)\<rparr>)"
| request: "ws_callers w p = Idle \<Longrightarrow> ws_step w (w\<lparr>ws_callers := (ws_callers w)(p := Requesting st)\<rparr>)"
| granted: "ws_callers w p = Requesting st \<Longrightarrow> request_pass (ws_ts w) st = (Some True, ts) \<Longrightarrow>
    ws_step w (w\<lparr>ws_ts := ts, ws_callers := (ws_callers w)(p := Returned True),
                 ws_trace := ws_trace w @ [st]\<rparr>)"
| refused: "ws_callers w p = Requesting st \<Longrightarrow> request_pass (ws_ts w) st = (Some False, ts) \<Longrightarrow>
    ws_step w (w\<lparr>ws_callers := (ws_callers w)(p := Returned False)\<rparr>)"
| postponed: "ws_callers w p = Requesting st \<Longrightarrow> request_pass (ws_ts w) st = (None, ts) \<Longrightarrow>
    ws_step w (w\<lparr>ws_callers := (ws_callers w)(p := Request_Wait st)\<rparr>)"
| request_wait: "ws_callers w p = Request_Wait st \<Longrightarrow>
    ws_step w (begin_wait p request_wait_states (Retry st) w)"
| again: "ws_callers w p = Returned b \<Longrightarrow> ws_step w (w\<lparr>ws_callers := (ws_callers w)(p := Idle)\<rparr>)"

inductive ws_reachable :: "wait_system \<Rightarrow> bool" where
  init: "ws_reachable ws_start"
| step: "ws_reachable w \<Longrightarrow> ws_step w w' \<Longrightarrow> ws_reachable w'"

definition subs_ok :: "thread_state \<Rightarrow> nat \<Rightarrow> bool" where
  "subs_ok ts next = (\<forall>s \<in> set (ts_subscribers ts).
     ts_current ts \<notin> set (sub_states s) \<and> sub_sender s = Some (sub_token s) \<and> sub_token s < next)"

definition waiter_ok :: "wait_system \<Rightarrow> nat \<Rightarrow> bool" where
  "waiter_ok w p = (case ws_callers w p of
     Waiting states chan token k n \<Rightarrow>
       chan = token \<and> token < ws_next w \<and> n \<le> length (ws_trace w) \<and>
       (\<forall>s \<in> set (ts_subscribers (ws_ts w)). sub_token s = token \<longrightarrow> sub_states s = states) \<and>
       ((\<exists>s \<in> set (ts_subscribers (ws_ts w)). sub_token s = token) \<or>
        (\<exists>st \<in> set (drop n (ws_trace w)). st \<in> set states))
   | _ \<Rightarrow> True)"

definition distinct_channels :: "wait_system \<Rightarrow> bool" where
  "distinct_channels w = (\<forall>p q sts c t k n sts' t' k' n'.
     ws_callers w p = Waiting sts c t k n \<longrightarrow> ws_callers w q = Waiting sts' c t' k' n' \<longrightarrow> p = q)"

definition ws_inv :: "wait_system \<Rightarrow> bool" where
  "ws_inv w = (subs_ok (ws_ts w) (ws_next w) \<and> (\<forall>p. waiter_ok w p) \<and> distinct_channels w)"

subsection \<open>The invariant\<close>

fun blocked :: "caller \<Rightarrow> bool" where
  "blocked (Waiting _ _ _ _ _) = True"
| "blocked _ = False"

definition advance :: "wait_system \<Rightarrow> state \<Rightarrow> wait_system" where
  "advance w st = w\<lparr>ws_ts := ts_set (ws_ts w) st, ws_trace := ws_trace w @ [st]\<rparr>"

lemma disconnected_iff:
  "subs_ok ts next \<Longrightarrow> disconnected ts c \<longleftrightarrow> (\<forall>s \<in> set (ts_subscribers ts). sub_token s \<noteq> c)"
  by (auto simp: disconnected_def subs_ok_def list_all_iff)

lemma advance_waiter: "waiter_ok w p \<Longrightarrow> waiter_ok (advance w st) p"
proof (cases "ws_callers w p")
  case (Waiting states chan token k n)
  assume ok: "waiter_ok w p"
  with Waiting have n: "n \<le> length (ws_trace w)" by (simp add: waiter_ok_def)
  show ?thesis
  proof (cases "\<exists>s \<in> set (ts_subscribers (ws_ts w)). sub_token s = token")
    case False
    with ok Waiting n show ?thesis
      by (auto simp: waiter_ok_def advance_def ts_set_def notify_subscribers_def)
  next
    case True
    then obtain s where s: "s \<in> set (ts_subscribers (ws_ts w))" "sub_token s = token" by blast
    with ok Waiting have "sub_states s = states" by (simp add: waiter_ok_def)
    with ok Waiting n s show ?thesis
      by (cases "st \<in> set states")
        (auto simp: waiter_ok_def advance_def ts_set_def notify_subscribers_def)
  qed
qed (simp_all add: waiter_ok_def advance_def)

lemma advance_inv: "ws_inv w \<Longrightarrow> ws_inv (advance w st)"
  unfolding ws_inv_def
proof (intro conjI allI; elim conjE)
  assume "subs_ok (ws_ts w) (ws_next w)"
  then show "subs_ok (ws_ts (advance w st)) (ws_next (advance w st))"
    by (auto simp: subs_ok_def advance_def ts_set_def notify_subscribers_def)
next
  fix p assume "\<forall>p. waiter_ok w p"
  then show "waiter_ok (advance w st) p" by (simp add: advance_waiter)
next
  assume "distinct_channels w"
  then show "distinct_channels (advance w st)" unfolding distinct_channels_def advance_def by simp
qed

lemma caller_inv:
  assumes "ws_inv w" "\<not> blocked x"
  shows "ws_inv (w\<lparr>ws_callers := (ws_callers w)(p := x)\<rparr>)"
proof -
  have "waiter_ok (w\<lparr>ws_callers := (ws_callers w)(p := x)\<rparr>) q" for q
  proof (cases "q = p")
    case True
    with assms(2) show ?thesis by (cases x) (simp_all add: waiter_ok_def)
  next
    case False
    moreover have "waiter_ok w q" using assms by (simp add: ws_inv_def)
    ultimately show ?thesis by (cases "ws_callers w q") (simp_all add: waiter_ok_def)
  qed
  moreover have "distinct_channels (w\<lparr>ws_callers := (ws_callers w)(p := x)\<rparr>)"
    using assms unfolding ws_inv_def distinct_channels_def by auto
  ultimately show ?thesis using assms by (simp add: ws_inv_def)
qed

lemma after_wait_not_blocked [simp]: "\<not> blocked (after_wait k)"
  by (cases k) (simp_all add: after_wait_def)

lemma begin_wait_inv:
  assumes "ws_inv w" "\<not> blocked (ws_callers w p)"
  shows "ws_inv (begin_wait p states k w)"
proof (cases "ts_current (ws_ts w) \<in> set states")
  case True
  then show ?thesis
    using caller_inv [OF assms(1), of "after_wait k" p]
    by (simp add: begin_wait_def subscribe_def)
next
  case False
  let ?w = "begin_wait p states k w"
  have eqs: "ws_callers ?w = (ws_callers w)(p := Waiting states (ws_next w) (ws_next w) k (length (ws_trace w)))"
    "ws_next ?w = ws_next w + 1" "ws_trace ?w = ws_trace w"
    "ts_current (ws_ts ?w) = ts_current (ws_ts w)"
    "ts_subscribers (ws_ts ?w) = ts_subscribers (ws_ts w) @
       [\<lparr>sub_states = states, sub_sender = Some (ws_next w), sub_token = ws_next w\<rparr>]"
    using False by (simp_all add: begin_wait_def subscribe_def)
  have subs: "subs_ok (ws_ts w) (ws_next w)" using assms by (simp add: ws_inv_def)
  then have fresh: "s \<in> set (ts_subscribers (ws_ts w)) \<Longrightarrow> sub_token s < ws_next w" for s
    by (simp add: subs_ok_def)
  have "subs_ok (ws_ts ?w) (ws_next ?w)"
    using subs False unfolding subs_ok_def eqs by (auto intro: less_SucI)
  moreover have "waiter_ok ?w q" for q
  proof (cases "q = p")
    case True
    then show ?thesis using fresh by (fastforce simp: waiter_ok_def eqs)
  next
    case False
    then have "waiter_ok w q" using assms by (simp add: ws_inv_def)
    with False show ?thesis by (cases "ws_callers w q") (auto simp: waiter_ok_def eqs)
  qed
  moreover have lt: "ws_callers w q = Waiting sts c t k' n \<Longrightarrow> c < ws_next w" for q sts c t k' n
    using assms(1) by (auto simp: ws_inv_def waiter_ok_def split: caller.splits dest!: spec [of _ q])
  have "distinct_channels ?w"
    using assms(1) unfolding distinct_channels_def eqs ws_inv_def by (auto dest: lt)
  ultimately show ?thesis by (simp add: ws_inv_def)
qed

lemma timeout_inv:
  assumes "ws_inv w" "ws_callers w p = Waiting states chan token k n"
  shows "ws_inv (w\<lparr>ws_ts := unsubscribe (ws_ts w) token, ws_callers := (ws_callers w)(p := Returned False)\<rparr>)"
    (is "ws_inv ?w")
proof -
  have tok: "ws_callers w q = Waiting sts c t k' n' \<Longrightarrow> c = t" for q sts c t k' n'
    using assms(1) by (auto simp: ws_inv_def waiter_ok_def split: caller.splits dest!: spec [of _ q])
  have "subs_ok (ws_ts ?w) (ws_next ?w)"
    using assms by (auto simp: ws_inv_def subs_ok_def unsubscribe_def)
  moreover have "waiter_ok ?w q" for q
  proof (cases "q = p \<or> (\<nexists>sts c t k n. ws_callers w q = Waiting sts c t k n)")
    case True
    then show ?thesis by (auto simp: waiter_ok_def split: caller.splits)
  next
    case False
    then obtain sts c t k' n' where q: "q \<noteq> p" "ws_callers w q = Waiting sts c t k' n'" by blast
    then have "t \<noteq> token"
      using assms tok unfolding ws_inv_def distinct_channels_def by metis
    moreover have "waiter_ok w q" using assms by (simp add: ws_inv_def)
    ultimately show ?thesis using q by (auto simp: waiter_ok_def unsubscribe_def)
  qed
  moreover have "distinct_channels ?w"
    using assms(1) by (simp add: ws_inv_def distinct_channels_def)
  ultimately show ?thesis by (simp add: ws_inv_def)
qed

lemma ws_step_inv: "ws_step w w' \<Longrightarrow> ws_inv w \<Longrightarrow> ws_inv w'"
proof (induction rule: ws_step.induct)
  case (set w st)
  then show ?case using advance_inv [of w st] by (simp add: advance_def)
next
  case (cas w a b ts)
  then have "w\<lparr>ws_ts := ts, ws_trace := ws_trace w @ [b]\<rparr> = advance w b"
    by (auto simp: compare_and_swap_def advance_def ts_set_def split: if_splits)
  with cas advance_inv show ?case by simp
next
  case (granted w p st ts)
  then have "w\<lparr>ws_ts := ts, ws_callers := (ws_callers w)(p := Returned True), ws_trace := ws_trace w @ [st]\<rparr>
      = (advance w st)\<lparr>ws_callers := (ws_callers (advance w st))(p := Returned True)\<rparr>"
    by (auto simp: request_pass_def advance_def ts_set_def split: if_splits)
  with granted caller_inv advance_inv show ?case by simp
next
  case (wake w p states chan token k n)
  then show ?case by (intro caller_inv) simp_all
next
  case (timeout w p states chan token n)
  then show ?case by (intro timeout_inv)
qed (auto intro!: begin_wait_inv caller_inv)

lemma ws_start_inv: "ws_inv ws_start"
  by (simp add: ws_inv_def ws_start_def subs_ok_def ts_new_def waiter_ok_def distinct_channels_def)

lemma ws_reachable_inv: "ws_reachable w \<Longrightarrow> ws_inv w"
  by (induction rule: ws_reachable.induct) (auto intro: ws_start_inv ws_step_inv)

text \<open>C16. No wake-up is lost and none is spurious. In every reachable state of any number of callers, a
  caller blocked in \<^verbatim>\<open>wait_for\<close>, \<^verbatim>\<open>wait_for_state_with_timeout\<close> or the wait of
  \<^verbatim>\<open>request_safe_state_change\<close> is blocked only while the state is none of those it waits for and it
  has been none of them since it subscribed; once the state has been one of them its channel is
  disconnected and it returns.\<close>

theorem no_lost_wakeup:
  assumes "ws_reachable w" "ws_callers w p = Waiting states chan token k n"
  shows "(if disconnected (ws_ts w) chan
          then list_ex (\<lambda>st. st \<in> set states) (drop n (ws_trace w)) \<and>
               ws_step w (w\<lparr>ws_callers := (ws_callers w)(p := after_wait k)\<rparr>)
          else ts_current (ws_ts w) \<notin> set states)"
proof -
  have inv: "subs_ok (ws_ts w) (ws_next w)" "waiter_ok w p"
    using ws_reachable_inv [OF assms(1)] by (simp_all add: ws_inv_def)
  show ?thesis
  proof (cases "disconnected (ws_ts w) chan")
    case True
    with inv assms have "\<exists>st \<in> set (drop n (ws_trace w)). st \<in> set states"
      by (auto simp: disconnected_iff waiter_ok_def)
    with True ws_step.wake [OF assms(2) True] show ?thesis by (auto simp: list_ex_iff)
  next
    case False
    with inv(1) obtain s where "s \<in> set (ts_subscribers (ws_ts w))" "sub_token s = chan"
      by (auto simp: disconnected_iff)
    with inv assms False show ?thesis by (auto simp: waiter_ok_def subs_ok_def)
  qed
qed

text \<open>A caller waits for Ready, another thread sets it: the wait returns, having seen Ready.\<close>

theorem no_lost_wakeup_witness:
  "\<exists>w. ws_reachable w \<and> ws_callers w 0 = Waiting [Ready] 0 0 Return_After 1 \<and>
     disconnected (ws_ts w) 0 \<and> list_ex (\<lambda>st. st \<in> set [Ready]) (drop 1 (ws_trace w))"
proof -
  let ?w1 = "begin_wait 0 [Ready] Return_After ws_start"
  let ?w2 = "?w1\<lparr>ws_ts := ts_set (ws_ts ?w1) Ready, ws_trace := ws_trace ?w1 @ [Ready]\<rparr>"
  have "ws_reachable ?w1"
    by (rule ws_reachable.step [OF ws_reachable.init ws_step.wait]) (simp add: ws_start_def)
  then have r: "ws_reachable ?w2" by (rule ws_reachable.step [OF _ ws_step.set])
  have c: "ws_callers ?w2 0 = Waiting [Ready] 0 0 Return_After 1"
    by (simp add: begin_wait_def subscribe_def ws_start_def ts_new_def)
  have d: "disconnected (ws_ts ?w2) 0"
    by (simp add: begin_wait_def subscribe_def ws_start_def ts_new_def ts_set_def
        notify_subscribers_def disconnected_def)
  from no_lost_wakeup [OF r c] r c d show ?thesis
    by (intro exI [of _ ?w2]) (simp only: if_True simp_thms)
qed

text \<open>A state change is requested only from a stable state: one pass under the lock succeeds exactly
  in Ready and Inactive, where it installs the requested state and drops every subscriber of it,
  is refused exactly in Reserved, ShuttingDown and Done, and otherwise leaves everything as it is
  and waits; the success is what compare-and-swap on the stable state would do.\<close>

theorem request_pass_stable_only:
  "request_pass ts next_state =
     (if ts_current ts \<in> {Ready, Inactive} then
        (Some True, snd (compare_and_swap ts (ts_current ts) next_state))
      else (if ts_current ts \<in> {Reserved, ShuttingDown, Done} then Some False else None, ts)) \<and>
   (fst (request_pass ts next_state) = None) =
     (ts_current ts \<notin> {Reserved, ShuttingDown, Done, Ready, Inactive}) \<and>
   ts_waiting_since (snd (request_pass ts next_state)) = ts_waiting_since ts"
  by (cases "ts_current ts") (simp_all add: request_pass_def compare_and_swap_def)

lemma sint_word_of_int_64:
  "- (2 ^ 63) \<le> x \<Longrightarrow> x < 2 ^ 63 \<Longrightarrow> sint (word_of_int x :: 64 word) = x"
  by (simp add: int_word_sint)

text \<open>While both instants lie in the range a signed 64-bit count of milliseconds can express, the
  wait time is the exact difference of their millisecond floors as a signed number, for a thread
  marked as waiting at any instant but the epoch's first millisecond; a thread not marked waits zero.\<close>

theorem wait_time_elapsed:
  assumes "- (2 ^ 62) \<le> since div 1000000" "since div 1000000 < 2 ^ 62"
    and "- (2 ^ 62) \<le> now div 1000000" "now div 1000000 < 2 ^ 62"
    and "since div 1000000 \<noteq> 0"
  shows "sint (wait_time (mark_as_waiting ts True since) now) = now div 1000000 - since div 1000000 \<and>
     is_in_waiting_state (mark_as_waiting ts True since) \<and>
     wait_time (mark_as_waiting ts False since) now = 0"
proof -
  have m: "unix_millis since = since div 1000000" "unix_millis now = now div 1000000"
    using assms by (simp_all add: unix_millis_floor)
  let ?w = "word_of_int (since div 1000000) :: 64 word"
  have s: "sint ?w = since div 1000000"
    using assms by (intro sint_word_of_int_64) simp_all
  then have "?w \<noteq> 0" using assms(5) by auto
  moreover have "sint (word_of_int (now div 1000000) - ?w) = now div 1000000 - since div 1000000"
    unfolding wi_hom_sub using assms by (intro sint_word_of_int_64) simp_all
  ultimately show ?thesis
    by (simp add: wait_time_def mark_as_waiting_def is_in_waiting_state_def m)
qed

text \<open>Marked at 5 ms after the epoch, asked at 12.3 ms: seven milliseconds.\<close>

theorem wait_time_elapsed_witness:
  "sint (wait_time (mark_as_waiting ts_new True 5000000) 12300000) = 7"
  using wait_time_elapsed [of 5000000 12300000 ts_new] by simp

end
