(* ===== verification/Fmt.thy ===== *)
theory Fmt
  imports Prelude
begin

section \<open>Decimal formatting as \<^verbatim>\<open>format!\<close> and \<^verbatim>\<open>to_string\<close> print integers\<close>

text \<open>\<open>fmt_nat\<close> and \<open>fmt_int\<close> are the \<^verbatim>\<open>Display\<close> of unsigned and signed integers; \<open>read_nat\<close> reads back.\<close>

fun fmt_nat :: "nat \<Rightarrow> string" where
  "fmt_nat n = (if n < 10 then [char_of (48 + n)] else fmt_nat (n div 10) @ [char_of (48 + n mod 10)])"

declare fmt_nat.simps [simp del]

definition fmt_int :: "int \<Rightarrow> string" where
  "fmt_int i = (if i < 0 then CHR ''-'' # fmt_nat (nat (- i)) else fmt_nat (nat i))"

definition read_nat :: "string \<Rightarrow> nat" where
  "read_nat s = foldl (\<lambda>a c. 10 * a + (of_char c - 48)) 0 s"

lemma read_nat_snoc: "read_nat (s @ [c]) = 10 * read_nat s + (of_char c - 48)"
  by (simp add: read_nat_def)

lemma digit_char: "d < 10 \<Longrightarrow> of_char (char_of (48 + d :: nat)) = (48 + d :: nat)"
  by simp

lemma read_fmt_nat [simp]: "read_nat (fmt_nat n) = n"
proof (induction n rule: fmt_nat.induct)
  case (1 n)
  show ?case
  proof (cases "n < 10")
    case True
    then show ?thesis by (simp add: fmt_nat.simps [of n] read_nat_def)
  next
    case False
    with 1 show ?thesis by (simp add: fmt_nat.simps [of n] read_nat_snoc)
  qed
qed

lemma fmt_nat_digits: "list_all is_ascii_digit (fmt_nat n)"
proof (induction n rule: fmt_nat.induct)
  case (1 n)
  then show ?case by (cases "n < 10") (simp_all add: fmt_nat.simps [of n] is_ascii_digit_def)
qed

lemma fmt_nat_ne [simp]: "fmt_nat n \<noteq> []"
  by (subst fmt_nat.simps) simp

lemma fmt_nat_inject: "fmt_nat m = fmt_nat n \<longleftrightarrow> m = n"
  by (metis read_fmt_nat)

end
