(* ===== verification/Log.thy ===== *)
theory Log
  imports Fmt GoQuote
begin

section \<open>The logging facade: \<^verbatim>\<open>callbacks/log.rs\<close>\<close>

text \<open>
  Levels on the signed scale of \<^verbatim>\<open>slog\<close>, the level gate, \<^verbatim>\<open>log_once\<close> with its \<^verbatim>\<open>Once\<close>, the line
  written to the standard error stream and the escaping that keeps it one line. A log call gives
  the list of records it emits; the message closures are functions of the unit, so that a record
  is built only past the gate. The stream itself is a list of lines.
\<close>

datatype level = Level int

definition DEBUG :: level where "DEBUG = Level (- 4)"
definition INFO :: level where "INFO = Level 0"
definition WARN :: level where "WARN = Level 4"
definition ERROR :: level where "ERROR = Level 8"

definition from_raw :: "int \<Rightarrow> level" where
  "from_raw raw = Level raw"

fun as_raw :: "level \<Rightarrow> int" where
  "as_raw (Level raw) = raw"

instantiation level :: linorder
begin
definition less_eq_level :: "level \<Rightarrow> level \<Rightarrow> bool" where
  "less_eq_level a b = (as_raw a \<le> as_raw b)"
definition less_level :: "level \<Rightarrow> level \<Rightarrow> bool" where
  "less_level a b = (as_raw a < as_raw b)"
instance
proof
  fix a b :: level
  show "a \<le> b \<Longrightarrow> b \<le> a \<Longrightarrow> a = b"
    by (cases a; cases b) (simp add: less_eq_level_def)
qed (auto simp: less_eq_level_def less_level_def)
end

record attr =
  attr_key :: string
  attr_value :: rstring

record log_record =
  rec_level :: level
  rec_message :: bytes
  rec_attrs :: "attr list"

definition MIN_LEVEL :: level where
  "MIN_LEVEL = INFO"

definition enabled :: "level \<Rightarrow> bool" where
  "enabled level = (MIN_LEVEL \<le> level)"

definition log :: "level \<Rightarrow> (unit \<Rightarrow> bytes) \<Rightarrow> (unit \<Rightarrow> attr list) \<Rightarrow> log_record list" where
  "log level message attrs =
     (if \<not> enabled level then []
      else [\<lparr>rec_level = level, rec_message = message (), rec_attrs = attrs ()\<rparr>])"

text \<open>A \<^verbatim>\<open>Once\<close> is whether it has run; the call gives it back with what was emitted.\<close>

definition log_once ::
  "bool \<Rightarrow> level \<Rightarrow> (unit \<Rightarrow> bytes) \<Rightarrow> (unit \<Rightarrow> attr list) \<Rightarrow> bool \<times> log_record list"
where
  "log_once once level message attrs =
     (if \<not> enabled level then (once, [])
      else if once then (once, [])
      else (True, log level message attrs))"

definition escape_byte :: "byte \<Rightarrow> rstring" where
  "escape_byte b =
     (if b = CHR 0x5C then [92, 92]
      else if b = CHR 0x0A then [92, 110]
      else if b = CHR 0x0D then [92, 114]
      else if b = CHR 0x09 then [92, 116]
      else if 32 \<le> bval b \<and> bval b \<le> 126 then [bval b]
      else [92, 120] @ fmt_hex 2 (bval b))"

definition escape_for_log_line :: "bytes \<Rightarrow> rstring" where
  "escape_for_log_line bs = concat (map escape_byte bs)"

text \<open>\<^verbatim>\<open>as_bytes\<close> of a string value, and the \<^verbatim>\<open>Debug\<close> form of a level.\<close>

definition str_bytes :: "rstring \<Rightarrow> bytes" where
  "str_bytes s = concat (map utf8_encode s)"

definition level_debug :: "level \<Rightarrow> rstring" where
  "level_debug l = lit (''Level('' @ fmt_int (as_raw l) @ '')'')"

definition stderr_line :: "log_record \<Rightarrow> rstring" where
  "stderr_line r =
     lit ''frankenrust['' @ level_debug (rec_level r) @ lit '']: '' @
     escape_for_log_line (rec_message r) @
     concat (map (\<lambda>a. [32] @ lit (attr_key a) @ [61] @ escape_for_log_line (str_bytes (attr_value a)))
       (rec_attrs r))"

text \<open>\<^verbatim>\<open>writeln!\<close>: the line and its newline; a failed write is dropped, not raised.\<close>

definition write_stderr :: "log_record \<Rightarrow> bool \<Rightarrow> rstring \<Rightarrow> rstring" where
  "write_stderr r write_ok stream = (if write_ok then stream @ stderr_line r @ [10] else stream)"

definition emit :: "log_record \<Rightarrow> bool \<Rightarrow> rstring \<Rightarrow> rstring" where
  "emit r write_ok stream = write_stderr r write_ok stream"

subsection \<open>The gate\<close>

text \<open>A level is emitted exactly when it is at least INFO, in between the named levels too; a disabled
  call to \<^verbatim>\<open>log_once\<close> leaves its \<^verbatim>\<open>Once\<close> armed, and of any sequence of enabled calls exactly the
  first emits.\<close>

theorem log_once_first_only:
  "log_once once level message attrs =
     (once \<or> 0 \<le> as_raw level, if 0 \<le> as_raw level \<and> \<not> once
       then [\<lparr>rec_level = level, rec_message = message (), rec_attrs = attrs ()\<rparr>] else []) \<and>
   log_once True level message attrs = (True, [])"
  by (cases level) (simp add: log_once_def log_def enabled_def MIN_LEVEL_def INFO_def less_eq_level_def)

subsection \<open>Escaping\<close>

text \<open>The reference reader of an escaped fragment.\<close>

fun unescape :: "rstring \<Rightarrow> bytes option" where
  "unescape [] = Some []"
| "unescape [c] = (if c = 92 then None else Some [char_of c])"
| "unescape (c # d # rest) =
     (if c \<noteq> 92 then map_option ((#) (char_of c)) (unescape (d # rest))
      else if d = 92 then map_option ((#) (CHR 0x5C)) (unescape rest)
      else if d = 110 then map_option ((#) (CHR 0x0A)) (unescape rest)
      else if d = 114 then map_option ((#) (CHR 0x0D)) (unescape rest)
      else if d = 116 then map_option ((#) (CHR 0x09)) (unescape rest)
      else if d = 120 then map_option ((#) (char_of (read_hex (take 2 rest)))) (unescape (drop 2 rest))
      else None)"

lemma unescape_plain: "c \<noteq> 92 \<Longrightarrow> unescape (c # rest) = map_option ((#) (char_of c)) (unescape rest)"
  by (cases rest) auto

lemma unescape_escape_byte: "unescape (escape_byte b @ rest) = map_option ((#) b) (unescape rest)"
proof -
  consider "b = CHR 0x5C" | "b = CHR 0x0A" | "b = CHR 0x0D" | "b = CHR 0x09"
    | "b \<notin> {CHR 0x5C, CHR 0x0A, CHR 0x0D, CHR 0x09}" "32 \<le> bval b" "bval b \<le> 126"
    | "b \<notin> {CHR 0x5C, CHR 0x0A, CHR 0x0D, CHR 0x09}" "\<not> (32 \<le> bval b \<and> bval b \<le> 126)"
    by blast
  then show ?thesis
  proof cases
    case 5
    moreover from this have "bval b \<noteq> bval CHR 0x5C" by (simp only: of_char_eq_iff) simp
    then have "bval b \<noteq> 92" by simp
    ultimately show ?thesis by (simp add: escape_byte_def unescape_plain)
  next
    case 6
    then have "escape_byte b = [92, 120] @ fmt_hex 2 (bval b)" by (auto simp: escape_byte_def)
    then show ?thesis by (simp add: length_fmt_hexs)
  qed (simp_all add: escape_byte_def)
qed

lemma unescape_escape: "unescape (escape_for_log_line bs) = Some bs"
  by (induction bs) (simp_all add: escape_for_log_line_def unescape_escape_byte)

lemma hex_lower_print_range: "d < 16 \<Longrightarrow> 32 \<le> hex_lower d \<and> hex_lower d \<le> 126"
  by (auto simp: hex_lower_def)

lemma hex_digits_range: "list_all (\<lambda>c. 32 \<le> c \<and> c \<le> 126) (hex_digits n)"
proof (induction n rule: hex_digits.induct)
  case (1 n)
  then show ?case by (cases "n < 16") (simp_all add: hex_digits.simps [of n] hex_lower_print_range)
qed

lemma fmt_hex_range: "list_all (\<lambda>c. 32 \<le> c \<and> c \<le> 126) (fmt_hex w n)"
  using hex_digits_range [of n] by (auto simp: fmt_hex_def Let_def list_all_iff)

lemma escape_byte_range: "list_all (\<lambda>c. 32 \<le> c \<and> c \<le> 126) (escape_byte b)"
  using fmt_hex_range [of 2 "bval b"] by (simp add: escape_byte_def)

lemma escape_range: "list_all (\<lambda>c. 32 \<le> c \<and> c \<le> 126) (escape_for_log_line bs)"
  using escape_byte_range by (induction bs) (simp_all add: escape_for_log_line_def)

text \<open>Escaping a message for the log loses nothing and forges nothing: the fragment consists of
  printable ASCII only, so it has no line break, and it reads back to exactly the message's bytes,
  so no two messages render alike.\<close>

theorem escape_for_log_line_reversible:
  "unescape (escape_for_log_line bs) = Some bs \<and>
   list_all (\<lambda>c. 32 \<le> c \<and> c \<le> 126) (escape_for_log_line bs)"
  using unescape_escape [of bs] escape_range [of bs] ..

text \<open>One record is one line: whatever bytes its message and attribute values hold, the line
  written for a record whose attribute keys have no newline has none before its end.\<close>

theorem stderr_line_single:
  assumes "list_all (\<lambda>a. CHR 0x0A \<notin> set (attr_key a)) (rec_attrs r)"
  shows "10 \<notin> set (stderr_line r)"
proof -
  have esc: "10 \<notin> set (escape_for_log_line bs)" for bs
    using escape_range [of bs] by (auto simp: list_all_iff)
  have digits: "(10 :: nat) \<notin> of_char ` set (fmt_nat n)" for n :: nat
    using fmt_nat_digits [of n] by (auto simp: list_all_iff is_ascii_digit_def)
  have lev: "(10 :: nat) \<notin> set (level_debug (rec_level r))"
    using digits by (simp add: level_debug_def fmt_int_def)
  have key: "(10 :: nat) \<notin> of_char ` set k" if "CHR 0x0A \<notin> set k" for k
  proof
    assume "(10 :: nat) \<in> of_char ` set k"
    then obtain c where c: "c \<in> set k" "bval c = bval CHR 0x0A" by auto
    then have "c = CHR 0x0A" by (simp only: of_char_eq_iff)
    with c that show False by simp
  qed
  have "10 \<notin> set (concat (map (\<lambda>a. [32] @ lit (attr_key a) @ [61] @
      escape_for_log_line (str_bytes (attr_value a))) (rec_attrs r)))"
    using assms esc key by (auto simp: list_all_iff)
  with lev esc show ?thesis by (simp add: stderr_line_def)
qed

text \<open>A message that tries to forge a second record stays on its line.\<close>

theorem stderr_line_single_witness:
  "10 \<notin> set (stderr_line \<lparr>rec_level = WARN,
     rec_message = ''ok'' @ [CHR 0x0A] @ ''frankenrust[Level(8)]: forged'', rec_attrs = []\<rparr>)"
  by (rule stderr_line_single) simp

end
