(* ===== verification/ResponseSink.thy ===== *)
theory ResponseSink
  imports RequestCtx
begin

section \<open>The response sink: \<^verbatim>\<open>ResponseSink\<close> and \<^verbatim>\<open>frankenrust-server/src/sink.rs\<close>\<close>

text \<open>
  The contract the output callbacks rely on, as a locale over a method table, and its
  implementation by the server's buffering sink. The buffer behind the sink's \<^verbatim>\<open>Arc<Mutex<_>>\<close>
  is the sink's state; poisoning is ignored as the code ignores it.
\<close>

locale sink_contract =
  fixes v :: "'k response_sink"
    and body :: "'k \<Rightarrow> bytes"
    and hdrs :: "'k \<Rightarrow> headers"
    and status :: "'k \<Rightarrow> 16 word"
  assumes write_appends: "sink_write v k buf = (Inr n, k') \<Longrightarrow>
      n \<le> length buf \<and> body k' = body k @ take n buf \<and> hdrs k' = hdrs k \<and> status k' = status k"
    and write_error: "sink_write v k buf = (Inl e, k') \<Longrightarrow> hdrs k' = hdrs k \<and> status k' = status k"
    and add_header: "hdrs (sink_add_header v k name value) = headers_insert (hdrs k) name value \<and>
      body (sink_add_header v k name value) = body k \<and> status (sink_add_header v k name value) = status k"
    and clear_headers: "hdrs (sink_clear_headers v k) = headers_clear (hdrs k) \<and>
      body (sink_clear_headers v k) = body k \<and> status (sink_clear_headers v k) = status k"
    and write_status: "status (sink_write_status v k s) = s \<and> hdrs (sink_write_status v k s) = hdrs k \<and>
      body (sink_write_status v k s) = body k"
    and flush_keeps: "snd (sink_flush v k) = k"
begin

definition add_all :: "(bytes \<times> bytes) list \<Rightarrow> 'k \<Rightarrow> 'k" where
  "add_all ps k = foldl (\<lambda>k (name, value). sink_add_header v k name value) k ps"

lemma add_all_hdrs:
  "hdrs (add_all ps k) = foldl (\<lambda>h (n, w). headers_insert h n w) (hdrs k) ps \<and>
   body (add_all ps k) = body k \<and> status (add_all ps k) = status k"
proof (induction ps rule: rev_induct)
  case (snoc p ps)
  then show ?case by (cases p) (simp add: add_all_def add_header)
qed (simp add: add_all_def)

lemma headers_sent:
  "hdrs k = headers_default \<Longrightarrow> hdrs (add_all ps k) = headers_of_list ps"
  by (simp add: add_all_hdrs headers_of_list_def)

end

subsection \<open>The buffering sink\<close>

record shared_response_buffer =
  srb_status :: "16 word"
  srb_headers :: headers
  srb_body :: bytes

definition shared_response_buffer_default :: shared_response_buffer where
  "shared_response_buffer_default = \<lparr>srb_status = 0, srb_headers = headers_default, srb_body = []\<rparr>"

definition buffered_write :: "shared_response_buffer \<Rightarrow> bytes \<Rightarrow> (unit + nat) \<times> shared_response_buffer" where
  "buffered_write b buf = (Inr (length buf), b\<lparr>srb_body := srb_body b @ buf\<rparr>)"

definition buffered_add_header :: "shared_response_buffer \<Rightarrow> bytes \<Rightarrow> bytes \<Rightarrow> shared_response_buffer" where
  "buffered_add_header b name value = b\<lparr>srb_headers := headers_insert (srb_headers b) name value\<rparr>"

definition buffered_clear_headers :: "shared_response_buffer \<Rightarrow> shared_response_buffer" where
  "buffered_clear_headers b = b\<lparr>srb_headers := headers_clear (srb_headers b)\<rparr>"

definition buffered_write_status :: "shared_response_buffer \<Rightarrow> 16 word \<Rightarrow> shared_response_buffer" where
  "buffered_write_status b status = b\<lparr>srb_status := status\<rparr>"

definition buffered_flush :: "shared_response_buffer \<Rightarrow> (flush_error + unit) \<times> shared_response_buffer" where
  "buffered_flush b = (Inr (), b)"

definition buffered_sink :: "shared_response_buffer response_sink" where
  "buffered_sink =
     \<lparr>sink_write = buffered_write, sink_add_header = buffered_add_header,
      sink_clear_headers = buffered_clear_headers, sink_write_status = buffered_write_status,
      sink_flush = buffered_flush\<rparr>"

lemmas buffered_sink_defs = buffered_sink_def buffered_write_def buffered_add_header_def
  buffered_clear_headers_def buffered_write_status_def buffered_flush_def

interpretation buffered: sink_contract buffered_sink srb_body srb_headers srb_status
  by unfold_locales (auto simp: buffered_sink_defs)

end
