(* ===== verification/Output.thy ===== *)
theory Output
  imports ContextSlots ResponseSink Log
begin

section \<open>Output callbacks: \<^verbatim>\<open>callbacks/output.rs\<close>\<close>

text \<open>
  \<^verbatim>\<open>go_ub_write\<close>, \<^verbatim>\<open>go_write_headers\<close> and \<^verbatim>\<open>go_sapi_flush\<close>. Each takes the sink's method table, the
  host's flags and the slot table, and gives its C return value with the log records it emitted.
  A C buffer with its length is a byte list, PHP's header list the list of its raw lines.
\<close>

subsection \<open>Lossy UTF-8\<close>

text \<open>
  \<^verbatim>\<open>String::from_utf8_lossy\<close>: every maximal ill-formed subsequence becomes one U+FFFD.
  \<open>invalid_width\<close> is the length of the one at the start of a slice no sequence starts.
\<close>

fun invalid_width :: "bytes \<Rightarrow> nat" where
  "invalid_width [] = 0"
| "invalid_width [b0] = 1"
| "invalid_width (b0 # b1 # bs) =
     (let n0 = bval b0; n1 = bval b1 in
      if 224 \<le> n0 \<and> n0 < 240 then
        (if cont b1 \<and> (n0 \<noteq> 224 \<or> 160 \<le> n1) \<and> (n0 \<noteq> 237 \<or> n1 < 160) then 2 else 1)
      else if 240 \<le> n0 \<and> n0 < 245 then
        (if cont b1 \<and> (n0 \<noteq> 240 \<or> 144 \<le> n1) \<and> (n0 \<noteq> 244 \<or> n1 < 144) then
           (case bs of b2 # _ \<Rightarrow> if cont b2 then 3 else 2 | [] \<Rightarrow> 2)
         else 1)
      else 1)"

function from_utf8_lossy :: "bytes \<Rightarrow> bytes" where
  "from_utf8_lossy bs =
     (if bs = [] then []
      else (case utf8_next bs of
          Some (c, w) \<Rightarrow> if w = 0 then bs else take w bs @ from_utf8_lossy (drop w bs)
        | None \<Rightarrow> utf8_encode 65533 @ from_utf8_lossy (drop (max 1 (invalid_width bs)) bs)))"
  by pat_completeness auto
termination
  by (relation "measure length") (auto simp: not_less)

declare from_utf8_lossy.simps [simp del]

lemma from_utf8_lossy_valid: "from_utf8 bs = Utf8_Ok cs \<Longrightarrow> from_utf8_lossy bs = bs"
proof (induction bs arbitrary: cs rule: length_induct)
  case (1 bs)
  show ?case
  proof (cases "bs = []")
    case True
    then show ?thesis by (simp add: from_utf8_lossy.simps)
  next
    case False
    obtain cs n where p: "utf8_prefix bs = (cs, n)" by fastforce
    with "1.prems" have n: "n = length bs" by (auto simp: from_utf8_def split: if_splits)
    obtain c w where cw: "utf8_next bs = Some (c, w)"
    proof (cases "utf8_next bs")
      case None
      with p n False show thesis by (simp add: utf8_prefix.simps [of bs])
    qed auto
    have w: "0 < w" "w \<le> length bs" using utf8_next_width [OF cw] by simp_all
    obtain cs' n' where p': "utf8_prefix (drop w bs) = (cs', n')" by fastforce
    with p cw w have "n = w + n'" by (auto simp: utf8_prefix.simps [of bs])
    with n w have "from_utf8 (drop w bs) = Utf8_Ok cs'" by (simp add: from_utf8_def p')
    with "1.IH" w False have "from_utf8_lossy (drop w bs) = drop w bs" by simp
    with cw w False show ?thesis by (simp add: from_utf8_lossy.simps [of bs])
  qed
qed

subsection \<open>Writing\<close>

record go_ub_write_return =
  ub_r0 :: nat
  ub_r1 :: bool

definition log_worker_output :: "bytes \<Rightarrow> log_record list" where
  "log_worker_output buf = log INFO (\<lambda>_. buf) (\<lambda>_. [])"

type_synonym ('s, 'k) slots_table = "('s, 'k) request_context slot_state"

definition ub_write_closure ::
  "'k response_sink \<Rightarrow> host \<Rightarrow> rstring \<Rightarrow> bytes \<Rightarrow> ('s, 'k) request_context option \<Rightarrow>
   (slot_error + go_ub_write_return \<times> log_record list) \<times> ('s, 'k) request_context option"
where
  "ub_write_closure v w error_text buf slot =
     (case slot of
        None \<Rightarrow> (Inr (\<lparr>ub_r0 = length buf, ub_r1 = False\<rparr>, log_worker_output buf), None)
      | Some ctx \<Rightarrow>
          if ctx_is_done ctx then
            (Inr (\<lparr>ub_r0 = length buf, ub_r1 = ctx_client_had_closed ctx\<rparr>, []), Some ctx)
          else
            (case ctx_response_sink ctx of
               Some sink \<Rightarrow>
                 (let (res, sink') = sink_write v sink buf;
                      ctx = ctx\<lparr>ctx_response_sink := Some sink'\<rparr>
                  in case res of
                       Inr written \<Rightarrow>
                         (Inr (\<lparr>ub_r0 = written, ub_r1 = client_has_closed ctx w\<rparr>, []), Some ctx)
                     | Inl _ \<Rightarrow>
                         (Inr (\<lparr>ub_r0 = 0, ub_r1 = client_has_closed ctx w\<rparr>,
                            log DEBUG (\<lambda>_. ''write error'')
                              (\<lambda>_. [\<lparr>attr_key = ''error'', attr_value = error_text\<rparr>])), Some ctx))
             | None \<Rightarrow>
                 (Inr (\<lparr>ub_r0 = length buf, ub_r1 = client_has_closed ctx w\<rparr>, log_worker_output buf),
                  Some ctx)))"

definition go_ub_write ::
  "'k response_sink \<Rightarrow> host \<Rightarrow> rstring \<Rightarrow> nat \<Rightarrow> bytes \<Rightarrow> ('s, 'k) slots_table \<Rightarrow>
   (slot_error + go_ub_write_return \<times> log_record list) \<times> ('s, 'k) slots_table"
where
  "go_ub_write v w error_text thread_index buf s =
     slots_with_context_mut thread_index (pure_closure (ub_write_closure v w error_text buf)) s"

subsection \<open>Headers\<close>

fun skip_spaces :: "bytes \<Rightarrow> bytes" where
  "skip_spaces [] = []"
| "skip_spaces (b # bs) = (if b = CHR '' '' then skip_spaces bs else b # bs)"

definition split_header :: "bytes \<Rightarrow> (bytes \<times> bytes) option" where
  "split_header raw =
     (case position (\<lambda>b. b = CHR '':'') raw of
        None \<Rightarrow> None
      | Some colon \<Rightarrow>
          if colon = 0 then None
          else (let key = take colon raw; value_start = colon + 1
                in Some (key, skip_spaces (drop value_start raw))))"

definition clamp_status :: "32 word \<Rightarrow> 16 word \<times> bool" where
  "clamp_status raw =
     (if 100 \<le> sint raw \<and> sint raw \<le> 999 then (ucast raw, False) else (500, True))"

text \<open>The walk over PHP's list, one line at a time.\<close>

fun write_header_lines :: "'k response_sink \<Rightarrow> bytes list \<Rightarrow> 'k \<Rightarrow> 'k \<times> log_record list" where
  "write_header_lines v [] sink = (sink, [])"
| "write_header_lines v (raw # rest) sink =
     (let (sink', logs) =
        (case split_header raw of
           Some (name, value) \<Rightarrow> (sink_add_header v sink (from_utf8_lossy name) value, [])
         | None \<Rightarrow> (sink, log DEBUG (\<lambda>_. ''invalid header: '' @ raw) (\<lambda>_. [])))
      in let (sink'', logs') = write_header_lines v rest sink' in (sink'', logs @ logs'))"

definition write_headers_closure ::
  "'k response_sink \<Rightarrow> 32 word \<Rightarrow> bytes list \<Rightarrow> ('s, 'k) request_context option \<Rightarrow>
   (slot_error + bool \<times> log_record list) \<times> ('s, 'k) request_context option"
where
  "write_headers_closure v status headers slot =
     (case slot of
        None \<Rightarrow> (Inr (True, []), None)
      | Some ctx \<Rightarrow>
          if ctx_is_done ctx then (Inr (False, []), Some ctx)
          else
            (case ctx_response_sink ctx of
               None \<Rightarrow> (Inr (True, []), Some ctx)
             | Some sink \<Rightarrow>
                 (let (sink, logs) = write_header_lines v headers sink;
                      (effective_status, was_clamped) = clamp_status status;
                      warn = (if was_clamped then
                                log WARN (\<lambda>_. ''Invalid response status code'')
                                  (\<lambda>_. [\<lparr>attr_key = ''status_code'', attr_value = lit (fmt_int (sint status))\<rparr>])
                              else []);
                      sink = sink_write_status v sink effective_status;
                      sink = (if effective_status < 200 then sink_clear_headers v sink else sink)
                  in (Inr (True, logs @ warn), Some (ctx\<lparr>ctx_response_sink := Some sink\<rparr>)))))"

definition go_write_headers ::
  "'k response_sink \<Rightarrow> nat \<Rightarrow> 32 word \<Rightarrow> bytes list \<Rightarrow> ('s, 'k) slots_table \<Rightarrow>
   (slot_error + bool \<times> log_record list) \<times> ('s, 'k) slots_table"
where
  "go_write_headers v thread_index status headers s =
     slots_with_context_mut thread_index (pure_closure (write_headers_closure v status headers)) s"

subsection \<open>Flushing\<close>

definition sapi_flush_closure ::
  "'k response_sink \<Rightarrow> host \<Rightarrow> rstring \<Rightarrow> ('s, 'k) request_context option \<Rightarrow>
   (slot_error + bool \<times> log_record list) \<times> ('s, 'k) request_context option"
where
  "sapi_flush_closure v w error_text slot =
     (case slot of
        None \<Rightarrow> (Inr (False, []), None)
      | Some ctx \<Rightarrow>
          (case ctx_response_sink ctx of
             None \<Rightarrow> (Inr (False, []), Some ctx)
           | Some sink \<Rightarrow>
               if client_has_closed ctx w \<and> \<not> ctx_is_done ctx then (Inr (True, []), Some ctx)
               else
                 (let (res, sink') = sink_flush v sink;
                      logs = (case res of
                          Inr _ \<Rightarrow> []
                        | Inl Not_A_Flusher \<Rightarrow>
                            log WARN (\<lambda>_. ''the current responseWriter is not a flusher, if you are not using a custom build, please report this issue'')
                              (\<lambda>_. [])
                        | Inl Flush_Io \<Rightarrow>
                            log DEBUG (\<lambda>_. ''flush error'')
                              (\<lambda>_. [\<lparr>attr_key = ''error'', attr_value = error_text\<rparr>]))
                  in (Inr (False, logs), Some (ctx\<lparr>ctx_response_sink := Some sink'\<rparr>)))))"

definition go_sapi_flush ::
  "'k response_sink \<Rightarrow> host \<Rightarrow> rstring \<Rightarrow> nat \<Rightarrow> ('s, 'k) slots_table \<Rightarrow>
   (slot_error + bool \<times> log_record list) \<times> ('s, 'k) slots_table"
where
  "go_sapi_flush v w error_text thread_index s =
     slots_with_context_mut thread_index (pure_closure (sapi_flush_closure v w error_text)) s"

subsection \<open>Properties\<close>

lemma skip_spaces_dropWhile: "skip_spaces bs = dropWhile (\<lambda>b. b = CHR '' '') bs"
  by (induction bs) auto

lemma takeWhile_replicate: "\<exists>n. takeWhile (\<lambda>b. b = c) bs = replicate n c"
  by (rule exI [of _ "length (takeWhile (\<lambda>b. b = c) bs)"], rule replicate_length_same [symmetric])
    (auto dest: set_takeWhileD)

lemma split_header_cases:
  obtains (none) "CHR '':'' \<notin> set raw" "split_header raw = None"
    | (empty) rest where "raw = CHR '':'' # rest" "split_header raw = None"
    | (some) key rest where "raw = key @ CHR '':'' # rest" "key \<noteq> []" "CHR '':'' \<notin> set key"
        "split_header raw = Some (key, skip_spaces rest)"
proof (cases "position (\<lambda>b. b = CHR '':'') raw")
  case None
  then have "CHR '':'' \<notin> set raw" by (auto simp: position_None_iff)
  moreover have "split_header raw = None" using None by (simp add: split_header_def)
  ultimately show thesis by (rule none)
next
  case (Some i)
  then obtain key rest where raw: "raw = key @ CHR '':'' # rest" "i = length key" "\<forall>x \<in> set key. x \<noteq> CHR '':''"
    unfolding position_split by blast
  show thesis
  proof (cases "key = []")
    case True
    with Some raw show thesis by (intro empty [of rest]) (simp_all add: split_header_def)
  next
    case False
    with Some raw show thesis by (intro some [of key rest]) (auto simp: split_header_def)
  qed
qed

text \<open>\<^verbatim>\<open>split_header\<close> splits a raw header line at its first colon and drops the spaces after it: on
  success the line is the name, a colon, some spaces and the value, the name being the non-empty
  text before the first colon and the value starting with no space; it fails exactly on a line with
  no colon or with its first colon in front.\<close>

theorem split_header_spec:
  "(case split_header raw of
      Some (name, value) \<Rightarrow>
        (\<exists>n. raw = name @ CHR '':'' # replicate n (CHR '' '') @ value) \<and> name \<noteq> [] \<and>
        name = takeWhile (\<lambda>b. b \<noteq> CHR '':'') raw \<and> dropWhile (\<lambda>b. b = CHR '' '') value = value
    | None \<Rightarrow> takeWhile (\<lambda>b. b \<noteq> CHR '':'') raw \<in> {raw, []})"
proof (cases raw rule: split_header_cases)
  case none
  then have "takeWhile (\<lambda>b. b \<noteq> CHR '':'') raw = raw" by (auto simp: takeWhile_eq_all_conv)
  with none show ?thesis by simp
next
  case (empty rest)
  then show ?thesis by simp
next
  case (some key rest)
  obtain n where "takeWhile (\<lambda>b. b = CHR '' '') rest = replicate n (CHR '' '')"
    using takeWhile_replicate [of "CHR '' ''" rest] ..
  then have "replicate n (CHR '' '') @ skip_spaces rest = rest"
    by (metis skip_spaces_dropWhile takeWhile_dropWhile_id)
  with some have "raw = key @ CHR '':'' # replicate n (CHR '' '') @ skip_spaces rest" by simp
  moreover have "takeWhile (\<lambda>b. b \<noteq> CHR '':'') raw = key"
    using some by (simp add: takeWhile_append takeWhile_eq_all_conv [THEN iffD2])
  ultimately show ?thesis using some by (auto simp: skip_spaces_dropWhile)
qed

text \<open>\<^verbatim>\<open>clamp_status\<close> always yields a status in 100..=999: the given one, unchanged, when it is in that
  range as a signed 32-bit integer, and 500 with the clamping reported otherwise.\<close>

theorem clamp_status_range:
  "(let (status, clamped) = clamp_status raw in
     100 \<le> uint status \<and> uint status \<le> 999 \<and> clamped = (sint raw < 100 \<or> 999 < sint raw) \<and>
     uint status = (if clamped then 500 else sint raw))"
proof (cases "100 \<le> sint raw \<and> sint raw \<le> 999")
  case True
  then have "uint raw = sint raw"
    by (simp add: uint_sint take_bit_int_eq_self)
  then have "uint (ucast raw :: 16 word) = sint raw"
    using True by (simp add: unsigned_ucast_eq take_bit_int_eq_self)
  with True show ?thesis by (simp add: clamp_status_def)
qed (auto simp: clamp_status_def)

definition header_pairs :: "bytes list \<Rightarrow> (bytes \<times> bytes) list" where
  "header_pairs lines =
     List.map_filter (\<lambda>raw. map_option (\<lambda>(name, value). (from_utf8_lossy name, value)) (split_header raw)) lines"

lemma write_header_lines_adds:
  "fst (write_header_lines v lines sink) =
     foldl (\<lambda>k (name, value). sink_add_header v k name value) sink (header_pairs lines)"
proof (induction lines arbitrary: sink)
  case (Cons raw lines)
  then show ?case
    by (cases "split_header raw") (simp_all add: header_pairs_def List.map_filter_simps split_def)
qed (simp add: header_pairs_def List.map_filter_simps)

lemma write_headers_live:
  assumes "\<not> holding_slot_lock s" "slots_abs s i = Some ctx" "\<not> ctx_is_done ctx"
    and "ctx_response_sink ctx = Some b" "srb_headers b = headers_default"
  shows "\<exists>s' logs. go_write_headers buffered_sink i status lines s = (Inr (True, logs), s') \<and>
     slots_abs s' = (slots_abs s)(i \<mapsto> ctx\<lparr>ctx_response_sink := Some
       \<lparr>srb_status = fst (clamp_status status),
        srb_headers = (if uint (fst (clamp_status status)) < 200 then headers_default
                       else headers_of_list (header_pairs lines)),
        srb_body = srb_body b\<rparr>\<rparr>) \<and> \<not> holding_slot_lock s'"
proof -
  obtain sink logs where sl: "write_header_lines buffered_sink lines b = (sink, logs)" by fastforce
  have sink: "sink = buffered.add_all (header_pairs lines) b"
    using write_header_lines_adds [of buffered_sink lines b] sl by (simp add: buffered.add_all_def)
  have fields: "srb_headers sink = headers_of_list (header_pairs lines)" "srb_body sink = srb_body b"
    using buffered.headers_sent [OF assms(5)] buffered.add_all_hdrs by (simp_all add: sink)
  obtain st cl where st: "clamp_status status = (st, cl)" by fastforce
  define sink' where "sink' = (if st < 200 then sink_clear_headers buffered_sink (sink_write_status buffered_sink sink st)
      else sink_write_status buffered_sink sink st)"
  have "sink' = \<lparr>srb_status = st, srb_headers = (if uint st < 200 then headers_default
      else headers_of_list (header_pairs lines)), srb_body = srb_body b\<rparr>"
    using fields by (cases sink) (simp add: sink'_def buffered_sink_defs headers_clear_def headers_default_def word_less_def)
  moreover obtain s' where "go_write_headers buffered_sink i status lines s =
      (fst (write_headers_closure buffered_sink status lines (slots_abs s i)), s')"
      "slots_abs s' = (slots_abs s)(i := snd (write_headers_closure buffered_sink status lines (slots_abs s i)))"
      "\<not> holding_slot_lock s'"
    unfolding go_write_headers_def by (rule with_context_mut_pure [OF assms(1)])
  ultimately show ?thesis
    using assms sl st by (simp add: write_headers_closure_def Let_def sink'_def)
qed

text \<open>C25. What PHP's headers do to the server's response: on a live request with a fresh header map,
  \<^verbatim>\<open>go_write_headers\<close> succeeds, stores exactly the well-formed lines in order under their canonical
  names, the clamped status, and leaves the body; for an informational status the header map is
  empty again afterwards, so early hints are not repeated with the final response.\<close>

theorem go_write_headers_response:
  assumes "\<not> holding_slot_lock s" "slots_abs s i = Some ctx" "\<not> ctx_is_done ctx"
    and "ctx_response_sink ctx = Some b" "srb_headers b = headers_default"
  shows "\<exists>s' logs. go_write_headers buffered_sink i status lines s = (Inr (True, logs), s') \<and>
     slots_abs s' = (slots_abs s)(i \<mapsto> ctx\<lparr>ctx_response_sink := Some
       \<lparr>srb_status = fst (clamp_status status),
        srb_headers = (if uint (fst (clamp_status status)) < 200 then headers_default
                       else headers_of_list (header_pairs lines)),
        srb_body = srb_body b\<rparr>\<rparr>)"
  using write_headers_live [OF assms] by blast

text \<open>An early-hints response on a table with one live context.\<close>

definition live_context :: "(cursor, shared_response_buffer) request_context" where
  "live_context = (context_new ''/srv'' None (Some (request_new 0 ''GET'' ''/a.php'')) signal_none)
     \<lparr>ctx_response_sink := Some shared_response_buffer_default\<rparr>"

definition live_table :: "(cursor, shared_response_buffer) slots_table" where
  "live_table = \<lparr>slots = [Some live_context], holding_slot_lock = False\<rparr>"

lemma live_table_simps [simp]:
  "\<not> holding_slot_lock live_table" "slots_abs live_table 0 = Some live_context"
  "\<not> ctx_is_done live_context" "ctx_response_sink live_context = Some shared_response_buffer_default"
  "ctx_request live_context = Some (request_new 0 ''GET'' ''/a.php'')"
  by (simp_all add: live_table_def slots_abs_def live_context_def context_new_def Let_def)

theorem go_write_headers_response_witness:
  "\<exists>s' logs. go_write_headers buffered_sink 0 103 [''Link: </a.css>''] live_table = (Inr (True, logs), s') \<and>
     slots_abs s' 0 = Some (live_context\<lparr>ctx_response_sink := Some
       \<lparr>srb_status = 103, srb_headers = headers_default, srb_body = []\<rparr>\<rparr>)"
proof -
  have h: "srb_headers shared_response_buffer_default = headers_default"
    by (simp add: shared_response_buffer_default_def)
  have c: "clamp_status 103 = (103, False)" by (simp add: clamp_status_def)
  show ?thesis
    using go_write_headers_response [of live_table 0 live_context shared_response_buffer_default 103
        "[''Link: </a.css>'']", OF live_table_simps(1-4) h]
    by (auto simp: c shared_response_buffer_default_def)
qed

text \<open>A sequence of writes by the script, one call after the other.\<close>

fun ub_writes ::
  "'k response_sink \<Rightarrow> host \<Rightarrow> rstring \<Rightarrow> nat \<Rightarrow> bytes list \<Rightarrow> ('s, 'k) slots_table \<Rightarrow>
   (slot_error + go_ub_write_return \<times> log_record list) list \<times> ('s, 'k) slots_table"
where
  "ub_writes v w e i [] s = ([], s)"
| "ub_writes v w e i (buf # bufs) s =
     (let (r, s1) = go_ub_write v w e i buf s; (rs, s2) = ub_writes v w e i bufs s1 in (r # rs, s2))"

lemma go_ub_write_live:
  assumes "\<not> holding_slot_lock s" "slots_abs s i = Some ctx" "\<not> ctx_is_done ctx"
    "ctx_response_sink ctx = Some b"
  obtains s' where "go_ub_write buffered_sink w e i buf s =
      (Inr (\<lparr>ub_r0 = length buf, ub_r1 = client_has_closed ctx w\<rparr>, []), s')"
    "slots_abs s' = (slots_abs s)(i \<mapsto> ctx\<lparr>ctx_response_sink := Some (b\<lparr>srb_body := srb_body b @ buf\<rparr>)\<rparr>)"
    "\<not> holding_slot_lock s'"
proof -
  obtain s' where "go_ub_write buffered_sink w e i buf s =
      (fst (ub_write_closure buffered_sink w e buf (slots_abs s i)), s')"
      "slots_abs s' = (slots_abs s)(i := snd (ub_write_closure buffered_sink w e buf (slots_abs s i)))"
      "\<not> holding_slot_lock s'"
    unfolding go_ub_write_def by (rule with_context_mut_pure [OF assms(1)])
  with assms show thesis
    by (intro that [of s']) (simp_all add: ub_write_closure_def buffered_sink_defs client_has_closed_def)
qed

lemma ub_writes_live:
  assumes "\<not> holding_slot_lock s" "slots_abs s i = Some ctx" "\<not> ctx_is_done ctx"
    and "ctx_response_sink ctx = Some b"
  shows "\<exists>s'. ub_writes buffered_sink w e i bufs s =
       (map (\<lambda>buf. Inr (\<lparr>ub_r0 = length buf, ub_r1 = client_has_closed ctx w\<rparr>, [])) bufs, s') \<and>
     slots_abs s' = (slots_abs s)(i \<mapsto> ctx\<lparr>ctx_response_sink :=
       Some (b\<lparr>srb_body := srb_body b @ concat bufs\<rparr>)\<rparr>) \<and> \<not> holding_slot_lock s'"
  using assms
proof (induction bufs arbitrary: s ctx b)
  case Nil
  then show ?case by (auto simp: fun_eq_iff)
next
  case (Cons buf bufs)
  obtain s1 where s1: "go_ub_write buffered_sink w e i buf s =
      (Inr (\<lparr>ub_r0 = length buf, ub_r1 = client_has_closed ctx w\<rparr>, []), s1)"
    "slots_abs s1 = (slots_abs s)(i \<mapsto> ctx\<lparr>ctx_response_sink := Some (b\<lparr>srb_body := srb_body b @ buf\<rparr>)\<rparr>)"
    "\<not> holding_slot_lock s1"
    by (rule go_ub_write_live [OF Cons.prems])
  let ?ctx = "ctx\<lparr>ctx_response_sink := Some (b\<lparr>srb_body := srb_body b @ buf\<rparr>)\<rparr>"
  have same: "client_has_closed ?ctx w = client_has_closed ctx w" by (simp add: client_has_closed_def)
  from Cons.IH [OF s1(3), of ?ctx "b\<lparr>srb_body := srb_body b @ buf\<rparr>"] Cons.prems s1
  show ?case by (auto simp: same fun_eq_iff)
qed

text \<open>The body of the response is the concatenation of what the script wrote: on a live request,
  any sequence of \<^verbatim>\<open>go_ub_write\<close> calls appends exactly the written bytes to the server's buffer in
  order, touches neither status nor headers nor another thread's context, and reports every write
  as complete together with the client's current connection state.\<close>

theorem ub_writes_concat:
  assumes "\<not> holding_slot_lock s" "slots_abs s i = Some ctx" "\<not> ctx_is_done ctx"
    and "ctx_response_sink ctx = Some b"
  shows "\<exists>s'. ub_writes buffered_sink w e i bufs s =
       (map (\<lambda>buf. Inr (\<lparr>ub_r0 = length buf, ub_r1 = client_has_closed ctx w\<rparr>, [])) bufs, s') \<and>
     slots_abs s' = (slots_abs s)(i \<mapsto> ctx\<lparr>ctx_response_sink :=
       Some (b\<lparr>srb_body := srb_body b @ concat bufs\<rparr>)\<rparr>)"
  using ub_writes_live [OF assms] by blast

text \<open>Two writes, ''Hello, '' and ''world'', of a live request.\<close>

theorem ub_writes_concat_witness:
  "\<exists>rs s'. ub_writes buffered_sink \<lparr>host_flags = (\<lambda>_. False), host_released = []\<rparr> [] 0
       [''Hello, '', ''world''] live_table = (rs, s') \<and>
     slots_abs s' 0 = Some (live_context\<lparr>ctx_response_sink :=
       Some (shared_response_buffer_default\<lparr>srb_body := ''Hello, world''\<rparr>)\<rparr>)"
  using ub_writes_concat [of live_table 0 live_context shared_response_buffer_default
      "\<lparr>host_flags = (\<lambda>_. False), host_released = []\<rparr>" "[]" "[''Hello, '', ''world'']",
      OF live_table_simps(1-4)]
  by (auto simp: shared_response_buffer_default_def)

text \<open>C15. Nothing reaches the response after the request is finished: once its context is done, a write
  is discarded and reported as complete with the connection state recorded at closing, whatever the
  flags say now, sending headers is refused, and both leave every slot as it was, for any sink.\<close>

theorem finished_request_is_silent:
  assumes "\<not> holding_slot_lock s" "slots_abs s i = Some ctx" "ctx_is_done ctx"
  shows "\<exists>s1 s2. go_ub_write v w e i buf s =
       (Inr (\<lparr>ub_r0 = length buf, ub_r1 = ctx_client_had_closed ctx\<rparr>, []), s1) \<and>
     slots_abs s1 = slots_abs s \<and>
     go_write_headers v i status lines s = (Inr (False, []), s2) \<and> slots_abs s2 = slots_abs s"
proof -
  obtain s1 where "go_ub_write v w e i buf s = (fst (ub_write_closure v w e buf (slots_abs s i)), s1)"
      "slots_abs s1 = (slots_abs s)(i := snd (ub_write_closure v w e buf (slots_abs s i)))"
    unfolding go_ub_write_def by (rule with_context_mut_pure [OF assms(1)])
  moreover obtain s2 where "go_write_headers v i status lines s =
        (fst (write_headers_closure v status lines (slots_abs s i)), s2)"
      "slots_abs s2 = (slots_abs s)(i := snd (write_headers_closure v status lines (slots_abs s i)))"
    unfolding go_write_headers_def by (rule with_context_mut_pure [OF assms(1)])
  ultimately show ?thesis
    using assms by (simp add: ub_write_closure_def write_headers_closure_def fun_upd_idem)
qed

text \<open>A request closed while the client was connected, written to after it has gone.\<close>

theorem finished_request_is_silent_witness:
  "let (ctx, w) = close_context live_context \<lparr>host_flags = (\<lambda>_. False), host_released = []\<rparr>;
       s = \<lparr>slots = [Some ctx], holding_slot_lock = False\<rparr>
   in fst (go_ub_write buffered_sink (w\<lparr>host_flags := (\<lambda>_. True)\<rparr>) [] 0 ''late'' s) =
        Inr (\<lparr>ub_r0 = length ''late'', ub_r1 = False\<rparr>, [])"
proof -
  let ?ctx = "fst (close_context live_context \<lparr>host_flags = (\<lambda>_. False), host_released = []\<rparr>)"
  let ?s = "\<lparr>slots = [Some ?ctx], holding_slot_lock = False\<rparr>"
  have d: "ctx_is_done ?ctx" "\<not> ctx_client_had_closed ?ctx"
    by (simp_all add: close_context_def signal_fire_def live_context_def context_new_def
        client_has_closed_def signal_none_def Let_def split_def)
  have "\<not> holding_slot_lock ?s" "slots_abs ?s 0 = Some ?ctx" by (simp_all add: slots_abs_def)
  from finished_request_is_silent [OF this d(1), of buffered_sink
      "(snd (close_context live_context \<lparr>host_flags = (\<lambda>_. False), host_released = []\<rparr>))\<lparr>host_flags := (\<lambda>_. True)\<rparr>"
      "[]" "''late''" 200 "[]"] d
  show ?thesis by (auto simp: Let_def split_def)
qed

end
