(* ===== verification/Input.thy ===== *)
theory Input
  imports ContextSlots Log
begin

section \<open>Input callbacks: \<^verbatim>\<open>callbacks/input.rs\<close>\<close>

text \<open>
  \<^verbatim>\<open>go_read_post\<close>, \<^verbatim>\<open>go_read_cookies\<close> and \<^verbatim>\<open>go_apache_request_headers\<close>. The C heap is a parameter: whether
  \<^verbatim>\<open>malloc\<close> of a size succeeds. A C allocation is its bytes, NULL is \<open>None\<close>.
\<close>

subsection \<open>The request body\<close>

text \<open>Outside the slot result, \<open>None\<close> is a read that does not return.\<close>

definition read_post_closure ::
  "'s read_fn \<Rightarrow> bytes \<Rightarrow> ('s, 'k) request_context option \<Rightarrow>
   (slot_error + (nat \<times> bytes) option) \<times> ('s, 'k) request_context option"
where
  "read_post_closure read buf slot =
     (let has_sink = (case slot of None \<Rightarrow> False | Some ctx \<Rightarrow> ctx_response_sink ctx \<noteq> None)
      in if \<not> has_sink then (Inr (Some (0, buf)), slot)
         else
           (case slot of
              None \<Rightarrow> (Inl Closure_Panic, slot)
            | Some ctx \<Rightarrow>
                (case ctx_request ctx of
                   None \<Rightarrow> (Inr (Some (0, buf)), slot)
                 | Some request \<Rightarrow>
                     (case body_fill read (req_body request) buf of
                        None \<Rightarrow> (Inr None, slot)
                      | Some (n, buf', body') \<Rightarrow>
                          (Inr (Some (n, buf')),
                           Some (ctx\<lparr>ctx_request := Some (request\<lparr>req_body := body'\<rparr>)\<rparr>))))))"

definition go_read_post ::
  "'s read_fn \<Rightarrow> nat \<Rightarrow> bytes \<Rightarrow> ('s, 'k) request_context slot_state \<Rightarrow>
   (slot_error + (nat \<times> bytes) option) \<times> ('s, 'k) request_context slot_state"
where
  "go_read_post read thread_index buf s =
     (if length buf = 0 then (Inr (Some (0, buf)), s)
      else slots_with_context_mut thread_index (pure_closure (read_post_closure read buf)) s)"

subsection \<open>Cookies\<close>

fun join_values_loop :: "bytes \<Rightarrow> nat \<Rightarrow> bytes list \<Rightarrow> bytes \<Rightarrow> bytes" where
  "join_values_loop sep i [] joined = joined"
| "join_values_loop sep i (value # values) joined =
     join_values_loop sep (Suc i) values ((if 0 < i then joined @ sep else joined) @ value)"

definition join_values :: "bytes list \<Rightarrow> bytes \<Rightarrow> bytes" where
  "join_values values sep = join_values_loop sep 0 values []"

definition malloc_c_string :: "(nat \<Rightarrow> bool) \<Rightarrow> bytes \<Rightarrow> bytes option" where
  "malloc_c_string malloc_ok bs =
     (let n = length bs + 1
      in if 2 ^ 64 \<le> n then None
         else if \<not> malloc_ok n then None
         else Some (bs @ [CHR 0x00]))"

definition read_cookies_closure ::
  "(nat \<Rightarrow> bool) \<Rightarrow> ('s, 'k) request_context option \<Rightarrow> slot_error + bytes option"
where
  "read_cookies_closure malloc_ok slot =
     (case slot of
        None \<Rightarrow> Inr None
      | Some ctx \<Rightarrow>
          (case ctx_request ctx of
             None \<Rightarrow> Inr None
           | Some request \<Rightarrow>
               (let values = (case headers_get_all (req_headers request) ''Cookie'' of
                                Some vs \<Rightarrow> vs | None \<Rightarrow> []);
                    joined = join_values values ''; ''
                in if joined = [] then Inr None
                   else Inr (malloc_c_string malloc_ok (filter (\<lambda>b. b \<noteq> CHR 0x00) joined)))))"

definition go_read_cookies ::
  "(nat \<Rightarrow> bool) \<Rightarrow> nat \<Rightarrow> ('s, 'k) request_context slot_state \<Rightarrow>
   (slot_error + bytes option) \<times> ('s, 'k) request_context slot_state"
where
  "go_read_cookies malloc_ok thread_index s =
     slots_with_context thread_index (read_closure (read_cookies_closure malloc_ok)) s"

subsection \<open>Request headers for userland\<close>

text \<open>
  A \<^verbatim>\<open>go_string\<close> is a length and a pointer, 16 bytes aligned to 8. \<open>addr_of\<close> gives the address the
  allocator put a buffer at. The result is the buffer and the offset of the array in it.
\<close>

definition go_string_size :: nat where "go_string_size = 16"
definition go_string_align :: nat where "go_string_align = 8"

definition next_multiple_of :: "nat \<Rightarrow> nat \<Rightarrow> nat" where
  "next_multiple_of a m = (if a mod m = 0 then a else a + (m - a mod m))"

definition alloc_go_strings ::
  "(c_ptr \<Rightarrow> nat) \<Rightarrow> request_arena \<Rightarrow> nat \<Rightarrow> (c_ptr \<times> nat) \<times> request_arena"
where
  "alloc_go_strings addr_of arena count =
     (let align = go_string_align; size = count * go_string_size;
          scratch = replicate (size + align - 1) (CHR 0x00);
          (base, arena) = arena_alloc arena scratch;
          addr = addr_of base;
          aligned_addr = next_multiple_of addr align;
          offset = aligned_addr - addr
      in ((base, offset), arena))"

text \<open>The array's slots hold the strings written, in order.\<close>

record go_apache_request_headers_return =
  arh_r0 :: "((c_ptr \<times> nat) \<times> (nat \<times> c_ptr) list) option"
  arh_r1 :: nat

definition log_non_http_context :: "log_record list" where
  "log_non_http_context =
     log DEBUG (\<lambda>_. ''apache_request_headers() called in non-HTTP context'') (\<lambda>_. [])"

fun write_go_strings :: "(bytes \<times> bytes) list \<Rightarrow> request_arena \<Rightarrow> (nat \<times> c_ptr) list \<times> request_arena" where
  "write_go_strings [] arena = ([], arena)"
| "write_go_strings ((name, value) # pairs) arena =
     (let (name_ptr, arena) = arena_alloc arena name;
          (value_ptr, arena) = arena_alloc arena value;
          (rest, arena) = write_go_strings pairs arena
      in ((length name, name_ptr) # (length value, value_ptr) # rest, arena))"

definition apache_request_headers_closure ::
  "(c_ptr \<Rightarrow> nat) \<Rightarrow> ('s, 'k) request_context option \<Rightarrow>
   (slot_error + go_apache_request_headers_return \<times> log_record list) \<times> ('s, 'k) request_context option"
where
  "apache_request_headers_closure addr_of slot =
     (let none = Inr (\<lparr>arh_r0 = None, arh_r1 = 0\<rparr>, log_non_http_context)
      in case slot of
        None \<Rightarrow> (none, None)
      | Some ctx \<Rightarrow>
          if ctx_response_sink ctx = None then (none, Some ctx)
          else
            (case ctx_request ctx of
               None \<Rightarrow> (none, Some ctx)
             | Some request \<Rightarrow>
                 (let pairs = map (\<lambda>(name, values). (name, join_values values '', ''))
                        (headers_iter (req_headers request));
                      count = length pairs;
                      (array, arena) = alloc_go_strings addr_of (ctx_arena ctx) (count * 2);
                      (strings, arena) = write_go_strings pairs arena
                  in (Inr (\<lparr>arh_r0 = Some (array, strings), arh_r1 = count\<rparr>, []),
                      Some (ctx\<lparr>ctx_arena := arena\<rparr>)))))"

definition go_apache_request_headers ::
  "(c_ptr \<Rightarrow> nat) \<Rightarrow> nat \<Rightarrow> ('s, 'k) request_context slot_state \<Rightarrow>
   (slot_error + go_apache_request_headers_return \<times> log_record list) \<times> ('s, 'k) request_context slot_state"
where
  "go_apache_request_headers addr_of thread_index s =
     slots_with_context_mut thread_index (pure_closure (apache_request_headers_closure addr_of)) s"

subsection \<open>Properties\<close>

lemma join_values_eq: "join_values vs sep = sep_concat sep vs"
proof -
  have "join_values_loop sep (Suc i) vs joined = joined @ concat (map (\<lambda>v. sep @ v) vs)" for i vs joined
    by (induction vs arbitrary: i joined) auto
  then show ?thesis by (cases vs) (simp_all add: join_values_def sep_concat_Cons)
qed

text \<open>A request whose body the server installed: one read.\<close>

lemma go_read_post_cursor:
  assumes "\<not> holding_slot_lock s" "slots_abs s i = Some ctx" "ctx_response_sink ctx \<noteq> None"
    "ctx_request ctx = Some r" "req_body r = body_new c"
  obtains s' c' where
    "go_read_post cursor_read i buf s =
       (Inr (Some (min (length buf) (length (cursor_content c)),
          take (min (length buf) (length (cursor_content c))) (cursor_content c)
          @ drop (min (length buf) (length (cursor_content c))) buf)), s')"
    "slots_abs s' = (slots_abs s)(i \<mapsto> ctx\<lparr>ctx_request := Some (r\<lparr>req_body := body_new c'\<rparr>)\<rparr>)"
    "cursor_content c' = drop (min (length buf) (length (cursor_content c))) (cursor_content c)"
    "\<not> holding_slot_lock s'"
proof (cases "buf = []")
  case True
  have "(slots_abs s)(i \<mapsto> ctx\<lparr>ctx_request := Some (r\<lparr>req_body := body_new c\<rparr>)\<rparr>) = slots_abs s"
    using assms by (simp add: fun_upd_idem flip: assms(4,5))
  with True assms show thesis by (intro that [of s c]) (simp_all add: go_read_post_def)
next
  case False
  let ?m = "min (length buf) (length (cursor_content c))"
  obtain c' where c': "body_fill cursor_read (req_body r) buf =
      Some (?m, take ?m (cursor_content c) @ drop ?m buf, body_new c')"
    "cursor_content c' = drop ?m (cursor_content c)"
    using cur.body_fill_total [of buf c] assms(5) by (auto simp: body_new_def Let_def)
  obtain s' where s': "go_read_post cursor_read i buf s =
      (fst (read_post_closure cursor_read buf (slots_abs s i)), s')"
    "slots_abs s' = (slots_abs s)(i := snd (read_post_closure cursor_read buf (slots_abs s i)))"
    "\<not> holding_slot_lock s'"
    using with_context_mut_pure [OF assms(1), of i "read_post_closure cursor_read buf"] False
    unfolding go_read_post_def by auto
  from s' assms(2-4) c' show thesis
    by (intro that [of s' c']) (simp_all add: read_post_closure_def)
qed

text \<open>PHP reading with buffers of any sizes: the bytes it is given, call by call.\<close>

fun read_posts ::
  "'s read_fn \<Rightarrow> nat \<Rightarrow> bytes list \<Rightarrow> ('s, 'k) request_context slot_state \<Rightarrow>
   bytes option list \<times> ('s, 'k) request_context slot_state"
where
  "read_posts read i [] s = ([], s)"
| "read_posts read i (buf # bufs) s =
     (let (r, s1) = go_read_post read i buf s; (rs, s2) = read_posts read i bufs s1
      in ((case r of Inr (Some (n, buf')) \<Rightarrow> Some (take n buf') | _ \<Rightarrow> None) # rs, s2))"

text \<open>C30. PHP receives the request body exactly: however it sizes its buffers, successive
  \<^verbatim>\<open>go_read_post\<close> calls on a live request all return, and what they deliver, concatenated, is the
  collected body up to the total size asked for, with no byte lost, repeated or reordered.\<close>

theorem read_posts_deliver_body:
  assumes "\<not> holding_slot_lock s" "slots_abs s i = Some ctx" "ctx_response_sink ctx \<noteq> None"
    and "ctx_request ctx = Some r" "req_body r = body_new c"
  shows "list_all (\<lambda>x. x \<noteq> None) (fst (read_posts cursor_read i bufs s)) \<and>
     concat (map the (fst (read_posts cursor_read i bufs s))) =
       take (sum_list (map length bufs)) (cursor_content c)"
  using assms
proof (induction bufs arbitrary: s ctx r c)
  case (Cons buf bufs)
  let ?m = "min (length buf) (length (cursor_content c))"
  obtain s1 c1 where s1:
    "go_read_post cursor_read i buf s = (Inr (Some (?m, take ?m (cursor_content c) @ drop ?m buf)), s1)"
    "slots_abs s1 = (slots_abs s)(i \<mapsto> ctx\<lparr>ctx_request := Some (r\<lparr>req_body := body_new c1\<rparr>)\<rparr>)"
    "cursor_content c1 = drop ?m (cursor_content c)" "\<not> holding_slot_lock s1"
    by (rule go_read_post_cursor [OF Cons.prems])
  from Cons.IH [OF s1(4), of "ctx\<lparr>ctx_request := Some (r\<lparr>req_body := body_new c1\<rparr>)\<rparr>"
      "r\<lparr>req_body := body_new c1\<rparr>" c1] s1(2) Cons.prems
  have IH: "list_all (\<lambda>x. x \<noteq> None) (fst (read_posts cursor_read i bufs s1))"
    "concat (map the (fst (read_posts cursor_read i bufs s1))) =
       take (sum_list (map length bufs)) (cursor_content c1)"
    by simp_all
  have "take ?m (cursor_content c) @ take n (drop ?m (cursor_content c)) =
      take (length buf + n) (cursor_content c)" for n
    by (cases "length buf \<le> length (cursor_content c)") (simp_all add: take_add min_def)
  then show ?case using IH s1(1,3) by (simp add: split_def Let_def)
qed simp

definition posted_table :: "bytes \<Rightarrow> (cursor, unit) request_context slot_state" where
  "posted_table body = \<lparr>slots = [Some ((context_new [] None
      (Some ((request_new 0 ''POST'' ''/'')\<lparr>req_body := body_new \<lparr>cur_data = body, cur_pos = 0\<rparr>\<rparr>))
      signal_none)\<lparr>ctx_response_sink := Some ()\<rparr>)], holding_slot_lock = False\<rparr>"

text \<open>A body of five bytes read with buffers of two, two and four.\<close>

theorem read_posts_deliver_body_witness:
  "concat (map the (fst (read_posts cursor_read 0 [''..'', ''..'', ''....''] (posted_table ''hello'')))) = ''hello''"
proof -
  let ?r = "(request_new 0 ''POST'' ''/'')\<lparr>req_body := body_new \<lparr>cur_data = ''hello'', cur_pos = 0\<rparr>\<rparr>"
  let ?ctx = "(context_new [] None (Some ?r) signal_none)\<lparr>ctx_response_sink := Some ()\<rparr>"
  have "\<not> holding_slot_lock (posted_table ''hello'')" "slots_abs (posted_table ''hello'') 0 = Some ?ctx"
    "ctx_response_sink ?ctx \<noteq> None" "ctx_request ?ctx = Some ?r"
    "req_body ?r = body_new \<lparr>cur_data = ''hello'', cur_pos = 0\<rparr>"
    by (simp_all add: posted_table_def slots_abs_def context_new_def Let_def)
  from read_posts_deliver_body [OF this, of "[''..'', ''..'', ''....'']"]
  show ?thesis by (simp add: cursor_content_def)
qed

lemma read_go_strings:
  assumes "write_go_strings pairs arena = (strings, arena')"
  shows "(\<exists>extra. arena_buffers arena' = arena_buffers arena @ extra) \<and>
     map (\<lambda>(n, p). map_option (take n) (arena_deref arena' p)) strings =
       concat (map (\<lambda>(name, val). [Some name, Some val]) pairs)"
  using assms
proof (induction pairs arbitrary: arena strings)
  case (Cons pair pairs)
  obtain name val where p: "pair = (name, val)" by fastforce
  obtain np a1 where a1: "arena_alloc arena name = (np, a1)" by fastforce
  obtain vp a2 where a2: "arena_alloc a1 val = (vp, a2)" by fastforce
  obtain rest a3 where a3: "write_go_strings pairs a2 = (rest, a3)" by fastforce
  with Cons.prems p a1 a2 have eq: "strings = (length name, np) # (length val, vp) # rest" "arena' = a3"
    by simp_all
  from Cons.IH a3 eq obtain extra where extra: "arena_buffers a3 = arena_buffers a2 @ extra"
    and rest: "map (\<lambda>(n, p). map_option (take n) (arena_deref a3 p)) rest =
      concat (map (\<lambda>(name, val). [Some name, Some val]) pairs)" by blast
  from arena_alloc_deref [OF a1] arena_alloc_deref [OF a2]
  have b: "arena_buffers a1 = arena_buffers arena @ [name @ [CHR 0x00]]"
    "arena_buffers a2 = arena_buffers a1 @ [val @ [CHR 0x00]]"
    "arena_deref a1 np = Some (name @ [CHR 0x00])" "arena_deref a2 vp = Some (val @ [CHR 0x00])"
    by simp_all
  then have "arena_deref a3 np = Some (name @ [CHR 0x00])" "arena_deref a3 vp = Some (val @ [CHR 0x00])"
    using arena_deref_mono [of a3 a1 "[val @ [CHR 0x00]] @ extra" np] arena_deref_mono [OF extra] extra
    by simp_all
  with eq rest p extra b show ?case by simp
qed simp

lemma next_multiple_of_bounds:
  assumes "0 < m"
  shows "a \<le> next_multiple_of a m \<and> next_multiple_of a m < a + m \<and> next_multiple_of a m mod m = 0"
proof (cases "a mod m = 0")
  case False
  have "a div m * m + a mod m = a" "a mod m < m" using assms by simp_all
  then have "a + (m - a mod m) = a div m * m + m" by linarith
  then have "(a + (m - a mod m)) mod m = 0" by simp
  moreover have "a \<le> a + (m - a mod m)" "a + (m - a mod m) < a + m"
    using False assms \<open>a mod m < m\<close> by linarith+
  ultimately show ?thesis unfolding next_multiple_of_def using False by simp
qed (use assms in \<open>simp add: next_multiple_of_def\<close>)

text \<open>\<^verbatim>\<open>alloc_go_strings\<close> gives an aligned array that fits: wherever the allocator puts the scratch
  buffer, the array's address is a multiple of eight, its offset is less than eight, and all its
  elements lie within the buffer.\<close>

theorem alloc_go_strings_aligned:
  "(let ((base, offset), arena') = alloc_go_strings addr_of arena count in
     (addr_of base + offset) mod go_string_align = 0 \<and> offset < go_string_align \<and>
     map_option (\<lambda>buf. offset + count * go_string_size \<le> length buf) (arena_deref arena' base) = Some True \<and>
     arena_buffers arena' = arena_buffers arena @ [replicate (count * go_string_size + go_string_align) (CHR 0x00)])"
proof -
  let ?scratch = "replicate (count * go_string_size + go_string_align - 1) (CHR 0x00)"
  obtain base arena' where al: "arena_alloc arena ?scratch = (base, arena')" by fastforce
  note d = arena_alloc_deref [OF al]
  have "replicate (count * go_string_size + go_string_align) (CHR 0x00) = ?scratch @ [CHR 0x00]"
    by (simp add: go_string_align_def replicate_append_same flip: replicate_Suc)
  moreover have "0 < go_string_align" by (simp add: go_string_align_def)
  from next_multiple_of_bounds [OF this, of "addr_of base"]
  have "addr_of base + (next_multiple_of (addr_of base) go_string_align - addr_of base)
      = next_multiple_of (addr_of base) go_string_align"
    "next_multiple_of (addr_of base) go_string_align - addr_of base < go_string_align"
    "next_multiple_of (addr_of base) go_string_align mod go_string_align = 0" by auto
  ultimately show ?thesis
    using d al by (simp add: alloc_go_strings_def Let_def)
qed

text \<open>Userland sees every request header once, with all its values: on a live request the array C
  walks has two strings per stored header, and reading them back through the request's arena gives
  each canonical name followed by its values joined with a comma and a space, in order.\<close>

theorem apache_request_headers_readback:
  assumes "\<not> holding_slot_lock s" "slots_abs s i = Some ctx" "ctx_response_sink ctx \<noteq> None"
    and "ctx_request ctx = Some r"
  shows "\<exists>array strings s' arena. go_apache_request_headers addr_of i s =
       (Inr (\<lparr>arh_r0 = Some (array, strings), arh_r1 = length (headers_iter (req_headers r))\<rparr>, []), s') \<and>
     slots_abs s' = (slots_abs s)(i \<mapsto> ctx\<lparr>ctx_arena := arena\<rparr>) \<and>
     map (\<lambda>(n, p). map_option (take n) (arena_deref arena p)) strings =
       concat (map (\<lambda>(name, values). [Some name, Some (sep_concat '', '' values)])
         (headers_iter (req_headers r)))"
proof -
  let ?pairs = "map (\<lambda>(name, values). (name, join_values values '', '')) (headers_iter (req_headers r))"
  obtain array a1 where a1: "alloc_go_strings addr_of (ctx_arena ctx) (length ?pairs * 2) = (array, a1)"
    by fastforce
  obtain strings a2 where a2: "write_go_strings ?pairs a1 = (strings, a2)" by fastforce
  obtain s' where "go_apache_request_headers addr_of i s =
      (fst (apache_request_headers_closure addr_of (slots_abs s i)), s')"
    "slots_abs s' = (slots_abs s)(i := snd (apache_request_headers_closure addr_of (slots_abs s i)))"
    unfolding go_apache_request_headers_def by (rule with_context_mut_pure [OF assms(1)])
  moreover have "apache_request_headers_closure addr_of (slots_abs s i) =
      (Inr (\<lparr>arh_r0 = Some (array, strings), arh_r1 = length (headers_iter (req_headers r))\<rparr>, []),
       Some (ctx\<lparr>ctx_arena := a2\<rparr>))"
    using assms(2-4) a1 a2 by (simp add: apache_request_headers_closure_def Let_def)
  moreover have "map (\<lambda>(n, p). map_option (take n) (arena_deref a2 p)) strings =
       concat (map (\<lambda>(name, values). [Some name, Some (sep_concat '', '' values)]) (headers_iter (req_headers r)))"
    using read_go_strings [OF a2] by (simp add: comp_def split_def join_values_eq)
  ultimately show ?thesis by auto
qed

text \<open>Two header lines of one name on a live request: the array is read back as a pair.\<close>

theorem apache_request_headers_readback_witness:
  "\<exists>ctx s r. \<not> holding_slot_lock s \<and> slots_abs s 0 = Some (ctx :: (cursor, unit) request_context) \<and>
     ctx_request ctx = Some r \<and>
     (\<exists>ret s'. go_apache_request_headers (\<lambda>_. 4099) 0 s = (Inr (ret, []), s') \<and> arh_r1 ret = 1)"
proof -
  let ?r = "with_header (with_header (request_new 0 ''GET'' ''/'') ''X-A'' ''1'') ''x-a'' ''2''"
  let ?ctx = "(context_new [] None (Some ?r) signal_none)\<lparr>ctx_response_sink := Some ()\<rparr>"
  let ?s = "\<lparr>slots = [Some ?ctx], holding_slot_lock = False\<rparr>"
  have h: "\<not> holding_slot_lock ?s" "slots_abs ?s 0 = Some ?ctx" "ctx_response_sink ?ctx \<noteq> None"
    "ctx_request ?ctx = Some ?r"
    by (simp_all add: slots_abs_def context_new_def Let_def)
  have "canonical_header_name ''X-A'' = canonical_header_name ''x-a''" by code_simp
  then have "length (headers_iter (req_headers ?r)) = 1"
    by (simp add: with_header_def request_new_def headers_insert_def headers_default_def headers_iter_def)
  with apache_request_headers_readback [OF h, of "\<lambda>_. 4099"] h show ?thesis
    by (intro exI [of _ ?ctx] exI [of _ ?s] exI [of _ ?r]) auto
qed

text \<open>PHP gets the cookies of every \<^verbatim>\<open>Cookie\<close> header, joined with a semicolon and a space: NULL exactly
  when that text is empty, and otherwise, if the C heap has room, a C string that reads as the text
  without its NUL bytes, none of it cut off; the table is as it was.\<close>

theorem read_cookies_joined:
  assumes "\<not> holding_slot_lock s" "slots_abs s i = Some ctx" "ctx_request ctx = Some r"
    and "cookies = sep_concat ''; '' (case headers_get_all (req_headers r) ''Cookie'' of Some vs \<Rightarrow> vs | None \<Rightarrow> [])"
    and "length cookies + 1 < 2 ^ 64"
  shows "\<exists>res s'. go_read_cookies (\<lambda>_. True) i s = (Inr res, s') \<and> slots_abs s' = slots_abs s \<and>
     map_option c_str res = (if cookies = [] then None else Some (filter (\<lambda>b. b \<noteq> CHR 0x00) cookies))"
proof -
  obtain s' where "go_read_cookies (\<lambda>_. True) i s = (read_cookies_closure (\<lambda>_. True) (slots_abs s i), s')"
    "slots_abs s' = slots_abs s"
    unfolding go_read_cookies_def by (rule with_context_read [OF assms(1)])
  moreover have "takeWhile (\<lambda>b. b \<noteq> CHR 0x00) (filter (\<lambda>b. b \<noteq> CHR 0x00) cookies @ [CHR 0x00])
      = filter (\<lambda>b. b \<noteq> CHR 0x00) cookies"
    by (subst takeWhile_append2) auto
  moreover have "length (filter (\<lambda>b. b \<noteq> CHR 0x00) cookies) + 1 < 2 ^ 64"
    using assms(5) length_filter_le [of "\<lambda>b. b \<noteq> CHR 0x00" cookies] by linarith
  ultimately show ?thesis
    using assms(2-4) by (simp add: read_cookies_closure_def join_values_eq malloc_c_string_def c_str_def)
qed

text \<open>A request with no cookie header: NULL.\<close>

theorem read_cookies_joined_witness:
  "\<exists>s'. go_read_cookies (\<lambda>_. True) 0 (posted_table ''x'') = (Inr None, s')"
proof -
  let ?r = "(request_new 0 ''POST'' ''/'')\<lparr>req_body := body_new \<lparr>cur_data = ''x'', cur_pos = 0\<rparr>\<rparr>"
  let ?ctx = "(context_new [] None (Some ?r) signal_none)\<lparr>ctx_response_sink := Some ()\<rparr>"
  have h: "\<not> holding_slot_lock (posted_table ''x'')" "slots_abs (posted_table ''x'') 0 = Some ?ctx"
    "ctx_request ?ctx = Some ?r"
    by (simp_all add: posted_table_def slots_abs_def context_new_def Let_def)
  have "[] = sep_concat ''; '' (case headers_get_all (req_headers ?r) ''Cookie'' of Some vs \<Rightarrow> vs | None \<Rightarrow> [])"
    by (simp add: request_new_def headers_default_def headers_get_all_def)
  from read_cookies_joined [OF h this] show ?thesis by auto
qed

end
