(* ===== verification/ServerVars.thy ===== *)
theory ServerVars
  imports ContextSlots CgiAddr CgiPath Fmt
begin

section \<open>\<^verbatim>\<open>$_SERVER\<close> and \<^verbatim>\<open>SG(request_info)\<close>: \<^verbatim>\<open>callbacks/servervars.rs\<close>\<close>

text \<open>
  The computation of the known variables, the batch of header variables with its two passes, the
  callback that installs it in the context, and the request information with its arena strings.
  The data types are in \<open>VarsBatch\<close>. The interned strings are a lookup in the header table.
\<close>

subsection \<open>The known variables\<close>

definition compute_server_vars :: "('s, 'k) request_context \<Rightarrow> computed_server_vars option" where
  "compute_server_vars ctx =
     (case ctx_request ctx of
        None \<Rightarrow> None
      | Some request \<Rightarrow>
          (let (remote_addr, remote_port) = split_remote_addr (req_remote_addr request);
               (server_name, server_port) = derive_server_name_and_port (req_host request) Http;
               content_length = (case headers_get_first (req_headers request) ''Content-Length'' of
                                   Some v \<Rightarrow> v | None \<Rightarrow> []);
               php_self = ctx_script_name ctx @ ctx_path_info ctx;
               server_protocol = ''HTTP/'' @ fmt_nat (unat (req_proto_major request)) @ ''.'' @
                                 fmt_nat (unat (req_proto_minor request));
               total_num_vars = 28 + length (headers_iter (req_headers request)) + 0 + 0
           in Some
             \<lparr>csv_remote_addr = remote_addr,
              csv_remote_port = remote_port,
              csv_document_root = ctx_document_root ctx,
              csv_path_info = ctx_path_info ctx,
              csv_php_self = php_self,
              csv_document_uri = ctx_doc_uri ctx,
              csv_script_filename = ctx_script_filename ctx,
              csv_script_name = ctx_script_name ctx,
              csv_server_name = server_name,
              csv_server_port = server_port,
              csv_content_length = content_length,
              csv_server_protocol = server_protocol,
              csv_http_host = req_host request,
              csv_request_uri = ctx_request_uri ctx,
              csv_total_num_vars = total_num_vars\<rparr>))"

subsection \<open>The batch of header variables\<close>

datatype header_key = Interned c_ptr | Mangled nat

definition common_headers_get :: "bytes \<Rightarrow> c_ptr option" where
  "common_headers_get name = map_option Interned_Str (map_of COMMON_HEADERS name)"

text \<open>The first pass: values, the sparse keys, and how each header's key is formed.\<close>

fun batch_first_pass ::
  "(bytes \<times> bytes list) list \<Rightarrow> bytes list \<times> bytes list \<times> header_key list \<Rightarrow>
   bytes list \<times> bytes list \<times> header_key list"
where
  "batch_first_pass [] acc = acc"
| "batch_first_pass ((name, header_values) # rest) (values, keys, key_forms) =
     (let values = values @ [join_header_values header_values]
      in case common_headers_get name of
           Some interned_key \<Rightarrow> batch_first_pass rest (values, keys, key_forms @ [Interned interned_key])
         | None \<Rightarrow>
             (let keys = keys @ [uncommon_header_key name]
              in batch_first_pass rest (values, keys, key_forms @ [Mangled (length keys - 1)])))"

text \<open>The second pass takes the pointers, once nothing is pushed any more.\<close>

definition describe_header :: "header_key \<times> nat \<times> bytes \<Rightarrow> header_var" where
  "describe_header kv =
     (let (key_form, i, val) = kv; (value_ptr, value_len) = c_buf (Value_Buf i) val
      in \<lparr>hv_known_key = (case key_form of Interned key \<Rightarrow> key | Mangled _ \<Rightarrow> Null),
          hv_key = (case key_form of Interned _ \<Rightarrow> Null | Mangled index \<Rightarrow> Key_Buf index),
          hv_value = value_ptr, hv_value_len = value_len\<rparr>)"

definition build_server_vars_batch :: "('s, 'k) request_context \<Rightarrow> server_vars_batch option" where
  "build_server_vars_batch ctx =
     (case compute_server_vars ctx of
        None \<Rightarrow> None
      | Some known \<Rightarrow>
          (case ctx_request ctx of
             None \<Rightarrow> None
           | Some request \<Rightarrow>
               (let (values, keys, key_forms) = batch_first_pass (headers_iter (req_headers request)) ([], [], [])
                in Some \<lparr>svb_known = known, svb_values = values, svb_keys = keys,
                         svb_headers = map describe_header (zip key_forms (enumerate 0 values))\<rparr>)))"

text \<open>The callback: the diagnostic is the line it prints when there is no context.\<close>

definition collect_closure ::
  "nat \<Rightarrow> ('s, 'k) request_context option \<Rightarrow>
   (slot_error + bool \<times> c_batch option \<times> string list) \<times> ('s, 'k) request_context option"
where
  "collect_closure thread_index slot =
     (case slot of
        None \<Rightarrow> (Inr (False, None,
           [''frankenrust: go_register_server_variables: no RequestContext for thread '' @ fmt_nat thread_index]), None)
      | Some ctx \<Rightarrow>
          (case build_server_vars_batch ctx of
             None \<Rightarrow> (Inr (False, None, []), Some ctx)
           | Some batch \<Rightarrow>
               (let (c_batch, ctx) = install_server_vars ctx batch
                in (Inr (True, Some c_batch, []), Some ctx))))"

definition frankenrust_collect_server_vars ::
  "nat \<Rightarrow> bool \<Rightarrow> ('s, 'k) request_context slot_state \<Rightarrow>
   (slot_error + bool \<times> c_batch option \<times> string list) \<times> ('s, 'k) request_context slot_state"
where
  "frankenrust_collect_server_vars thread_index out_is_null s =
     (if out_is_null then (Inr (False, None, []), s)
      else slots_with_context_mut thread_index (pure_closure (collect_closure thread_index)) s)"

subsection \<open>Request information\<close>

record sapi_request_info =
  sri_request_method :: c_ptr
  sri_query_string :: c_ptr
  sri_content_length :: "64 word"
  sri_content_type :: c_ptr
  sri_path_translated :: c_ptr
  sri_request_uri :: c_ptr
  sri_proto_num :: "32 word"

definition cached_method_cstr :: "bytes \<Rightarrow> c_ptr option" where
  "cached_method_cstr method =
     (if List.member [''GET'', ''HEAD'', ''POST'', ''PUT'', ''DELETE'', ''CONNECT'', ''OPTIONS'', ''TRACE'', ''PATCH''] method
      then Some (Static_Str method) else None)"

text \<open>\<^verbatim>\<open>filter(|v| !v.is_empty())\<close> on the first value of a header.\<close>

definition nonempty_first :: "headers \<Rightarrow> bytes \<Rightarrow> bytes option" where
  "nonempty_first h name = (case headers_get_first h name of Some v \<Rightarrow> if v = [] then None else Some v | None \<Rightarrow> None)"

definition update_request_info ::
  "('s, 'k) request_context \<Rightarrow> sapi_request_info \<Rightarrow>
   c_ptr \<times> ('s, 'k) request_context \<times> sapi_request_info"
where
  "update_request_info ctx info =
     (case ctx_request ctx of
        None \<Rightarrow> (Null, ctx, info)
      | Some request \<Rightarrow>
          (let method = req_method request;
               content_type = nonempty_first (req_headers request) ''Content-Type'';
               authorization = nonempty_first (req_headers request) ''Authorization'';
               path_info_is_empty = (ctx_path_info ctx = []);
               path_translated = (if \<not> path_info_is_empty
                 then Some (sanitized_path_join (ctx_document_root ctx) (ctx_path_info ctx)) else None);
               proto_num = ucast (req_proto_major request) * 1000 + ucast (req_proto_minor request);
               arena = ctx_arena ctx;
               (p, arena) = (case cached_method_cstr method of
                   Some p \<Rightarrow> (p, arena) | None \<Rightarrow> arena_alloc arena method);
               info = info\<lparr>sri_request_method := p\<rparr>;
               (p, arena) = arena_alloc arena (req_query request);
               info = info\<lparr>sri_query_string := p, sri_content_length := req_content_length request\<rparr>;
               (info, arena) = (case content_type of
                   Some ct \<Rightarrow> (let (p, arena) = arena_alloc arena ct in (info\<lparr>sri_content_type := p\<rparr>, arena))
                 | None \<Rightarrow> (info, arena));
               (info, arena) = (case path_translated of
                   Some pt \<Rightarrow> (let (p, arena) = arena_alloc arena pt in (info\<lparr>sri_path_translated := p\<rparr>, arena))
                 | None \<Rightarrow> (info, arena));
               (p, arena) = arena_alloc arena (ctx_request_uri ctx);
               info = info\<lparr>sri_request_uri := p, sri_proto_num := proto_num\<rparr>;
               (p, arena) = (case authorization of
                   Some bs \<Rightarrow> arena_alloc arena bs | None \<Rightarrow> (Null, arena))
           in (p, ctx\<lparr>ctx_arena := arena\<rparr>, info)))"

definition request_info_closure ::
  "nat \<Rightarrow> sapi_request_info \<Rightarrow> ('s, 'k) request_context option \<Rightarrow>
   (slot_error + c_ptr \<times> sapi_request_info \<times> string list) \<times> ('s, 'k) request_context option"
where
  "request_info_closure thread_index info slot =
     (case slot of
        None \<Rightarrow> (Inr (Null, info,
           [''frankenrust: go_update_request_info: no RequestContext for thread '' @ fmt_nat thread_index]), None)
      | Some ctx \<Rightarrow>
          (let (p, ctx, info) = update_request_info ctx info in (Inr (p, info, []), Some ctx)))"

definition go_update_request_info ::
  "nat \<Rightarrow> sapi_request_info option \<Rightarrow> ('s, 'k) request_context slot_state \<Rightarrow>
   (slot_error + c_ptr \<times> sapi_request_info option \<times> string list) \<times> ('s, 'k) request_context slot_state"
where
  "go_update_request_info thread_index info s =
     (case info of
        None \<Rightarrow> (Inr (Null, None, []), s)
      | Some info \<Rightarrow>
          (let (res, s) = slots_with_context_mut thread_index
                 (pure_closure (request_info_closure thread_index info)) s
           in (map_sum id (\<lambda>(p, info, d). (p, Some info, d)) res, s)))"

subsection \<open>What C reads back\<close>

text \<open>A recorded key form is right for a header name, given the keys pushed so far.\<close>

definition key_form_ok :: "bytes list \<Rightarrow> bytes \<Rightarrow> header_key \<Rightarrow> bool" where
  "key_form_ok keys name f = (case common_headers_get name of
     Some p \<Rightarrow> f = Interned p
   | None \<Rightarrow> (\<exists>i < length keys. f = Mangled i \<and> keys ! i = uncommon_header_key name))"

lemma key_form_ok_mono: "key_form_ok ks name f \<Longrightarrow> key_form_ok (ks @ extra) name f"
  by (auto simp: key_form_ok_def nth_append split: option.splits)

lemma batch_first_pass_spec:
  "batch_first_pass es (vs, ks, fs) = (vs', ks', fs') \<Longrightarrow>
   vs' = vs @ map (\<lambda>(n, hv). join_header_values hv) es \<and> (\<exists>extra. ks' = ks @ extra) \<and>
   (\<exists>forms. fs' = fs @ forms \<and> list_all2 (\<lambda>(n, hv) f. key_form_ok ks' n f) es forms)"
proof (induction es arbitrary: vs ks fs)
  case (Cons e es)
  obtain n hv where e: "e = (n, hv)" by fastforce
  define ks1 f where "ks1 = (if common_headers_get n = None then ks @ [uncommon_header_key n] else ks)"
    and "f = (case common_headers_get n of Some p \<Rightarrow> Interned p | None \<Rightarrow> Mangled (length ks))"
  have "batch_first_pass es (vs @ [join_header_values hv], ks1, fs @ [f]) = (vs', ks', fs')"
    using Cons.prems by (auto simp: e ks1_def f_def split: option.splits)
  from Cons.IH [OF this] obtain extra forms where IH: "ks' = ks1 @ extra" "fs' = fs @ [f] @ forms"
    "vs' = vs @ [join_header_values hv] @ map (\<lambda>(n, hv). join_header_values hv) es"
    "list_all2 (\<lambda>(n, hv) f. key_form_ok ks' n f) es forms" by auto
  have "key_form_ok ks1 n f" by (auto simp: key_form_ok_def ks1_def f_def split: option.splits)
  then have "key_form_ok ks' n f" unfolding IH(1) by (rule key_form_ok_mono)
  with IH have "fs' = fs @ f # forms" "list_all2 (\<lambda>(n, hv) f. key_form_ok ks' n f) (e # es) (f # forms)"
    by (simp_all add: e)
  moreover have "\<exists>extra. ks' = ks @ extra" using IH(1) by (auto simp: ks1_def)
  ultimately show ?case using IH(3) by (auto simp: e)
qed simp

text \<open>
  What C takes as the key of a descriptor: the interned string if there is one, else the bytes
  up to the NUL of the key buffer; and the value as pointer and length say.
\<close>

definition read_key :: "server_vars_batch \<Rightarrow> header_var \<Rightarrow> bytes option" where
  "read_key b hv = (if hv_known_key hv \<noteq> Null then batch_deref b (hv_known_key hv)
                    else map_option c_str (batch_deref b (hv_key hv)))"

definition read_header :: "server_vars_batch \<Rightarrow> header_var \<Rightarrow> bytes option \<times> bytes option" where
  "read_header b hv = (read_key b hv, c_read b (hv_value hv, hv_value_len hv))"

text \<open>The variable a header is to be registered under.\<close>

definition header_variable :: "bytes \<Rightarrow> bytes" where
  "header_variable name = (case map_of COMMON_HEADERS name of
     Some v \<Rightarrow> v | None \<Rightarrow> c_str (uncommon_header_key name))"

lemma read_described_header:
  assumes "key_form_ok (svb_keys b) name f" "i < length (svb_values b)" "svb_values b ! i = val"
  shows "read_header b (describe_header (f, i, val)) = (Some (header_variable name), Some val)"
proof -
  have "c_read b (c_buf (Value_Buf i) val) = Some val"
    using assms by (intro c_read_buf) simp_all
  with assms(1) show ?thesis
    by (auto simp: read_header_def read_key_def describe_header_def header_variable_def Let_def split_def
        key_form_ok_def common_headers_get_def split: option.splits)
qed

lemma read_described_headers:
  assumes "list_all2 (\<lambda>(n, hv) f. key_form_ok (svb_keys b) n f) es forms"
    and "svb_values b = pre @ map (\<lambda>(n, hv). join_header_values hv) es"
  shows "map (read_header b) (map describe_header (zip forms
      (enumerate (length pre) (map (\<lambda>(n, hv). join_header_values hv) es)))) =
    map (\<lambda>(n, hv). (Some (header_variable n), Some (join_header_values hv))) es"
  using assms
proof (induction es arbitrary: pre forms)
  case (Cons e es)
  obtain n hv where e: "e = (n, hv)" by fastforce
  from Cons.prems(1) obtain f forms' where f: "forms = f # forms'" "key_form_ok (svb_keys b) n f"
    "list_all2 (\<lambda>(n, hv) f. key_form_ok (svb_keys b) n f) es forms'"
    by (auto simp: e list_all2_Cons1)
  have "read_header b (describe_header (f, length pre, join_header_values hv)) =
      (Some (header_variable n), Some (join_header_values hv))"
    using Cons.prems(2) by (intro read_described_header [OF f(2)]) (simp_all add: e)
  moreover have "svb_values b = (pre @ [join_header_values hv]) @ map (\<lambda>(n, hv). join_header_values hv) es"
    using Cons.prems(2) by (simp add: e)
  from Cons.IH [OF f(3) this] have "map (read_header b) (map describe_header (zip forms'
      (enumerate (Suc (length pre)) (map (\<lambda>(n, hv). join_header_values hv) es)))) =
    map (\<lambda>(n, hv). (Some (header_variable n), Some (join_header_values hv))) es" by simp
  ultimately show ?case by (simp add: e f)
qed simp

text \<open>C31. What C registers for the request's headers, read through the batch the context now owns: one
  descriptor per stored header, in order, whose key is the interned variable of a common header and
  the mangled name of any other, and whose value is the joined values at their exact length; the
  callback changes no other slot, and keeps everything of the context but the batch.\<close>

theorem collect_server_vars_readback:
  assumes "\<not> holding_slot_lock s" "slots_abs s i = Some ctx" "ctx_request ctx = Some r"
  shows "\<exists>cb s' b. frankenrust_collect_server_vars i False s = (Inr (True, Some cb, []), s') \<and>
     slots_abs s' = (slots_abs s)(i \<mapsto> ctx\<lparr>ctx_server_vars := Some b\<rparr>) \<and>
     cb_num_headers cb = length (headers_iter (req_headers r)) \<and>
     map (read_header b) (cb_headers cb) =
       map (\<lambda>(n, hv). (Some (header_variable n), Some (join_header_values hv))) (headers_iter (req_headers r))"
proof -
  let ?es = "headers_iter (req_headers r)"
  obtain vals keys forms where p: "batch_first_pass ?es ([], [], []) = (vals, keys, forms)"
    by (metis prod_cases3)
  from batch_first_pass_spec [OF p] have vals: "vals = map (\<lambda>(n, hv). join_header_values hv) ?es"
    and forms: "list_all2 (\<lambda>(n, hv) f. key_form_ok keys n f) ?es forms" by auto
  obtain known where known: "compute_server_vars ctx = Some known"
    using assms(3) by (auto simp: compute_server_vars_def Let_def split_def)
  define b where "b = \<lparr>svb_known = known, svb_values = vals, svb_keys = keys,
      svb_headers = map describe_header (zip forms (enumerate 0 vals))\<rparr>"
  have b: "build_server_vars_batch ctx = Some b"
    using known assms(3) p by (simp add: build_server_vars_batch_def b_def)
  obtain s' where "frankenrust_collect_server_vars i False s =
      (fst (collect_closure i (slots_abs s i)), s')"
    "slots_abs s' = (slots_abs s)(i := snd (collect_closure i (slots_abs s i)))"
    using with_context_mut_pure [OF assms(1), of i "collect_closure i"]
    unfolding frankenrust_collect_server_vars_def by auto
  moreover have "collect_closure i (slots_abs s i) =
      (Inr (True, Some (as_c_batch b), []), Some (ctx\<lparr>ctx_server_vars := Some b\<rparr>))"
    using assms(2) b by (simp add: collect_closure_def install_server_vars_def)
  moreover have "map (read_header b) (svb_headers b) =
      map (\<lambda>(n, hv). (Some (header_variable n), Some (join_header_values hv))) ?es"
    using read_described_headers [of b ?es forms "[]"] forms by (simp add: b_def vals)
  moreover have "length (svb_headers b) = length ?es"
    using forms by (simp add: b_def vals list_all2_lengthD)
  ultimately show ?thesis by (auto simp: as_c_batch_def)
qed

text \<open>Two headers, one common and one not, on a live request.\<close>

theorem collect_server_vars_readback_witness:
  "\<exists>s :: (unit, unit) request_context slot_state. \<exists>ctx cb s'. slots_abs s 0 = Some ctx \<and>
     frankenrust_collect_server_vars 0 False s = (Inr (True, Some cb, []), s') \<and> cb_num_headers cb = 2"
proof -
  let ?r = "with_header (with_header (request_new 0 ''GET'' ''/'') ''Accept'' ''*/*'') ''X-Trace'' ''1'' :: unit request"
  let ?ctx = "context_new [] None (Some ?r) signal_none :: (unit, unit) request_context"
  let ?s = "\<lparr>slots = [Some ?ctx], holding_slot_lock = False\<rparr>"
  have h: "\<not> holding_slot_lock ?s" "slots_abs ?s 0 = Some ?ctx" "ctx_request ?ctx = Some ?r"
    by (simp_all add: slots_abs_def context_new_def Let_def)
  have "canonical_header_name ''Accept'' \<noteq> canonical_header_name ''X-Trace''" by code_simp
  then have "length (headers_iter (req_headers ?r)) = 2"
    by (simp add: with_header_def request_new_def headers_insert_def headers_default_def headers_iter_def)
  with collect_server_vars_readback [OF h] h(2) show ?thesis
    by (intro exI [of _ ?s] exI [of _ ?ctx]) auto
qed

text \<open>The known variables reach C with their exact bytes: each pointer and length of the struct, read
  through the batch that owns the buffers, gives the computed variable, empty ones as NULL with
  length zero; REMOTE_HOST is REMOTE_ADDR, PHP_SELF is SCRIPT_NAME followed by PATH_INFO, and the
  protocol shows the two version numbers in decimal.\<close>

theorem known_vars_readback:
  "(case build_server_vars_batch ctx of None \<Rightarrow> ctx_request ctx = None
    | Some b \<Rightarrow>
       (let k = svb_known b; f = as_ffi k in
        map (c_read b) [fsv_remote_addr f, fsv_remote_host f, fsv_remote_port f, fsv_document_root f,
            fsv_path_info f, fsv_php_self f, fsv_document_uri f, fsv_script_filename f, fsv_script_name f,
            fsv_server_name f, fsv_server_port f, fsv_content_length f, fsv_server_protocol f,
            fsv_http_host f, fsv_request_uri f, fsv_ssl_cipher f] =
        map Some [csv_remote_addr k, csv_remote_addr k, csv_remote_port k, ctx_document_root ctx,
            ctx_path_info ctx, ctx_script_name ctx @ ctx_path_info ctx, ctx_doc_uri ctx,
            ctx_script_filename ctx, ctx_script_name ctx, csv_server_name k, csv_server_port k,
            csv_content_length k, csv_server_protocol k, csv_http_host k, ctx_request_uri ctx, []] \<and>
        (\<exists>major minor. csv_server_protocol k = ''HTTP/'' @ major @ ''.'' @ minor \<and>
           map_option (\<lambda>r. (unat (req_proto_major r), unat (req_proto_minor r))) (ctx_request ctx)
             = Some (read_nat major, read_nat minor))))"
proof (cases "ctx_request ctx")
  case None
  then show ?thesis by (simp add: build_server_vars_batch_def compute_server_vars_def)
next
  case (Some r)
  obtain k where k: "compute_server_vars ctx = Some k"
    using Some by (auto simp: compute_server_vars_def Let_def split_def)
  obtain b where b: "build_server_vars_batch ctx = Some b" "svb_known b = k"
    using Some k by (simp add: build_server_vars_batch_def split_def Let_def)
  have fields: "csv_document_root k = ctx_document_root ctx" "csv_path_info k = ctx_path_info ctx"
    "csv_php_self k = ctx_script_name ctx @ ctx_path_info ctx" "csv_document_uri k = ctx_doc_uri ctx"
    "csv_script_filename k = ctx_script_filename ctx" "csv_script_name k = ctx_script_name ctx"
    "csv_request_uri k = ctx_request_uri ctx"
    "csv_server_protocol k = ''HTTP/'' @ fmt_nat (unat (req_proto_major r)) @ ''.'' @
       fmt_nat (unat (req_proto_minor r))"
    using k Some by (auto simp: compute_server_vars_def Let_def split_def)
  have rd: "c_read b (c_buf (Known_Buf f) v) = Some v" if "known_field k f = Some v" for f v
    using that b(2) by (intro c_read_buf) simp_all
  have ssl: "c_read b (Null, 0) = Some []" by (simp add: c_read_def)
  show ?thesis
    unfolding b(1) option.case b(2) Let_def
  proof (intro conjI)
    show "\<exists>major minor. csv_server_protocol k = ''HTTP/'' @ major @ ''.'' @ minor \<and>
        map_option (\<lambda>r. (unat (req_proto_major r), unat (req_proto_minor r))) (ctx_request ctx)
          = Some (read_nat major, read_nat minor)"
      unfolding fields Some
      by (intro exI [of _ "fmt_nat (unat (req_proto_major r))"] exI [of _ "fmt_nat (unat (req_proto_minor r))"])
        simp
  qed (simp add: as_ffi_def Let_def rd known_field_def fields ssl)
qed

subsection \<open>Request information through the arena\<close>

lemma nonempty_first_eq:
  "nonempty_first h n = (case headers_get_first h n of Some v \<Rightarrow> if v = [] then None else Some v | None \<Rightarrow> None)"
  by (simp add: nonempty_first_def)

text \<open>An allocation that may not happen.\<close>

definition alloc_opt :: "bytes option \<Rightarrow> c_ptr \<Rightarrow> request_arena \<Rightarrow> c_ptr \<times> request_arena" where
  "alloc_opt o' p a = (case o' of Some bs \<Rightarrow> arena_alloc a bs | None \<Rightarrow> (p, a))"

lemma alloc_opt_extends:
  "alloc_opt o' p a = (q, a') \<Longrightarrow> arena_extends a a' \<and>
     (case o' of Some bs \<Rightarrow> arena_deref a' q = Some (bs @ [CHR 0x00]) | None \<Rightarrow> q = p)"
  by (auto simp: alloc_opt_def arena_alloc_extends split: option.splits)

lemma update_request_info_opt:
  "ctx_request ctx = Some r \<Longrightarrow> update_request_info ctx info =
     (let (m, a1) = (case cached_method_cstr (req_method r) of
            Some p \<Rightarrow> (p, ctx_arena ctx) | None \<Rightarrow> arena_alloc (ctx_arena ctx) (req_method r));
          (q, a2) = arena_alloc a1 (req_query r);
          (ct, a3) = alloc_opt (nonempty_first (req_headers r) ''Content-Type'') (sri_content_type info) a2;
          (pt, a4) = alloc_opt (if ctx_path_info ctx = [] then None
             else Some (sanitized_path_join (ctx_document_root ctx) (ctx_path_info ctx))) (sri_path_translated info) a3;
          (u, a5) = arena_alloc a4 (ctx_request_uri ctx);
          (au, a6) = alloc_opt (nonempty_first (req_headers r) ''Authorization'') Null a5
      in (au, ctx\<lparr>ctx_arena := a6\<rparr>,
          info\<lparr>sri_request_method := m, sri_query_string := q, sri_content_length := req_content_length r,
               sri_content_type := ct, sri_path_translated := pt, sri_request_uri := u,
               sri_proto_num := ucast (req_proto_major r) * 1000 + ucast (req_proto_minor r)\<rparr>))"
  by (cases info; cases "nonempty_first (req_headers r) ''Content-Type''"; cases "ctx_path_info ctx = []";
      cases "nonempty_first (req_headers r) ''Authorization''")
    (simp_all add: update_request_info_def alloc_opt_def Let_def split_def)

lemma proto_num_exact:
  fixes major minor :: "16 word"
  shows "sint (ucast major * 1000 + ucast minor :: 32 word) = uint major * 1000 + uint minor"
proof -
  have b: "uint major < 65536" "uint minor < 65536" "0 \<le> uint major" "0 \<le> uint minor"
    using uint_bounded [of major] uint_bounded [of minor] by simp_all
  have w: "ucast major * 1000 + ucast minor = (word_of_int (uint major * 1000 + uint minor) :: 32 word)"
    unfolding ucast_eq wi_hom_add [symmetric] wi_hom_mult [symmetric] by simp
  show ?thesis unfolding w int_word_sint using b by simp
qed

text \<open>\<^verbatim>\<open>SG(request_info)\<close> is filled from the request, and every string it points at stays readable: for
  a context with a request, the method, query string and request URI read back as C strings from the
  request's arena or from a literal, the content type and the translated path when there is one and
  the untouched field when there is none, the returned pointer reads the Authorization value or is
  NULL, the protocol number is exact, and no earlier arena pointer is disturbed.\<close>

theorem update_request_info_readback:
  assumes "ctx_request ctx = Some r"
  shows "(let (auth, ctx', info') = update_request_info ctx info; a = ctx_arena ctx' in
     arena_extends (ctx_arena ctx) a \<and>
     arena_deref a (sri_request_method info') = Some (req_method r @ [CHR 0x00]) \<and>
     arena_deref a (sri_query_string info') = Some (req_query r @ [CHR 0x00]) \<and>
     arena_deref a (sri_request_uri info') = Some (ctx_request_uri ctx @ [CHR 0x00]) \<and>
     sri_content_length info' = req_content_length r \<and>
     (case nonempty_first (req_headers r) ''Content-Type'' of
        Some v \<Rightarrow> arena_deref a (sri_content_type info') = Some (v @ [CHR 0x00])
      | None \<Rightarrow> sri_content_type info' = sri_content_type info) \<and>
     (if ctx_path_info ctx = [] then sri_path_translated info' = sri_path_translated info
      else arena_deref a (sri_path_translated info') =
        Some (sanitized_path_join (ctx_document_root ctx) (ctx_path_info ctx) @ [CHR 0x00])) \<and>
     sint (sri_proto_num info') = uint (req_proto_major r) * 1000 + uint (req_proto_minor r) \<and>
     (case nonempty_first (req_headers r) ''Authorization'' of
        Some v \<Rightarrow> arena_deref a auth = Some (v @ [CHR 0x00]) | None \<Rightarrow> auth = Null) \<and>
     ctx' = ctx\<lparr>ctx_arena := a\<rparr>)"
proof -
  let ?pt = "if ctx_path_info ctx = [] then None
      else Some (sanitized_path_join (ctx_document_root ctx) (ctx_path_info ctx))"
  obtain m a1 where 1: "(case cached_method_cstr (req_method r) of
      Some p \<Rightarrow> (p, ctx_arena ctx) | None \<Rightarrow> arena_alloc (ctx_arena ctx) (req_method r)) = (m, a1)" by fastforce
  obtain q a2 where 2: "arena_alloc a1 (req_query r) = (q, a2)" by fastforce
  obtain ct a3 where 3: "alloc_opt (nonempty_first (req_headers r) ''Content-Type'') (sri_content_type info) a2
      = (ct, a3)" by fastforce
  obtain pt a4 where 4: "alloc_opt ?pt (sri_path_translated info) a3 = (pt, a4)" by fastforce
  obtain u a5 where 5: "arena_alloc a4 (ctx_request_uri ctx) = (u, a5)" by fastforce
  obtain au a6 where 6: "alloc_opt (nonempty_first (req_headers r) ''Authorization'') Null a5 = (au, a6)"
    by fastforce
  have m: "arena_extends (ctx_arena ctx) a1" "arena_deref a1 m = Some (req_method r @ [CHR 0x00])"
    using 1 arena_alloc_extends by (auto simp: cached_method_cstr_def split: if_splits)
  note q = arena_alloc_extends [OF 2] and ct = alloc_opt_extends [OF 3] and pt = alloc_opt_extends [OF 4]
    and u = arena_alloc_extends [OF 5] and au = alloc_opt_extends [OF 6]
  have e5: "arena_extends a5 a6" and e4: "arena_extends a4 a6" and e3: "arena_extends a3 a6"
    and e2: "arena_extends a2 a6" and e1: "arena_extends a1 a6" and e0: "arena_extends (ctx_arena ctx) a6"
    using m q ct pt u au by (blast intro: arena_extends_trans)+
  have ct': "case nonempty_first (req_headers r) ''Content-Type'' of
      Some v \<Rightarrow> arena_deref a6 ct = Some (v @ [CHR 0x00]) | None \<Rightarrow> ct = sri_content_type info"
    using ct arena_extends_deref [OF e3] by (simp split: option.splits)
  have pt': "if ctx_path_info ctx = [] then pt = sri_path_translated info
      else arena_deref a6 pt = Some (sanitized_path_join (ctx_document_root ctx) (ctx_path_info ctx) @ [CHR 0x00])"
    using pt arena_extends_deref [OF e4] by (simp split: if_splits)
  have "update_request_info ctx info = (au, ctx\<lparr>ctx_arena := a6\<rparr>,
      info\<lparr>sri_request_method := m, sri_query_string := q, sri_content_length := req_content_length r,
        sri_content_type := ct, sri_path_translated := pt, sri_request_uri := u,
        sri_proto_num := ucast (req_proto_major r) * 1000 + ucast (req_proto_minor r)\<rparr>)"
    by (simp add: update_request_info_opt [OF assms] 1 2 3 4 5 6)
  then show ?thesis
    using arena_extends_deref [OF e1 m(2)] arena_extends_deref [OF e2 q [THEN conjunct2]]
      arena_extends_deref [OF e5 u [THEN conjunct2]] e0 ct' pt' au
    unfolding Let_def
    by (cases "nonempty_first (req_headers r) ''Content-Type''";
        cases "nonempty_first (req_headers r) ''Authorization''") (simp_all add: proto_num_exact)
qed

text \<open>A request whose method is not cached, with a path info.\<close>

theorem update_request_info_readback_witness:
  "let ctx = (context_new ''/srv'' None (Some (request_new 0 ''PURGE'' ''/a.php/b'')) signal_none
       :: (unit, unit) request_context)\<lparr>ctx_path_info := ''/b''\<rparr>;
       info = \<lparr>sri_request_method = Null, sri_query_string = Null, sri_content_length = 0,
               sri_content_type = Null, sri_path_translated = Null, sri_request_uri = Null, sri_proto_num = 0\<rparr>;
       (auth, ctx', info') = update_request_info ctx info
   in arena_deref (ctx_arena ctx') (sri_request_method info') = Some (''PURGE'' @ [CHR 0x00])"
proof -
  let ?ctx = "(context_new ''/srv'' None (Some (request_new 0 ''PURGE'' ''/a.php/b'')) signal_none
       :: (unit, unit) request_context)\<lparr>ctx_path_info := ''/b''\<rparr>"
  have "ctx_request ?ctx = Some (request_new 0 ''PURGE'' ''/a.php/b'')"
    by (simp add: context_new_def Let_def)
  from update_request_info_readback [OF this] show ?thesis
    unfolding Let_def split_def by (simp add: request_new_def)
qed

end
