(* ===== verification/PhpThread.thy ===== *)
theory PhpThread
  imports ThreadState ContextSlots
begin

section \<open>A PHP thread slot: \<^verbatim>\<open>PhpThread\<close> of \<^verbatim>\<open>thread.rs\<close>\<close>

text \<open>
  The data of a registry slot and every operation that takes one of its locks once: script paths,
  the drain channel with its generations, the handler cell, the force-kill cell. An operation that
  the source blocks in is split at its lock releases in \<^verbatim>\<open>SlotProtocol\<close>. A channel, a token and
  a force-kill slot are identities from one supply of fresh numbers; C's force-kill value is opaque
  to Rust, which stores it and hands it back.
\<close>

subsection \<open>Handlers and script paths\<close>

text \<open>The two implementations of the handler trait. A regular handler has the identity of its own
  directed channel.\<close>

datatype thread_handler = Inactive_Thread | Regular_Thread nat

fun handler_name :: "thread_handler \<Rightarrow> string" where
  "handler_name Inactive_Thread = ''Inactive PHP Thread''"
| "handler_name (Regular_Thread _) = ''Regular PHP Thread''"

definition script_path_new :: "bytes \<Rightarrow> bytes option" where
  "script_path_new bs = (if bs = [] then None else Some (bs @ [CHR 0x00]))"

subsection \<open>Drain generations\<close>

record drain_generation =
  dg_generation :: "64 word"
  dg_sender :: "nat option"
  dg_receiver :: nat

record drain_receiver =
  dr_generation :: "64 word"
  dr_receiver :: nat

definition drain_of_generation :: "64 word \<Rightarrow> nat \<Rightarrow> drain_generation" where
  "drain_of_generation generation fresh =
     \<lparr>dg_generation = generation, dg_sender = Some fresh, dg_receiver = fresh\<rparr>"

definition drain_new :: "nat \<Rightarrow> drain_generation" where
  "drain_new fresh = drain_of_generation 0 fresh"

definition drain_get_receiver :: "drain_generation \<Rightarrow> drain_receiver" where
  "drain_get_receiver current = \<lparr>dr_generation = dg_generation current, dr_receiver = dg_receiver current\<rparr>"

text \<open>A closed generation is its number, consumed by reopening.\<close>

definition drain_close :: "drain_generation \<Rightarrow> 64 word option \<times> drain_generation" where
  "drain_close current =
     (case dg_sender current of
        None \<Rightarrow> (None, current)
      | Some sender \<Rightarrow> (Some (dg_generation current), current\<lparr>dg_sender := None\<rparr>))"

definition drain_reopen :: "64 word \<Rightarrow> nat \<Rightarrow> drain_generation \<Rightarrow> drain_generation" where
  "drain_reopen closed fresh current =
     (if dg_generation current = closed \<and> dg_sender current = None
      then drain_of_generation (closed + 1) fresh else current)"

definition drain_renew :: "nat \<Rightarrow> drain_generation \<Rightarrow> drain_generation" where
  "drain_renew fresh current =
     (case drain_close current of
        (Some closed, current) \<Rightarrow> drain_reopen closed fresh current
      | (None, current) \<Rightarrow> current)"

text \<open>A receiver is disconnected when its channel's only sender is gone.\<close>

definition drain_disconnected :: "drain_generation \<Rightarrow> nat \<Rightarrow> bool" where
  "drain_disconnected current chan = (dg_sender current \<noteq> Some chan)"

subsection \<open>The slot\<close>

record php_thread =
  pt_index :: nat
  pt_state :: thread_state
  pt_handler :: "thread_handler option"
  pt_drain :: drain_generation
  pt_script_path :: "bytes option"
  pt_force_kill :: "nat option"
  pt_fresh :: nat

definition thread_new :: "nat \<Rightarrow> php_thread" where
  "thread_new thread_index =
     \<lparr>pt_index = thread_index, pt_state = ts_new, pt_handler = None, pt_drain = drain_new 0,
      pt_script_path = None, pt_force_kill = None, pt_fresh = 1\<rparr>"

definition thread_name :: "php_thread \<Rightarrow> string" where
  "thread_name t = (case pt_handler t of None \<Rightarrow> ''unknown'' | Some h \<Rightarrow> handler_name h)"

definition handler_replace :: "thread_handler \<Rightarrow> php_thread \<Rightarrow> php_thread" where
  "handler_replace h t = t\<lparr>pt_handler := Some h\<rparr>"

definition publish_script_path :: "bytes \<Rightarrow> php_thread \<Rightarrow> php_thread" where
  "publish_script_path p t = t\<lparr>pt_script_path := Some p\<rparr>"

definition release_script_path :: "php_thread \<Rightarrow> php_thread" where
  "release_script_path t = t\<lparr>pt_script_path := None\<rparr>"

text \<open>Storing and clearing give the force-kill slots handed back to C for release.\<close>

definition store_force_kill_slot :: "nat \<Rightarrow> php_thread \<Rightarrow> nat list \<times> php_thread" where
  "store_force_kill_slot slot t =
     ((case pt_force_kill t of Some previous \<Rightarrow> [previous] | None \<Rightarrow> []),
      t\<lparr>pt_force_kill := Some slot\<rparr>)"

definition clear_force_kill_slot :: "php_thread \<Rightarrow> nat list \<times> php_thread" where
  "clear_force_kill_slot t =
     ((case pt_force_kill t of Some previous \<Rightarrow> [previous] | None \<Rightarrow> []),
      t\<lparr>pt_force_kill := None\<rparr>)"

definition send_kill_signal :: "php_thread \<Rightarrow> nat list" where
  "send_kill_signal t = (case pt_force_kill t of None \<Rightarrow> [] | Some slot \<Rightarrow> [slot])"

text \<open>The state a pthread leaves behind, as a function of the one it reads.\<close>

definition shutdown_target :: "state \<Rightarrow> state" where
  "shutdown_target st =
     (case st of Rebooting \<Rightarrow> RebootReady | ForceRebooting \<Rightarrow> YieldingForReboot | _ \<Rightarrow> Done)"

subsection \<open>The operations on the state, with the slot's supply of identities\<close>

definition with_state :: "(thread_state \<Rightarrow> thread_state) \<Rightarrow> php_thread \<Rightarrow> php_thread" where
  "with_state f t = t\<lparr>pt_state := f (pt_state t)\<rparr>"

definition set_state :: "state \<Rightarrow> php_thread \<Rightarrow> php_thread" where
  "set_state st = with_state (\<lambda>ts. ts_set ts st)"

definition cas_state :: "state \<Rightarrow> state \<Rightarrow> php_thread \<Rightarrow> bool \<times> php_thread" where
  "cas_state a b t = (case compare_and_swap (pt_state t) a b of (ok, ts) \<Rightarrow> (ok, t\<lparr>pt_state := ts\<rparr>))"

definition subscribe_state :: "state list \<Rightarrow> php_thread \<Rightarrow> nat option \<times> php_thread" where
  "subscribe_state states t =
     (case subscribe (pt_state t) states (pt_fresh t) of
        (None, ts) \<Rightarrow> (None, t)
      | (Some (chan, token), ts) \<Rightarrow> (Some chan, t\<lparr>pt_state := ts, pt_fresh := pt_fresh t + 1\<rparr>))"

definition request_state :: "state \<Rightarrow> php_thread \<Rightarrow> bool option \<times> php_thread" where
  "request_state st t = (case request_pass (pt_state t) st of (v, ts) \<Rightarrow> (v, t\<lparr>pt_state := ts\<rparr>))"

definition close_drain :: "php_thread \<Rightarrow> 64 word option \<times> php_thread" where
  "close_drain t = (case drain_close (pt_drain t) of (g, d) \<Rightarrow> (g, t\<lparr>pt_drain := d\<rparr>))"

definition reopen_drain :: "64 word \<Rightarrow> php_thread \<Rightarrow> php_thread" where
  "reopen_drain closed t =
     t\<lparr>pt_drain := drain_reopen closed (pt_fresh t) (pt_drain t), pt_fresh := pt_fresh t + 1\<rparr>"

definition renew_drain :: "php_thread \<Rightarrow> php_thread" where
  "renew_drain t = t\<lparr>pt_drain := drain_renew (pt_fresh t) (pt_drain t), pt_fresh := pt_fresh t + 1\<rparr>"

definition mark_waiting :: "bool \<Rightarrow> int \<Rightarrow> php_thread \<Rightarrow> php_thread" where
  "mark_waiting b now = with_state (\<lambda>ts. mark_as_waiting ts b now)"

abbreviation pt_current :: "php_thread \<Rightarrow> state" where
  "pt_current t \<equiv> ts_current (pt_state t)"

lemmas thread_defs = with_state_def set_state_def cas_state_def subscribe_state_def request_state_def
  close_drain_def reopen_drain_def renew_drain_def mark_waiting_def handler_replace_def
  publish_script_path_def release_script_path_def store_force_kill_slot_def clear_force_kill_slot_def

text \<open>A drain generation is closed at most once and never comes back: closing an open generation gives
  its number and disconnects every receiver of it; closing again gives nothing; reopening with the
  number installs the next wrapping generation, whose receivers are connected while the old ones
  stay disconnected; reopening with another generation's number, or an open channel, changes
  nothing; and a receiver can be taken at every moment, whether or not the channel is open.\<close>

theorem drain_generation_one_shot:
  assumes "dg_sender d = Some (dg_receiver d)" "fresh \<noteq> dg_receiver d"
  shows "(let (closed, d1) = drain_close d; g = dg_generation d; d2 = drain_reopen g fresh d1 in
     closed = Some g \<and> fst (drain_close d1) = None \<and> snd (drain_close d1) = d1 \<and>
     drain_disconnected d1 (dr_receiver (drain_get_receiver d)) \<and>
     drain_get_receiver d1 = drain_get_receiver d \<and>
     dr_generation (drain_get_receiver d2) = g + 1 \<and>
     \<not> drain_disconnected d2 (dr_receiver (drain_get_receiver d2)) \<and>
     drain_disconnected d2 (dr_receiver (drain_get_receiver d)) \<and>
     drain_reopen g fresh' d2 = d2 \<and> drain_reopen g fresh' d = d \<and>
     drain_reopen (g + 1) fresh' d1 = d1 \<and> drain_renew fresh d = d2)"
  using assms by (simp add: drain_close_def drain_reopen_def drain_of_generation_def
      drain_disconnected_def drain_get_receiver_def drain_renew_def Let_def)

text \<open>The first generation, closed and reopened.\<close>

theorem drain_generation_one_shot_witness:
  "drain_disconnected (snd (drain_close (drain_new 0))) 0 \<and>
   drain_renew 1 (drain_new 0) = drain_of_generation 1 1"
  using drain_generation_one_shot [of "drain_new 0" 1 2]
  by (simp add: drain_new_def drain_of_generation_def drain_close_def drain_reopen_def
      drain_renew_def drain_get_receiver_def Let_def)

end
