(* ===== verification/SlotProtocol.thy ===== *)
theory SlotProtocol
  imports PhpThread
begin

section \<open>The life of one slot: the PHP pthread against its controller\<close>

text \<open>
  \<^verbatim>\<open>thread.rs\<close>, \<^verbatim>\<open>thread_inactive.rs\<close> and the handler of \<^verbatim>\<open>thread_regular.rs\<close> as a step relation
  over one slot: on one side the PHP pthread, which runs the loop of \<^verbatim>\<open>php_thread()\<close> and blocks
  inside its callbacks, on the other the controller, whoever holds \<^verbatim>\<open>SCALING\<close>, which boots it,
  changes its handler and shuts it down. A step is one lock acquisition of the code, so each
  interleaving at a lock release is an execution here. The program counters are named after the
  place in the code. A parked counter carries the channel it blocks on.
\<close>

subsection \<open>Program counters and the system\<close>

datatype php_pc =
    P_Absent
  | P_Start                      \<comment> \<open>a new pthread, before its force-kill slot is stored\<close>
  | P_Enter                      \<comment> \<open>about to call before-script\<close>
  | P_Loop thread_handler        \<comment> \<open>the head of the handler's loop\<close>
  | P_Set_Inactive | P_Wait_Inactive | P_Parked_Inactive nat
  | P_Odd thread_handler | P_Parked_Odd thread_handler nat
  | P_Revive thread_handler      \<comment> \<open>RebootReady was read\<close>
  | P_Detach_Transition | P_Detach_Leave   \<comment> \<open>about to leave the dispatch registry\<close>
  | P_Transition | P_Wait_Complete | P_Parked_Complete nat | P_Reread
  | P_Set_Ready nat | P_Fetch nat | P_Select nat drain_receiver
  | P_Script nat
  | P_Unhealthy                  \<comment> \<open>a script bailed out: C replaces the pthread\<close>
  | P_Leave                      \<comment> \<open>before-script returned NULL\<close>
  | P_Freed                      \<comment> \<open>after \<^verbatim>\<open>ts_free_thread\<close>\<close>
  | P_Exit state

datatype ctl_pc =
    C_Idle
  | C_Claim | C_Boot | C_Install | C_Launch | C_Boot_Wait | C_Boot_Parked nat
  | C_Set thread_handler | C_Set_Retry thread_handler | C_Set_Parked thread_handler nat
  | C_Set_Close thread_handler | C_Set_Wait thread_handler "64 word"
  | C_Set_Await thread_handler "64 word" nat
  | C_Replace thread_handler "64 word" | C_Reopen thread_handler "64 word" | C_Complete thread_handler
  | C_Shut | C_Shut_Retry | C_Shut_Parked nat | C_Refused | C_Shut_Close
  | C_Grace "64 word" | C_Graced "64 word" nat | C_Kill "64 word"
  | C_Done_Wait "64 word" | C_Done_Parked "64 word" nat | C_Finish "64 word" | C_Reserve
  | C_Diagnostic                 \<comment> \<open>no open drain generation was found\<close>

text \<open>\<open>sl_context\<close> is this index's entry of the context table, \<open>sl_entries\<close> the directed channels the
  dispatch registry has for this index, \<open>sl_unattached\<close> those of handlers installed and not yet
  attached, \<open>sl_killed\<close> the force-kill slots a kill signal was sent to.\<close>

record ('s, 'k) slot =
  sl_thread :: php_thread
  sl_context :: "('s, 'k) request_context option"
  sl_host :: host
  sl_entries :: "nat list"
  sl_unattached :: "nat list"
  sl_killed :: "nat list"
  sl_php :: php_pc
  sl_ctl :: ctl_pc

definition slot_new :: "nat \<Rightarrow> host \<Rightarrow> ('s, 'k) slot" where
  "slot_new thread_index w =
     \<lparr>sl_thread = thread_new thread_index, sl_context = None, sl_host = w, sl_entries = [],
      sl_unattached = [], sl_killed = [], sl_php = P_Absent, sl_ctl = C_Idle\<rparr>"

text \<open>A subscription either returns at once or parks.\<close>

definition wait_on :: "state list \<Rightarrow> (nat \<Rightarrow> 'p) \<Rightarrow> 'p \<Rightarrow> php_thread \<Rightarrow> 'p \<times> php_thread" where
  "wait_on states parked through t =
     (case subscribe_state states t of
        (None, t) \<Rightarrow> (through, t)
      | (Some chan, t) \<Rightarrow> (parked chan, t))"

definition php_goto :: "php_pc \<times> php_thread \<Rightarrow> ('s, 'k) slot \<Rightarrow> ('s, 'k) slot" where
  "php_goto r s = s\<lparr>sl_php := fst r, sl_thread := snd r\<rparr>"

definition ctl_goto :: "ctl_pc \<times> php_thread \<Rightarrow> ('s, 'k) slot \<Rightarrow> ('s, 'k) slot" where
  "ctl_goto r s = s\<lparr>sl_ctl := fst r, sl_thread := snd r\<rparr>"

subsection \<open>The handlers' loops\<close>

definition inactive_wait_states :: "state list" where
  "inactive_wait_states = [TransitionRequested, ShuttingDown, Rebooting, ForceRebooting]"

definition inactive_odd_states :: "state list" where
  "inactive_odd_states = [Booting, TransitionRequested, TransitionComplete, Inactive, ShuttingDown,
     Rebooting, ForceRebooting, RebootReady]"

definition regular_odd_states :: "state list" where
  "regular_odd_states = [TransitionRequested, TransitionComplete, Ready, Rebooting, ForceRebooting,
     RebootReady, ShuttingDown]"

fun odd_states :: "thread_handler \<Rightarrow> state list" where
  "odd_states Inactive_Thread = inactive_odd_states"
| "odd_states (Regular_Thread _) = regular_odd_states"

text \<open>The match on the state at the head of each loop.\<close>

definition inactive_arm :: "state \<Rightarrow> php_pc" where
  "inactive_arm st =
     (case st of
        TransitionRequested \<Rightarrow> P_Transition
      | Booting \<Rightarrow> P_Set_Inactive | TransitionComplete \<Rightarrow> P_Set_Inactive | Inactive \<Rightarrow> P_Set_Inactive
      | Rebooting \<Rightarrow> P_Leave | ForceRebooting \<Rightarrow> P_Leave | ShuttingDown \<Rightarrow> P_Leave
      | RebootReady \<Rightarrow> P_Revive Inactive_Thread
      | _ \<Rightarrow> P_Odd Inactive_Thread)"

definition regular_arm :: "nat \<Rightarrow> state \<Rightarrow> php_pc" where
  "regular_arm n st =
     (case st of
        TransitionRequested \<Rightarrow> P_Detach_Transition
      | TransitionComplete \<Rightarrow> P_Set_Ready n
      | Ready \<Rightarrow> P_Fetch n
      | Rebooting \<Rightarrow> P_Leave | ForceRebooting \<Rightarrow> P_Leave
      | RebootReady \<Rightarrow> P_Revive (Regular_Thread n)
      | ShuttingDown \<Rightarrow> P_Detach_Leave
      | _ \<Rightarrow> P_Odd (Regular_Thread n))"

fun handler_arm :: "thread_handler \<Rightarrow> state \<Rightarrow> php_pc" where
  "handler_arm Inactive_Thread st = inactive_arm st"
| "handler_arm (Regular_Thread n) st = regular_arm n st"

fun revived_state :: "thread_handler \<Rightarrow> state" where
  "revived_state Inactive_Thread = Inactive"
| "revived_state (Regular_Thread _) = Ready"

subsection \<open>The PHP pthread\<close>

text \<open>The steps the code determines; None where the pthread is blocked, absent or inside a script.\<close>

definition php_next :: "int \<Rightarrow> ('s, 'k) slot \<Rightarrow> ('s, 'k) slot option" where
  "php_next now s =
     (let t = sl_thread s in
      case sl_php s of
        P_Start \<Rightarrow> Some (php_goto (P_Enter, (snd (store_force_kill_slot (pt_fresh t) t))
                                         \<lparr>pt_fresh := pt_fresh t + 1\<rparr>) s)
      | P_Enter \<Rightarrow> Some (php_goto (case pt_handler t of None \<Rightarrow> P_Leave | Some h \<Rightarrow> P_Loop h, t) s)
      | P_Loop h \<Rightarrow> Some (php_goto (handler_arm h (ts_get (pt_state t)), t) s)
      | P_Detach_Transition \<Rightarrow> Some (php_goto (P_Transition, t) (s\<lparr>sl_entries := []\<rparr>))
      | P_Detach_Leave \<Rightarrow> Some (php_goto (P_Leave, t) (s\<lparr>sl_entries := []\<rparr>))
      | P_Set_Inactive \<Rightarrow> Some (php_goto (P_Wait_Inactive, set_state Inactive t) s)
      | P_Wait_Inactive \<Rightarrow>
          Some (php_goto (wait_on inactive_wait_states P_Parked_Inactive (P_Loop Inactive_Thread)
                            (mark_waiting True now t)) s)
      | P_Parked_Inactive chan \<Rightarrow>
          (if disconnected (pt_state t) chan
           then Some (php_goto (P_Loop Inactive_Thread, mark_waiting False now t) s) else None)
      | P_Odd h \<Rightarrow> Some (php_goto (wait_on (odd_states h) (P_Parked_Odd h) (P_Loop h) t) s)
      | P_Parked_Odd h chan \<Rightarrow>
          (if disconnected (pt_state t) chan then Some (php_goto (P_Loop h, t) s) else None)
      | P_Revive h \<Rightarrow> Some (php_goto (P_Loop h, set_state (revived_state h) t) s)
      | P_Transition \<Rightarrow> Some (php_goto (P_Wait_Complete, set_state TransitionInProgress t) s)
      | P_Wait_Complete \<Rightarrow>
          Some (php_goto (wait_on [TransitionComplete] P_Parked_Complete P_Reread t) s)
      | P_Parked_Complete chan \<Rightarrow>
          (if disconnected (pt_state t) chan then Some (php_goto (P_Reread, t) s) else None)
      | P_Reread \<Rightarrow> Some (php_goto (case pt_handler t of None \<Rightarrow> P_Leave | Some h \<Rightarrow> P_Loop h, t) s)
      | P_Set_Ready n \<Rightarrow> Some (php_goto (P_Loop (Regular_Thread n), set_state Ready t) s)
      | P_Fetch n \<Rightarrow>
          Some (php_goto (P_Select n (drain_get_receiver (pt_drain t)), mark_waiting True now t) s)
      | P_Unhealthy \<Rightarrow> Some (php_goto (P_Start, snd (clear_force_kill_slot t)) s)
      | P_Leave \<Rightarrow> Some (php_goto (P_Freed, snd (clear_force_kill_slot t)) s)
      | P_Freed \<Rightarrow>
          Some (php_goto (P_Exit (shutdown_target (ts_get (pt_state t))), release_script_path t) s)
      | P_Exit st \<Rightarrow> Some (php_goto (P_Absent, set_state st t) s)
      | _ \<Rightarrow> None)"

text \<open>A request arrives at the parked regular thread: its context is installed, its path published.\<close>

definition deliver :: "('s, 'k) request_context \<Rightarrow> int \<Rightarrow> nat \<Rightarrow> ('s, 'k) slot \<Rightarrow> ('s, 'k) slot" where
  "deliver ctx now n s =
     (let t = mark_waiting False now (sl_thread s); s = s\<lparr>sl_context := Some ctx\<rparr>
      in case script_path_new (ctx_script_filename ctx) of
           None \<Rightarrow> php_goto (P_Leave, t) s
         | Some path \<Rightarrow> php_goto (P_Script n, publish_script_path path t) s)"

text \<open>The script ends, in order or by a bailout: after-script closes and clears the context and
  releases the path.\<close>

definition after_script :: "('s, 'k) slot \<Rightarrow> ('s, 'k) slot" where
  "after_script s =
     (let s = (case sl_context s of
                 None \<Rightarrow> s
               | Some ctx \<Rightarrow> (case close_context ctx (sl_host s) of (ctx, w) \<Rightarrow>
                                s\<lparr>sl_context := Some ctx, sl_host := w\<rparr>))
      in s\<lparr>sl_context := None, sl_thread := release_script_path (sl_thread s)\<rparr>)"

text \<open>The sender of a handler's own channel is with the conversion that made it, then waits to be attached,
  then is in the registry; once it is nowhere the channel is disconnected. The shared channel is static
  and never is.\<close>

fun handler_names :: "thread_handler \<Rightarrow> nat list" where
  "handler_names Inactive_Thread = []"
| "handler_names (Regular_Thread n) = [n]"

fun ctl_names :: "ctl_pc \<Rightarrow> nat list" where
  "ctl_names (C_Set h) = handler_names h"
| "ctl_names (C_Set_Retry h) = handler_names h"
| "ctl_names (C_Set_Parked h _) = handler_names h"
| "ctl_names (C_Set_Close h) = handler_names h"
| "ctl_names (C_Set_Wait h _) = handler_names h"
| "ctl_names (C_Set_Await h _ _) = handler_names h"
| "ctl_names (C_Replace h _) = handler_names h"
| "ctl_names (C_Reopen h _) = handler_names h"
| "ctl_names (C_Complete h) = handler_names h"
| "ctl_names _ = []"

definition own_channel_connected :: "nat \<Rightarrow> ('s, 'k) slot \<Rightarrow> bool" where
  "own_channel_connected n s = (n \<in> set (sl_entries s) \<union> set (sl_unattached s) \<union> set (ctl_names (sl_ctl s)))"

text \<open>The pthread's own steps: those the code determines, and the two ways in which its select ends without
  a request, by the drain and by a channel that hung up.\<close>

inductive php_own :: "('s, 'k) slot \<Rightarrow> ('s, 'k) slot \<Rightarrow> bool" where
  run: "php_next now s = Some s' \<Longrightarrow> php_own s s'"
| drained: "sl_php s = P_Select n dr \<Longrightarrow> drain_disconnected (pt_drain (sl_thread s)) (dr_receiver dr) \<Longrightarrow>
    php_own s (php_goto (P_Loop (Regular_Thread n), mark_waiting False now (sl_thread s)) s)"
| hung_up: "sl_php s = P_Select n dr \<Longrightarrow> \<not> own_channel_connected n s \<Longrightarrow>
    php_own s (php_goto (P_Loop (Regular_Thread n), mark_waiting False now (sl_thread s)) s)"

text \<open>With what others make it do: a request arrives, a script ends or bails out. \<open>adverse\<close> says whether
  the two things may happen that strand a slot: a request whose script filename is empty, and C failing to
  create the pthread that takes over from one whose script bailed out.\<close>

inductive php_step :: "bool \<Rightarrow> ('s, 'k) slot \<Rightarrow> ('s, 'k) slot \<Rightarrow> bool" for adverse where
  own: "php_own s s' \<Longrightarrow> php_step adverse s s'"
| delivered: "sl_php s = P_Select n dr \<Longrightarrow> adverse \<or> ctx_script_filename ctx \<noteq> [] \<Longrightarrow>
    php_step adverse s (deliver ctx now n s)"
| script_end: "sl_php s = P_Script n \<Longrightarrow> php_step adverse s ((after_script s)\<lparr>sl_php := P_Enter\<rparr>)"
| script_bailout: "sl_php s = P_Script n \<Longrightarrow> php_step adverse s ((after_script s)\<lparr>sl_php := P_Unhealthy\<rparr>)"
| not_restarted: "sl_php s = P_Unhealthy \<Longrightarrow> adverse \<Longrightarrow>
    php_step adverse s (php_goto (P_Absent, snd (clear_force_kill_slot (sl_thread s))) s)"

subsection \<open>The controller\<close>

definition request_verdict :: "ctl_pc \<Rightarrow> ctl_pc \<Rightarrow> ctl_pc \<Rightarrow> bool option \<Rightarrow> ctl_pc" where
  "request_verdict granted refused postponed v =
     (case v of Some True \<Rightarrow> granted | Some False \<Rightarrow> refused | None \<Rightarrow> postponed)"

definition boot_next :: "('s, 'k) slot \<Rightarrow> ('s, 'k) slot option" where
  "boot_next s =
     (let t = sl_thread s in
      case sl_ctl s of
        C_Claim \<Rightarrow> (case cas_state Reserved BootRequested t of (ok, t) \<Rightarrow>
                      Some (ctl_goto (if ok then C_Boot else C_Idle, t) s))
      | C_Boot \<Rightarrow>
          (case cas_state Reserved Booting t of
             (True, t) \<Rightarrow> Some (ctl_goto (C_Install, t) s)
           | (False, t) \<Rightarrow> (case cas_state BootRequested Booting t of (ok, t) \<Rightarrow>
                              Some (ctl_goto (if ok then C_Install else C_Idle, t) s)))
      | C_Install \<Rightarrow> Some (ctl_goto (C_Launch, renew_drain (handler_replace Inactive_Thread t)) s)
      | C_Boot_Wait \<Rightarrow> Some (ctl_goto (wait_on [Inactive] C_Boot_Parked C_Idle t) s)
      | C_Boot_Parked chan \<Rightarrow>
          (if disconnected (pt_state t) chan then Some (ctl_goto (C_Idle, t) s) else None)
      | _ \<Rightarrow> None)"

definition set_handler_next :: "('s, 'k) slot \<Rightarrow> ('s, 'k) slot option" where
  "set_handler_next s =
     (let t = sl_thread s in
      case sl_ctl s of
        C_Set h \<Rightarrow> (case request_state TransitionRequested t of (v, t) \<Rightarrow>
                      Some (ctl_goto (request_verdict (C_Set_Close h) C_Idle (C_Set_Retry h) v, t) s))
      | C_Set_Retry h \<Rightarrow> Some (ctl_goto (wait_on request_wait_states (C_Set_Parked h) (C_Set h) t) s)
      | C_Set_Parked h chan \<Rightarrow>
          (if disconnected (pt_state t) chan then Some (ctl_goto (C_Set h, t) s) else None)
      | C_Set_Close h \<Rightarrow>
          (case close_drain t of
             (Some closed, t) \<Rightarrow> Some (ctl_goto (C_Set_Wait h closed, t) s)
           | (None, t) \<Rightarrow> Some (ctl_goto (C_Diagnostic, t) s))
      | C_Set_Wait h closed \<Rightarrow>
          Some (ctl_goto (wait_on [TransitionInProgress] (C_Set_Await h closed) (C_Replace h closed) t) s)
      | C_Set_Await h closed chan \<Rightarrow>
          (if disconnected (pt_state t) chan then Some (ctl_goto (C_Replace h closed, t) s) else None)
      | C_Replace h closed \<Rightarrow> Some (ctl_goto (C_Reopen h closed, handler_replace h t) s)
      | C_Reopen h closed \<Rightarrow> Some (ctl_goto (C_Complete h, reopen_drain closed t) s)
      | C_Complete h \<Rightarrow>
          Some (ctl_goto (C_Idle, set_state TransitionComplete t)
            (case h of Regular_Thread n \<Rightarrow> s\<lparr>sl_unattached := n # sl_unattached s\<rparr>
                     | Inactive_Thread \<Rightarrow> s))
      | _ \<Rightarrow> None)"

definition begin_shutdown_next :: "('s, 'k) slot \<Rightarrow> ('s, 'k) slot option" where
  "begin_shutdown_next s =
     (let t = sl_thread s in
      case sl_ctl s of
        C_Shut \<Rightarrow> (case request_state ShuttingDown t of (v, t) \<Rightarrow>
                     Some (ctl_goto (request_verdict C_Shut_Close C_Refused C_Shut_Retry v, t) s))
      | C_Shut_Retry \<Rightarrow> Some (ctl_goto (wait_on request_wait_states C_Shut_Parked C_Shut t) s)
      | C_Shut_Parked chan \<Rightarrow>
          (if disconnected (pt_state t) chan then Some (ctl_goto (C_Shut, t) s) else None)
      | C_Refused \<Rightarrow> (case cas_state Done Reserved t of (ok, t) \<Rightarrow> Some (ctl_goto (C_Idle, t) s))
      | C_Shut_Close \<Rightarrow>
          (case close_drain t of
             (Some closed, t) \<Rightarrow> Some (ctl_goto (C_Grace closed, t) s)
           | (None, t) \<Rightarrow> Some (ctl_goto (C_Diagnostic, t) s))
      | _ \<Rightarrow> None)"

definition shutdown_next :: "('s, 'k) slot \<Rightarrow> ('s, 'k) slot option" where
  "shutdown_next s =
     (let t = sl_thread s in
      case sl_ctl s of
        C_Grace closed \<Rightarrow> Some (ctl_goto (wait_on [Done] (C_Graced closed) (C_Finish closed) t) s)
      | C_Graced closed chan \<Rightarrow>
          (if disconnected (pt_state t) chan then Some (ctl_goto (C_Finish closed, t) s) else None)
      | C_Kill closed \<Rightarrow> Some (ctl_goto (C_Done_Wait closed, t)
                                  (s\<lparr>sl_killed := sl_killed s @ send_kill_signal t\<rparr>))
      | C_Done_Wait closed \<Rightarrow> Some (ctl_goto (wait_on [Done] (C_Done_Parked closed) (C_Finish closed) t) s)
      | C_Done_Parked closed chan \<Rightarrow>
          (if disconnected (pt_state t) chan then Some (ctl_goto (C_Finish closed, t) s) else None)
      | _ \<Rightarrow> None)"

definition finish_shutdown_next :: "('s, 'k) slot \<Rightarrow> ('s, 'k) slot option" where
  "finish_shutdown_next s =
     (let t = sl_thread s in
      case sl_ctl s of
        C_Finish closed \<Rightarrow> Some (ctl_goto (C_Reserve, reopen_drain closed t) s)
      | C_Reserve \<Rightarrow> Some (ctl_goto (C_Idle, set_state Reserved t) s)
      | _ \<Rightarrow> None)"

text \<open>The controller starts an operation on an idle slot; a launch succeeds or fails; a timed wait may
  time out and takes its subscription back. \<open>settled\<close> is the check for Done with which each pass of
  \<^verbatim>\<open>drain_generation\<close> skips a slot.\<close>

inductive ctl_step :: "('s, 'k) slot \<Rightarrow> ('s, 'k) slot \<Rightarrow> bool" where
  start: "sl_ctl s = C_Idle \<Longrightarrow> c \<in> {C_Claim, C_Boot, C_Shut} \<Longrightarrow> ctl_step s (s\<lparr>sl_ctl := c\<rparr>)"
| start_set: "sl_ctl s = C_Idle \<Longrightarrow> ctl_step s (s\<lparr>sl_ctl := C_Set h\<rparr>)"
| boot: "boot_next s = Some s' \<Longrightarrow> ctl_step s s'"
| launched: "sl_ctl s = C_Launch \<Longrightarrow> ctl_step s (s\<lparr>sl_ctl := C_Boot_Wait, sl_php := P_Start\<rparr>)"
| not_launched: "sl_ctl s = C_Launch \<Longrightarrow>
    ctl_step s (ctl_goto (C_Idle, set_state Reserved (sl_thread s)) s)"
| set_handler: "set_handler_next s = Some s' \<Longrightarrow> ctl_step s s'"
| begin_shutdown: "begin_shutdown_next s = Some s' \<Longrightarrow> ctl_step s s'"
| shutdown: "shutdown_next s = Some s' \<Longrightarrow> ctl_step s s'"
| timeout: "sl_ctl s = C_Graced closed chan \<Longrightarrow>
    ctl_step s (ctl_goto (C_Kill closed, with_state (\<lambda>ts. unsubscribe ts chan) (sl_thread s)) s)"
| settled: "sl_ctl s \<in> {C_Grace closed, C_Kill closed, C_Done_Wait closed} \<Longrightarrow>
    ts_is (pt_state (sl_thread s)) Done \<Longrightarrow> ctl_step s (ctl_goto (C_Finish closed, sl_thread s) s)"
| finish: "finish_shutdown_next s = Some s' \<Longrightarrow> ctl_step s s'"
| attach: "n \<in> set (sl_unattached s) \<Longrightarrow>
    ctl_step s (s\<lparr>sl_entries := sl_entries s @ [n], sl_unattached := remove1 n (sl_unattached s)\<rparr>)"

inductive slot_reachable :: "bool \<Rightarrow> ('s, 'k) slot \<Rightarrow> bool" for adverse where
  new: "slot_reachable adverse (slot_new thread_index w)"
| php: "slot_reachable adverse s \<Longrightarrow> php_step adverse s s' \<Longrightarrow> slot_reachable adverse s'"
| ctl: "slot_reachable adverse s \<Longrightarrow> ctl_step s s' \<Longrightarrow> slot_reachable adverse s'"
| world: "slot_reachable adverse s \<Longrightarrow> slot_reachable adverse (s\<lparr>sl_host := w\<rparr>)"

end
