(* ===== verification/SlotInvariant.thy ===== *)
theory SlotInvariant
  imports SlotProtocol
begin

section \<open>What every reachable slot satisfies\<close>

text \<open>
  The invariant of \<^verbatim>\<open>SlotProtocol\<close>, as a table: for each phase of the controller, where the PHP
  pthread may be and in which state. With it: which handler runs, that a parked side is parked on
  a subscription that names the states it waits for, that the drain channel is open exactly
  outside the controller's close and reopen, and what the slot owns while a script runs.
\<close>

subsection \<open>The tables\<close>

datatype phase = Stable | Boot_Prep | Boot_Wait | Handover | Replacing | Stopping | Stopped | Broken

fun phase_of :: "ctl_pc \<Rightarrow> phase" where
  "phase_of C_Install = Boot_Prep"
| "phase_of C_Launch = Boot_Prep"
| "phase_of C_Boot_Wait = Boot_Wait"
| "phase_of (C_Boot_Parked _) = Boot_Wait"
| "phase_of (C_Set_Close _) = Handover"
| "phase_of (C_Set_Wait _ _) = Handover"
| "phase_of (C_Set_Await _ _ _) = Handover"
| "phase_of (C_Replace _ _) = Replacing"
| "phase_of (C_Reopen _ _) = Replacing"
| "phase_of (C_Complete _) = Replacing"
| "phase_of C_Shut_Close = Stopping"
| "phase_of (C_Grace _) = Stopping"
| "phase_of (C_Graced _ _) = Stopping"
| "phase_of (C_Kill _) = Stopping"
| "phase_of (C_Done_Wait _) = Stopping"
| "phase_of (C_Done_Parked _ _) = Stopping"
| "phase_of (C_Finish _) = Stopped"
| "phase_of C_Reserve = Stopped"
| "phase_of C_Diagnostic = Broken"
| "phase_of _ = Stable"

fun stable_at :: "bool \<Rightarrow> ctl_pc \<Rightarrow> php_pc \<Rightarrow> state \<Rightarrow> bool" where
  "stable_at e c P_Absent st = (st = Reserved \<or> e \<and> (st = Done \<or> st = Ready) \<or> c = C_Boot \<and> st = BootRequested)"
| "stable_at e c (P_Loop Inactive_Thread) st = (st = TransitionComplete)"
| "stable_at e c (P_Loop (Regular_Thread n)) st = (st = TransitionComplete \<or> st = Ready)"
| "stable_at e c P_Set_Inactive st = (st = TransitionComplete)"
| "stable_at e c P_Wait_Inactive st = (st = Inactive)"
| "stable_at e c (P_Parked_Inactive _) st = (st = Inactive)"
| "stable_at e c P_Wait_Complete st = (st = TransitionComplete)"
| "stable_at e c (P_Parked_Complete _) st = (st = TransitionComplete)"
| "stable_at e c P_Reread st = (st = TransitionComplete)"
| "stable_at e c (P_Set_Ready _) st = (st = TransitionComplete)"
| "stable_at e c P_Start st = (st = Ready)"
| "stable_at e c P_Enter st = (st = Ready)"
| "stable_at e c (P_Fetch _) st = (st = Ready)"
| "stable_at e c (P_Select _ _) st = (st = Ready)"
| "stable_at e c (P_Script _) st = (st = Ready)"
| "stable_at e c P_Unhealthy st = (st = Ready)"
| "stable_at e c P_Leave st = (e \<and> st = Ready)"
| "stable_at e c P_Freed st = (e \<and> st = Ready)"
| "stable_at e c (P_Exit target) st = (e \<and> st = Ready \<and> target = Done)"
| "stable_at e c _ st = False"

fun booting_at :: "php_pc \<Rightarrow> state \<Rightarrow> bool" where
  "booting_at P_Start st = (st = Booting)"
| "booting_at P_Enter st = (st = Booting)"
| "booting_at (P_Loop Inactive_Thread) st = (st = Booting)"
| "booting_at P_Set_Inactive st = (st = Booting)"
| "booting_at P_Wait_Inactive st = (st = Inactive)"
| "booting_at (P_Parked_Inactive _) st = (st = Inactive)"
| "booting_at _ st = False"

text \<open>Where the pthread may be when a change is requested of it, and how it leaves when shut down.\<close>

fun requested_at :: "php_pc \<Rightarrow> bool" where
  "requested_at P_Start = True"
| "requested_at P_Enter = True"
| "requested_at (P_Loop _) = True"
| "requested_at P_Wait_Inactive = True"
| "requested_at (P_Parked_Inactive _) = True"
| "requested_at (P_Fetch _) = True"
| "requested_at (P_Select _ _) = True"
| "requested_at (P_Script _) = True"
| "requested_at P_Unhealthy = True"
| "requested_at _ = False"

fun leaving_at :: "php_pc \<Rightarrow> bool" where
  "leaving_at P_Detach_Leave = True"
| "leaving_at P_Leave = True"
| "leaving_at P_Freed = True"
| "leaving_at (P_Exit target) = (target = Done)"
| "leaving_at _ = False"

fun changing_at :: "php_pc \<Rightarrow> bool" where
  "changing_at P_Detach_Transition = True"
| "changing_at P_Transition = True"
| "changing_at _ = False"

fun completing_at :: "php_pc \<Rightarrow> bool" where
  "completing_at P_Wait_Complete = True"
| "completing_at (P_Parked_Complete _) = True"
| "completing_at _ = False"

definition php_ok :: "bool \<Rightarrow> ctl_pc \<Rightarrow> php_pc \<Rightarrow> state \<Rightarrow> bool" where
  "php_ok e c p st =
     (case phase_of c of
        Stable \<Rightarrow> stable_at e c p st
      | Boot_Prep \<Rightarrow> p = P_Absent \<and> st = Booting
      | Boot_Wait \<Rightarrow> booting_at p st
      | Handover \<Rightarrow>
          (requested_at p \<or> changing_at p \<or> e \<and> (leaving_at p \<or> p = P_Absent)) \<and> st = TransitionRequested \<or>
          completing_at p \<and> st = TransitionInProgress \<or> e \<and> p = P_Absent \<and> st = Done
      | Replacing \<Rightarrow> completing_at p \<and> st = TransitionInProgress
      | Stopping \<Rightarrow>
          (requested_at p \<or> leaving_at p \<or> e \<and> p = P_Absent) \<and> st = ShuttingDown \<or> p = P_Absent \<and> st = Done
      | Stopped \<Rightarrow> p = P_Absent \<and> st = Done
      | Broken \<Rightarrow> False)"

fun handler_ok :: "ctl_pc \<Rightarrow> php_pc \<Rightarrow> thread_handler option \<Rightarrow> bool" where
  "handler_ok c P_Start h = (if phase_of c = Boot_Wait then h = Some Inactive_Thread
                             else h \<noteq> None \<and> h \<noteq> Some Inactive_Thread)"
| "handler_ok c P_Enter h = (if phase_of c = Boot_Wait then h = Some Inactive_Thread
                             else h \<noteq> None \<and> h \<noteq> Some Inactive_Thread)"
| "handler_ok c P_Absent h = (c = C_Launch \<longrightarrow> h = Some Inactive_Thread)"
| "handler_ok c (P_Loop g) h = (h = Some g)"
| "handler_ok c P_Set_Inactive h = (h = Some Inactive_Thread)"
| "handler_ok c P_Wait_Inactive h = (h = Some Inactive_Thread)"
| "handler_ok c (P_Parked_Inactive _) h = (h = Some Inactive_Thread)"
| "handler_ok c P_Wait_Complete h = (h \<noteq> None)"
| "handler_ok c (P_Parked_Complete _) h = (h \<noteq> None)"
| "handler_ok c P_Detach_Transition h = (h \<noteq> None)"
| "handler_ok c P_Transition h = (h \<noteq> None)"
| "handler_ok c P_Reread h = (h \<noteq> None)"
| "handler_ok c (P_Set_Ready n) h = (h = Some (Regular_Thread n))"
| "handler_ok c (P_Fetch n) h = (h = Some (Regular_Thread n))"
| "handler_ok c (P_Select n _) h = (h = Some (Regular_Thread n))"
| "handler_ok c (P_Script n) h = (h = Some (Regular_Thread n))"
| "handler_ok c P_Unhealthy h = (h \<noteq> None \<and> h \<noteq> Some Inactive_Thread)"
| "handler_ok c _ h = True"

text \<open>A subscription for these states, and one that is gone only because the state is one of them.\<close>

definition asks :: "php_thread \<Rightarrow> nat \<Rightarrow> state list \<Rightarrow> bool" where
  "asks t chan states = (chan < pt_fresh t \<and>
     (\<forall>s \<in> set (ts_subscribers (pt_state t)). sub_token s = chan \<longrightarrow> sub_states s = states))"

definition parked :: "php_thread \<Rightarrow> nat \<Rightarrow> state list \<Rightarrow> bool" where
  "parked t chan states = (asks t chan states \<and>
     (pt_current t \<in> set states \<or> (\<exists>s \<in> set (ts_subscribers (pt_state t)). sub_token s = chan)))"

fun php_wait_ok :: "php_pc \<Rightarrow> php_thread \<Rightarrow> bool" where
  "php_wait_ok (P_Parked_Inactive chan) t = parked t chan inactive_wait_states"
| "php_wait_ok (P_Parked_Complete chan) t = parked t chan [TransitionComplete]"
| "php_wait_ok (P_Select n dr) t = (dr = drain_get_receiver (pt_drain t))"
| "php_wait_ok _ t = True"

fun ctl_wait_ok :: "ctl_pc \<Rightarrow> php_thread \<Rightarrow> bool" where
  "ctl_wait_ok (C_Boot_Parked chan) t = parked t chan [Inactive]"
| "ctl_wait_ok (C_Set_Await h closed chan) t = parked t chan [TransitionInProgress]"
| "ctl_wait_ok (C_Graced closed chan) t = parked t chan [Done]"
| "ctl_wait_ok (C_Done_Parked closed chan) t = parked t chan [Done]"
| "ctl_wait_ok (C_Set_Parked h chan) t = asks t chan request_wait_states"
| "ctl_wait_ok (C_Shut_Parked chan) t = asks t chan request_wait_states"
| "ctl_wait_ok _ t = True"

fun closed_generation :: "ctl_pc \<Rightarrow> 64 word option" where
  "closed_generation (C_Set_Wait _ g) = Some g"
| "closed_generation (C_Set_Await _ g _) = Some g"
| "closed_generation (C_Replace _ g) = Some g"
| "closed_generation (C_Reopen _ g) = Some g"
| "closed_generation (C_Grace g) = Some g"
| "closed_generation (C_Graced g _) = Some g"
| "closed_generation (C_Kill g) = Some g"
| "closed_generation (C_Done_Wait g) = Some g"
| "closed_generation (C_Done_Parked g _) = Some g"
| "closed_generation (C_Finish g) = Some g"
| "closed_generation _ = None"

definition drain_ok :: "ctl_pc \<Rightarrow> drain_generation \<Rightarrow> bool" where
  "drain_ok c d = (case closed_generation c of
     None \<Rightarrow> dg_sender d = Some (dg_receiver d)
   | Some g \<Rightarrow> dg_sender d = None \<and> dg_generation d = g)"

text \<open>From the store callback to the clear callback C may be asked to kill the pthread.\<close>

fun storage_live :: "php_pc \<Rightarrow> bool" where
  "storage_live P_Absent = False"
| "storage_live P_Start = False"
| "storage_live P_Freed = False"
| "storage_live (P_Exit _) = False"
| "storage_live _ = True"

fun in_script :: "php_pc \<Rightarrow> bool" where
  "in_script (P_Script _) = True"
| "in_script _ = False"

definition content_ok ::
  "bool \<Rightarrow> php_pc \<Rightarrow> php_thread \<Rightarrow> ('s, 'k) request_context option \<Rightarrow> bool"
where
  "content_ok e p t context =
     ((pt_force_kill t \<noteq> None) = storage_live p \<and>
      (if in_script p
       then context \<noteq> None \<and> pt_script_path t \<noteq> None \<and>
            pt_script_path t = script_path_new (ctx_script_filename (the context))
       else pt_script_path t = None \<and> (e \<or> context = None)))"

definition slot_inv :: "bool \<Rightarrow> ('s, 'k) slot \<Rightarrow> bool" where
  "slot_inv e s =
     (php_ok e (sl_ctl s) (sl_php s) (pt_current (sl_thread s)) \<and>
      handler_ok (sl_ctl s) (sl_php s) (pt_handler (sl_thread s)) \<and>
      subs_ok (pt_state (sl_thread s)) (pt_fresh (sl_thread s)) \<and>
      php_wait_ok (sl_php s) (sl_thread s) \<and> ctl_wait_ok (sl_ctl s) (sl_thread s) \<and>
      drain_ok (sl_ctl s) (pt_drain (sl_thread s)) \<and> content_ok e (sl_php s) (sl_thread s) (sl_context s))"

subsection \<open>Parking\<close>

named_theorems park_simps \<open>what the thread operations do to the fields and to a parked side\<close>

lemma thread_fields [park_simps]:
  "pt_current (set_state st t) = st"
  "pt_handler (set_state st t) = pt_handler t"
  "pt_drain (set_state st t) = pt_drain t"
  "pt_script_path (set_state st t) = pt_script_path t"
  "pt_force_kill (set_state st t) = pt_force_kill t"
  "pt_fresh (set_state st t) = pt_fresh t"
  "pt_current (mark_waiting b now t) = pt_current t"
  "pt_handler (mark_waiting b now t) = pt_handler t"
  "pt_drain (mark_waiting b now t) = pt_drain t"
  "pt_script_path (mark_waiting b now t) = pt_script_path t"
  "pt_force_kill (mark_waiting b now t) = pt_force_kill t"
  "pt_fresh (mark_waiting b now t) = pt_fresh t"
  "subs_ok (pt_state (mark_waiting b now t)) n = subs_ok (pt_state t) n"
  by (simp_all add: set_state_def mark_waiting_def with_state_def ts_set_def mark_as_waiting_def subs_ok_def)

lemma subs_ok_set [park_simps]:
  "subs_ok (pt_state t) n \<Longrightarrow> subs_ok (pt_state (set_state st t)) n"
  by (auto simp: subs_ok_def set_state_def with_state_def ts_set_def notify_subscribers_def)

lemma asks_mark [park_simps]: "asks (mark_waiting b now t) c S = asks t c S"
  by (simp add: asks_def mark_waiting_def with_state_def mark_as_waiting_def)

lemma parked_mark [park_simps]: "parked (mark_waiting b now t) c S = parked t c S"
  by (simp add: parked_def asks_mark) (simp add: mark_waiting_def with_state_def mark_as_waiting_def)

lemma asks_set: "asks t c S \<Longrightarrow> asks (set_state st t) c S"
  by (auto simp: asks_def set_state_def with_state_def ts_set_def notify_subscribers_def)

lemma parked_set:
  "parked t c S \<Longrightarrow> (pt_current t \<in> set S \<Longrightarrow> st \<in> set S) \<Longrightarrow> parked (set_state st t) c S"
  unfolding parked_def
  by (auto simp: asks_set) (auto simp: asks_def set_state_def with_state_def ts_set_def notify_subscribers_def)

lemma parked_wake:
  assumes "subs_ok (pt_state t) n" "parked t c S"
  shows "disconnected (pt_state t) c = (pt_current t \<in> set S)"
  using assms by (auto simp: disconnected_iff [OF assms(1)] parked_def asks_def subs_ok_def)

lemma asks_wake:
  assumes "subs_ok (pt_state t) n" "asks t c S" "pt_current t \<in> set S"
  shows "disconnected (pt_state t) c"
  using assms by (auto simp: disconnected_iff [OF assms(1)] asks_def subs_ok_def)

lemma wait_on_cases:
  assumes "subs_ok (pt_state t) (pt_fresh t)"
  obtains (through) "wait_on S q r t = (r, t)" "pt_current t \<in> set S"
  | (parks) t' where "wait_on S q r t = (q (pt_fresh t), t')" "pt_current t \<notin> set S"
      "parked t' (pt_fresh t) S" "pt_current t' = pt_current t" "pt_handler t' = pt_handler t"
      "pt_drain t' = pt_drain t" "pt_script_path t' = pt_script_path t"
      "pt_force_kill t' = pt_force_kill t" "subs_ok (pt_state t') (pt_fresh t')"
      "\<And>c S. asks t c S \<Longrightarrow> asks t' c S" "\<And>c S. parked t c S \<Longrightarrow> parked t' c S"
proof (cases "pt_current t \<in> set S")
  case True
  then show thesis by (intro through) (simp_all add: wait_on_def subscribe_state_def subscribe_def)
next
  case False
  let ?s = "\<lparr>sub_states = S, sub_sender = Some (pt_fresh t), sub_token = pt_fresh t\<rparr>"
  let ?t = "t\<lparr>pt_state := (pt_state t)\<lparr>ts_subscribers := ts_subscribers (pt_state t) @ [?s]\<rparr>,
               pt_fresh := pt_fresh t + 1\<rparr>"
  have fresh: "x \<in> set (ts_subscribers (pt_state t)) \<Longrightarrow> sub_token x < pt_fresh t" for x
    using assms by (simp add: subs_ok_def)
  have eq: "wait_on S q r t = (q (pt_fresh t), ?t)"
    using False by (simp add: wait_on_def subscribe_state_def subscribe_def)
  show thesis
  proof (rule parks [OF eq False])
    show "subs_ok (pt_state ?t) (pt_fresh ?t)"
      using assms False by (auto simp: subs_ok_def)
    show "parked ?t (pt_fresh t) S"
      using fresh by (fastforce simp: parked_def asks_def)
    show "\<And>c S. asks t c S \<Longrightarrow> asks ?t c S" by (auto simp: asks_def)
    then show "\<And>c S. parked t c S \<Longrightarrow> parked ?t c S" by (auto simp: parked_def)
  qed simp_all
qed

subsection \<open>The PHP pthread preserves it\<close>

lemma php_ctl_wait_set:
  assumes "ctl_wait_ok c t"
    and "\<And>S. pt_current t \<in> set S \<Longrightarrow> (\<exists>chan. ctl_wait_ok c t = parked t chan S) \<Longrightarrow> st \<in> set S"
  shows "ctl_wait_ok c (set_state st t)"
  using assms by (cases c) (auto intro!: parked_set asks_set)

lemma php_goto_simps [park_simps]:
  "sl_php (php_goto r s) = fst r" "sl_thread (php_goto r s) = snd r"
  "sl_ctl (php_goto r s) = sl_ctl s" "sl_context (php_goto r s) = sl_context s"
  "sl_host (php_goto r s) = sl_host s" "sl_entries (php_goto r s) = sl_entries s"
  "sl_killed (php_goto r s) = sl_killed s" "sl_unattached (php_goto r s) = sl_unattached s"
  by (simp_all add: php_goto_def)

lemma ctl_goto_simps [park_simps]:
  "sl_ctl (ctl_goto r s) = fst r" "sl_thread (ctl_goto r s) = snd r"
  "sl_php (ctl_goto r s) = sl_php s" "sl_context (ctl_goto r s) = sl_context s"
  "sl_host (ctl_goto r s) = sl_host s" "sl_entries (ctl_goto r s) = sl_entries s"
  "sl_killed (ctl_goto r s) = sl_killed s" "sl_unattached (ctl_goto r s) = sl_unattached s"
  by (simp_all add: ctl_goto_def)

lemma content_ok_thread:
  "pt_force_kill t' = pt_force_kill t \<Longrightarrow> pt_script_path t' = pt_script_path t \<Longrightarrow>
    content_ok e p t' c = content_ok e p t c"
  by (simp add: content_ok_def)

lemma content_ok_set [park_simps]:
  "content_ok e p (set_state st t) c = content_ok e p t c"
  "content_ok e p (mark_waiting b now t) c = content_ok e p t c"
  by (rule content_ok_thread; simp add: thread_fields)+

lemma content_ok_move:
  "content_ok e p t c \<Longrightarrow> storage_live q = storage_live p \<Longrightarrow> \<not> in_script p \<Longrightarrow> \<not> in_script q \<Longrightarrow>
    content_ok e q t c"
  by (simp add: content_ok_def)

text \<open>A step that touches neither the state nor the drain channel only has to land where the table
  allows.\<close>

definition same_sync :: "php_thread \<Rightarrow> php_thread \<Rightarrow> bool" where
  "same_sync t t' = (pt_current t' = pt_current t \<and>
     ts_subscribers (pt_state t') = ts_subscribers (pt_state t) \<and> pt_drain t' = pt_drain t \<and>
     pt_handler t' = pt_handler t \<and> pt_fresh t \<le> pt_fresh t')"

lemma same_sync_intros [park_simps]:
  "same_sync t t"
  "same_sync t (mark_waiting b now t)"
  "same_sync t (release_script_path t)"
  "same_sync t (publish_script_path p t)"
  "same_sync t (publish_script_path p (mark_waiting b now t))"
  "same_sync t (snd (clear_force_kill_slot t))"
  "same_sync t ((snd (store_force_kill_slot n t))\<lparr>pt_fresh := pt_fresh t + 1\<rparr>)"
  by (simp_all add: same_sync_def thread_defs mark_as_waiting_def)

lemma same_sync_subs: "same_sync t t' \<Longrightarrow> subs_ok (pt_state t) (pt_fresh t) \<Longrightarrow> subs_ok (pt_state t') (pt_fresh t')"
  by (fastforce simp: same_sync_def subs_ok_def)

lemma same_sync_asks: "same_sync t t' \<Longrightarrow> asks t c S \<Longrightarrow> asks t' c S"
  by (auto simp: same_sync_def asks_def)

lemma same_sync_parked: "same_sync t t' \<Longrightarrow> parked t c S \<Longrightarrow> parked t' c S"
  using same_sync_asks [of t t' c S] unfolding parked_def same_sync_def by auto

lemma same_sync_ctl: "same_sync t t' \<Longrightarrow> ctl_wait_ok c t \<Longrightarrow> ctl_wait_ok c t'"
  by (cases c) (auto intro: same_sync_asks same_sync_parked)

lemma php_quiet:
  assumes "slot_inv e s" "same_sync (sl_thread s) t'"
    and "php_ok e (sl_ctl s) p (pt_current (sl_thread s))"
    and "handler_ok (sl_ctl s) p (pt_handler (sl_thread s))"
    and "php_wait_ok p t'" "content_ok e p t' c"
  shows "slot_inv e (s\<lparr>sl_php := p, sl_thread := t', sl_context := c, sl_entries := es, sl_host := w\<rparr>)"
  using assms same_sync_subs [OF assms(2)] same_sync_ctl [OF assms(2)]
  by (simp add: slot_inv_def same_sync_def)

lemma php_goto_quiet:
  assumes "slot_inv e s" "same_sync (sl_thread s) t'"
    and "php_ok e (sl_ctl s) p (pt_current (sl_thread s))"
    and "handler_ok (sl_ctl s) p (pt_handler (sl_thread s))"
    and "php_wait_ok p t'" "content_ok e p t' (sl_context s)"
  shows "slot_inv e (php_goto (p, t') s)" "slot_inv e (php_goto (p, t') (s\<lparr>sl_entries := es\<rparr>))"
  using php_quiet [OF assms, where es = "sl_entries s" and w = "sl_host s"]
    php_quiet [OF assms, where es = es and w = "sl_host s"]
  by (simp_all add: php_goto_def slot_inv_def)

text \<open>A step that sets the state.\<close>

lemma php_goto_set:
  assumes "slot_inv e s"
    and "php_ok e (sl_ctl s) p st"
    and "handler_ok (sl_ctl s) p (pt_handler (sl_thread s))"
    and "php_wait_ok p (set_state st (sl_thread s))"
    and "ctl_wait_ok (sl_ctl s) (set_state st (sl_thread s))"
    and "content_ok e p (sl_thread s) (sl_context s)"
  shows "slot_inv e (php_goto (p, set_state st (sl_thread s)) s)"
  using assms by (simp add: slot_inv_def park_simps)

lemma php_goto_wait:
  assumes "slot_inv e s" "same_sync (sl_thread s) t" "content_ok e (sl_php s) t (sl_context s)"
    and "\<And>c. php_ok e (sl_ctl s) (q c) (pt_current t)"
    and "pt_current t \<in> set S \<Longrightarrow> php_ok e (sl_ctl s) r (pt_current t)"
    and "\<And>c. handler_ok (sl_ctl s) (q c) (pt_handler t)" "handler_ok (sl_ctl s) r (pt_handler t)"
    and "\<And>c t. php_wait_ok (q c) t = parked t c S" "php_wait_ok r t"
    and "storage_live (sl_php s)" "\<And>c. storage_live (q c)" "storage_live r"
    and "\<not> in_script (sl_php s)" "\<And>c. \<not> in_script (q c)" "\<not> in_script r"
  shows "slot_inv e (php_goto (wait_on S q r t) s)"
proof -
  have subs: "subs_ok (pt_state t) (pt_fresh t)" and ctl: "ctl_wait_ok (sl_ctl s) t"
    and drain: "drain_ok (sl_ctl s) (pt_drain t)"
    using assms(1,2) same_sync_subs same_sync_ctl by (auto simp: slot_inv_def same_sync_def)
  from subs show ?thesis
  proof (cases rule: wait_on_cases [of t S q r])
    case through
    have "content_ok e r t (sl_context s)" using assms(10,12,13,15) by (intro content_ok_move [OF assms(3)]) simp_all
    with assms(5,7,9) through subs ctl drain show ?thesis by (simp add: slot_inv_def park_simps)
  next
    case (parks t')
    have "ctl_wait_ok (sl_ctl s) t'"
      using ctl parks(10,11) by (cases "sl_ctl s") simp_all
    moreover have "content_ok e (q (pt_fresh t)) t' (sl_context s)"
      using assms(10,11,13,14)
      by (intro content_ok_move [OF content_ok_thread [OF parks(8,7), THEN iffD2, OF assms(3)]]) simp_all
    ultimately show ?thesis
      unfolding slot_inv_def php_goto_simps parks(1) fst_conv snd_conv parks(4-6) assms(8)
      using assms(4,6) parks(3,9) drain by blast
  qed
qed

lemma php_ok_next:
  "php_ok e c P_Start st \<Longrightarrow> php_ok e c P_Enter st"
  "php_ok e c P_Unhealthy st \<Longrightarrow> php_ok e c P_Start st"
  "php_ok e c P_Leave st \<Longrightarrow> php_ok e c P_Freed st"
  "php_ok e c P_Freed st \<Longrightarrow> php_ok e c (P_Exit (shutdown_target st)) st"
  "php_ok e c (P_Fetch n) st \<Longrightarrow> php_ok e c (P_Select n dr) st"
  "php_ok e c (P_Select n dr) st \<Longrightarrow> php_ok e c (P_Loop (Regular_Thread n)) st"
  "php_ok e c (P_Select n dr) st \<Longrightarrow> php_ok e c (P_Script n) st"
  "php_ok True c (P_Select n dr) st \<Longrightarrow> php_ok True c P_Leave st"
  "php_ok e c (P_Script n) st \<Longrightarrow> php_ok e c P_Enter st"
  "php_ok e c (P_Script n) st \<Longrightarrow> php_ok e c P_Unhealthy st"
  "php_ok e c P_Wait_Inactive st \<Longrightarrow> php_ok e c (P_Parked_Inactive m) st"
  "php_ok e c P_Wait_Complete st \<Longrightarrow> php_ok e c (P_Parked_Complete m) st"
  "php_ok e c P_Wait_Inactive st \<Longrightarrow> st \<in> set inactive_wait_states \<Longrightarrow> php_ok e c (P_Loop Inactive_Thread) st"
  "php_ok e c (P_Parked_Inactive m) st \<Longrightarrow> st \<in> set inactive_wait_states \<Longrightarrow> php_ok e c (P_Loop Inactive_Thread) st"
  "php_ok e c P_Wait_Complete TransitionComplete \<Longrightarrow> php_ok e c P_Reread TransitionComplete"
  "php_ok e c (P_Parked_Complete m) TransitionComplete \<Longrightarrow> php_ok e c P_Reread TransitionComplete"
  "\<not> php_ok e c (P_Odd h) st" "\<not> php_ok e c (P_Parked_Odd h m) st" "\<not> php_ok e c (P_Revive h) st"
  "php_ok True c P_Unhealthy st \<Longrightarrow> php_ok True c P_Absent st"
  "php_ok e c P_Detach_Leave st \<Longrightarrow> php_ok e c P_Leave st"
  "php_ok e c P_Detach_Transition st \<Longrightarrow> php_ok e c P_Transition st"
  by (auto simp: php_ok_def shutdown_target_def inactive_wait_states_def split: phase.splits)

lemma handler_ok_next:
  "handler_ok c P_Start h \<Longrightarrow> handler_ok c P_Enter h"
  "php_ok e c P_Unhealthy st \<Longrightarrow> handler_ok c P_Unhealthy h \<Longrightarrow> handler_ok c P_Start h"
  "php_ok e c (P_Script n) st \<Longrightarrow> handler_ok c (P_Script n) h \<Longrightarrow> handler_ok c P_Enter h"
  by (auto simp: php_ok_def)

text \<open>What the pthread publishes, and that no controller parked on something else is forgotten.\<close>

fun publishes :: "php_pc \<Rightarrow> (state \<times> php_pc) option" where
  "publishes P_Set_Inactive = Some (Inactive, P_Wait_Inactive)"
| "publishes P_Transition = Some (TransitionInProgress, P_Wait_Complete)"
| "publishes (P_Set_Ready n) = Some (Ready, P_Loop (Regular_Thread n))"
| "publishes (P_Exit st) = Some (st, P_Absent)"
| "publishes _ = None"

lemma php_ok_publish:
  "php_ok e c p st \<Longrightarrow> publishes p = Some (st', p') \<Longrightarrow> php_ok e c p' st'"
  by (cases p) (auto simp: php_ok_def split: phase.splits)

lemma ctl_wait_publish:
  "php_ok e c p (pt_current t) \<Longrightarrow> publishes p = Some (st', p') \<Longrightarrow> ctl_wait_ok c t \<Longrightarrow>
    ctl_wait_ok c (set_state st' t)"
  by (cases p; cases c) (auto simp: php_ok_def intro!: parked_set asks_set)

lemma handler_ok_publish:
  "php_ok e c p st \<Longrightarrow> publishes p = Some (st', p') \<Longrightarrow> handler_ok c p h \<Longrightarrow> handler_ok c p' h"
  by (cases p) (auto simp: php_ok_def)

lemma publish_rest:
  "publishes p = Some (st', p') \<Longrightarrow> php_wait_ok p' t"
  "publishes p = Some (st', p') \<Longrightarrow> content_ok e p t c \<Longrightarrow> content_ok e p' t c"
  by (cases p; auto simp: content_ok_def)+

lemma publish_inv:
  assumes inv: "slot_inv e s" and p: "publishes (sl_php s) = Some (st, p)"
  shows "slot_inv e (php_goto (p, set_state st (sl_thread s)) s)"
proof (rule php_goto_set [OF inv])
  have *: "php_ok e (sl_ctl s) (sl_php s) (pt_current (sl_thread s))"
    "handler_ok (sl_ctl s) (sl_php s) (pt_handler (sl_thread s))" "ctl_wait_ok (sl_ctl s) (sl_thread s)"
    "content_ok e (sl_php s) (sl_thread s) (sl_context s)"
    using inv by (simp_all add: slot_inv_def)
  show "php_ok e (sl_ctl s) p st" using php_ok_publish [OF *(1) p] .
  show "ctl_wait_ok (sl_ctl s) (set_state st (sl_thread s))" using ctl_wait_publish [OF *(1) p *(3)] .
  show "handler_ok (sl_ctl s) p (pt_handler (sl_thread s))" using handler_ok_publish [OF *(1) p *(2)] .
  show "php_wait_ok p (set_state st (sl_thread s))" "content_ok e p (sl_thread s) (sl_context s)"
    using publish_rest [OF p] *(4) by blast+
qed

lemma enter_handler:
  "php_ok e c p st \<Longrightarrow> handler_ok c p h \<Longrightarrow> p = P_Enter \<or> p = P_Reread \<Longrightarrow>
    (case h of None \<Rightarrow> False | Some g \<Rightarrow> php_ok e c (P_Loop g) st)"
  by (cases h; cases "the h") (auto simp: php_ok_def split: phase.splits if_splits)

lemma loop_arm:
  assumes "php_ok e c (P_Loop h) st" "handler_ok c (P_Loop h) g"
  shows "php_ok e c (handler_arm h st) st" "handler_ok c (handler_arm h st) g"
    "php_wait_ok (handler_arm h st) t" "storage_live (handler_arm h st)" "\<not> in_script (handler_arm h st)"
  using assms
  by (cases h; cases st; auto simp: php_ok_def inactive_arm_def regular_arm_def split: phase.splits)+

lemma enter_inv:
  assumes inv: "slot_inv e s" and p: "sl_php s = P_Enter \<or> sl_php s = P_Reread"
  shows "slot_inv e (php_goto (case pt_handler (sl_thread s) of None \<Rightarrow> P_Leave | Some h \<Rightarrow> P_Loop h, sl_thread s) s)"
proof -
  have *: "php_ok e (sl_ctl s) (sl_php s) (pt_current (sl_thread s))"
    "handler_ok (sl_ctl s) (sl_php s) (pt_handler (sl_thread s))"
    "content_ok e (sl_php s) (sl_thread s) (sl_context s)"
    using inv by (simp_all add: slot_inv_def)
  then obtain h where "pt_handler (sl_thread s) = Some h"
    "php_ok e (sl_ctl s) (P_Loop h) (pt_current (sl_thread s))"
    using enter_handler [OF *(1,2) p] by (auto split: option.splits)
  with p *(3) show ?thesis
    by (auto simp: park_simps intro!: php_goto_quiet [OF inv] intro: content_ok_move)
qed

lemma loop_inv:
  assumes inv: "slot_inv e s" and p: "sl_php s = P_Loop h"
  shows "slot_inv e (php_goto (handler_arm h (pt_current (sl_thread s)), sl_thread s) s)"
proof -
  have *: "php_ok e (sl_ctl s) (P_Loop h) (pt_current (sl_thread s))"
    "handler_ok (sl_ctl s) (P_Loop h) (pt_handler (sl_thread s))"
    "content_ok e (P_Loop h) (sl_thread s) (sl_context s)"
    using inv p by (simp_all add: slot_inv_def)
  note arm = loop_arm [OF *(1,2)]
  have "content_ok e (handler_arm h (pt_current (sl_thread s))) (sl_thread s) (sl_context s)"
    using arm(4,5) by (intro content_ok_move [OF *(3)]) simp_all
  then show ?thesis
    by (intro php_goto_quiet [OF inv] arm; simp add: park_simps)
qed

lemma php_next_inv:
  assumes inv: "slot_inv e s" and next': "php_next now s = Some s'"
  shows "slot_inv e s'"
proof -
  have php: "php_ok e (sl_ctl s) (sl_php s) (pt_current (sl_thread s))"
    and hnd: "handler_ok (sl_ctl s) (sl_php s) (pt_handler (sl_thread s))"
    and subs: "subs_ok (pt_state (sl_thread s)) (pt_fresh (sl_thread s))"
    and wait: "php_wait_ok (sl_php s) (sl_thread s)" 
    and content: "content_ok e (sl_php s) (sl_thread s) (sl_context s)"
    using inv by (simp_all add: slot_inv_def)
  note facts = php hnd wait content
  show ?thesis
  proof (cases "sl_php s")
    case P_Start
    with facts have "slot_inv e (php_goto (P_Enter, (snd (store_force_kill_slot (pt_fresh (sl_thread s)) (sl_thread s)))
                                         \<lparr>pt_fresh := pt_fresh (sl_thread s) + 1\<rparr>) s)"
      by (intro php_goto_quiet [OF inv] same_sync_intros php_ok_next(1) handler_ok_next(1))
        (simp_all del: handler_ok.simps add: content_ok_def store_force_kill_slot_def)
    with next' P_Start show ?thesis by (simp add: php_next_def Let_def)
  next
    case P_Enter
    with next' enter_inv [OF inv] show ?thesis by (simp add: php_next_def Let_def)
  next
    case (P_Loop h)
    with next' loop_inv [OF inv, of h] show ?thesis
      by (auto simp: php_next_def Let_def ts_get_def split: if_splits)
  next
    case P_Detach_Transition
    with facts have "slot_inv e (php_goto (P_Transition, sl_thread s) (s\<lparr>sl_entries := []\<rparr>))"
      by (intro php_goto_quiet [OF inv]) (auto simp: park_simps intro: php_ok_next content_ok_move)
    with next' P_Detach_Transition show ?thesis by (simp add: php_next_def Let_def)
  next
    case P_Detach_Leave
    with facts have "slot_inv e (php_goto (P_Leave, sl_thread s) (s\<lparr>sl_entries := []\<rparr>))"
      by (intro php_goto_quiet [OF inv]) (auto simp: park_simps intro: php_ok_next content_ok_move)
    with next' P_Detach_Leave show ?thesis by (simp add: php_next_def Let_def)
  next
    case P_Set_Inactive
    with next' publish_inv [OF inv] show ?thesis by (simp add: php_next_def Let_def)
  next
    case P_Wait_Inactive
    with facts have "slot_inv e (php_goto (wait_on inactive_wait_states P_Parked_Inactive (P_Loop Inactive_Thread)
                            (mark_waiting True now (sl_thread s))) s)"
      by (intro php_goto_wait [OF inv]) (simp_all add: park_simps php_ok_next)
    with next' P_Wait_Inactive show ?thesis by (simp add: php_next_def Let_def)
  next
    case (P_Parked_Inactive chan)
    with next' wait parked_wake [OF subs] have "pt_current (sl_thread s) \<in> set inactive_wait_states"
      and s': "s' = php_goto (P_Loop Inactive_Thread, mark_waiting False now (sl_thread s)) s"
      by (simp_all add: php_next_def Let_def split: if_splits)
    with facts P_Parked_Inactive show ?thesis
      unfolding s' by (intro php_goto_quiet [OF inv])
       (auto simp: park_simps intro: php_ok_next content_ok_move)
  next
    case P_Transition
    with next' publish_inv [OF inv] show ?thesis by (simp add: php_next_def Let_def)
  next
    case P_Wait_Complete
    with facts have "slot_inv e (php_goto (wait_on [TransitionComplete] P_Parked_Complete P_Reread (sl_thread s)) s)"
      by (intro php_goto_wait [OF inv]) (auto simp: park_simps php_ok_next)
    with next' P_Wait_Complete show ?thesis by (simp add: php_next_def Let_def)
  next
    case (P_Parked_Complete chan)
    with next' wait parked_wake [OF subs] have "pt_current (sl_thread s) = TransitionComplete"
      and s': "s' = php_goto (P_Reread, sl_thread s) s"
      by (simp_all add: php_next_def Let_def split: if_splits)
    with facts P_Parked_Complete show ?thesis
      unfolding s' by (intro php_goto_quiet [OF inv])
       (auto simp: park_simps intro: php_ok_next content_ok_move)
  next
    case P_Reread
    with next' enter_inv [OF inv] show ?thesis by (simp add: php_next_def Let_def)
  next
    case (P_Set_Ready n)
    with next' publish_inv [OF inv] show ?thesis by (simp add: php_next_def Let_def)
  next
    case (P_Fetch n)
    with facts have "slot_inv e (php_goto (P_Select n (drain_get_receiver (pt_drain (sl_thread s))),
        mark_waiting True now (sl_thread s)) s)"
      by (intro php_goto_quiet [OF inv]) (auto simp: park_simps intro: php_ok_next content_ok_move)
    with next' P_Fetch show ?thesis by (simp add: php_next_def Let_def)
  next
    case P_Unhealthy
    with facts have "slot_inv e (php_goto (P_Start, snd (clear_force_kill_slot (sl_thread s))) s)"
      by (intro php_goto_quiet [OF inv] same_sync_intros php_ok_next(2) handler_ok_next(2))
        (simp_all del: handler_ok.simps add: content_ok_def clear_force_kill_slot_def)
    with next' P_Unhealthy show ?thesis by (simp add: php_next_def Let_def)
  next
    case P_Leave
    with facts have "slot_inv e (php_goto (P_Freed, snd (clear_force_kill_slot (sl_thread s))) s)"
      by (intro php_goto_quiet [OF inv] same_sync_intros php_ok_next(3))
        (simp_all add: content_ok_def clear_force_kill_slot_def)
    with next' P_Leave show ?thesis by (simp add: php_next_def Let_def)
  next
    case P_Freed
    with facts have "slot_inv e (php_goto (P_Exit (shutdown_target (pt_current (sl_thread s))),
        release_script_path (sl_thread s)) s)"
      by (intro php_goto_quiet [OF inv] same_sync_intros php_ok_next(4))
        (simp_all add: content_ok_def release_script_path_def)
    with next' P_Freed show ?thesis by (simp add: php_next_def Let_def ts_get_def)
  next
    case (P_Exit st)
    with next' publish_inv [OF inv] show ?thesis by (simp add: php_next_def Let_def)
  next
    case P_Absent
    with next' show ?thesis by (simp add: php_next_def Let_def)
  next
    case (P_Select n dr)
    with next' show ?thesis by (simp add: php_next_def Let_def)
  next
    case (P_Script n)
    with next' show ?thesis by (simp add: php_next_def Let_def)
  qed (use php php_ok_next in auto)
qed

end
