(* ===== verification/SlotReachable.thy ===== *)
theory SlotReachable
  imports SlotInvariant
begin

section \<open>Every step of a slot preserves the invariant\<close>

text \<open>
  The remaining steps of the pthread, and the controller's, one lemma per function of
  \<^verbatim>\<open>SlotProtocol\<close>; the factored ones say what requesting a change, closing and reopening the
  drain generation, waiting for Done and waking from it do to the table.
\<close>

lemma deliver_inv:
  assumes inv: "slot_inv e s" and p: "sl_php s = P_Select n dr"
    and fn: "e \<or> ctx_script_filename ctx \<noteq> []"
  shows "slot_inv e (deliver ctx now n s)"
proof -
  let ?t = "mark_waiting False now (sl_thread s)"
  have *: "php_ok e (sl_ctl s) (P_Select n dr) (pt_current (sl_thread s))"
    "handler_ok (sl_ctl s) (P_Select n dr) (pt_handler (sl_thread s))"
    "content_ok e (P_Select n dr) (sl_thread s) (sl_context s)"
    using inv unfolding slot_inv_def p by blast+
  show ?thesis
  proof (cases "script_path_new (ctx_script_filename ctx)")
    case None
    then have "e" using fn by (simp add: script_path_new_def split: if_splits)
    with * have "slot_inv e (s\<lparr>sl_php := P_Leave, sl_thread := ?t, sl_context := Some ctx,
        sl_entries := sl_entries s, sl_host := sl_host s\<rparr>)"
      by (intro php_quiet [OF inv] same_sync_intros)
        (auto simp: content_ok_def thread_fields intro: php_ok_next)
    with None show ?thesis by (simp add: deliver_def php_goto_def Let_def slot_inv_def)
  next
    case (Some path)
    with * have "slot_inv e (s\<lparr>sl_php := P_Script n, sl_thread := publish_script_path path ?t,
        sl_context := Some ctx, sl_entries := sl_entries s, sl_host := sl_host s\<rparr>)"
      by (intro php_quiet [OF inv] same_sync_intros)
        (simp_all add: content_ok_def publish_script_path_def thread_fields php_ok_next)
    with Some show ?thesis by (simp add: deliver_def php_goto_def Let_def slot_inv_def)
  qed
qed

lemma after_script_inv:
  assumes inv: "slot_inv e s" and p: "sl_php s = P_Script n" and q: "q = P_Enter \<or> q = P_Unhealthy"
  shows "slot_inv e ((after_script s)\<lparr>sl_php := q\<rparr>)"
proof -
  have *: "php_ok e (sl_ctl s) (P_Script n) (pt_current (sl_thread s))"
    "handler_ok (sl_ctl s) (P_Script n) (pt_handler (sl_thread s))"
    "content_ok e (P_Script n) (sl_thread s) (sl_context s)"
    using inv p by (simp_all add: slot_inv_def)
  obtain ctx where ctx: "sl_context s = Some ctx" using * by (auto simp: content_ok_def)
  have "php_ok e (sl_ctl s) q (pt_current (sl_thread s))" "handler_ok (sl_ctl s) q (pt_handler (sl_thread s))"
    using q * php_ok_next(9,10) [OF *(1)] handler_ok_next(3) [OF *(1,2)] by auto
  then have "slot_inv e (s\<lparr>sl_php := q, sl_thread := release_script_path (sl_thread s), sl_context := None,
      sl_entries := sl_entries s, sl_host := w\<rparr>)" for w
    using q *(3) by (intro php_quiet [OF inv] same_sync_intros)
      (auto simp: content_ok_def release_script_path_def)
  then show ?thesis
    by (simp add: after_script_def ctx Let_def split_def slot_inv_def)
qed

lemma php_own_inv: "php_own s s' \<Longrightarrow> slot_inv e s \<Longrightarrow> slot_inv e s'"
proof (induction rule: php_own.induct)
  case (drained s n dr now)
  then show ?case
    by (intro php_goto_quiet) (auto simp: slot_inv_def park_simps intro: php_ok_next content_ok_move)
next
  case (hung_up s n dr now)
  then show ?case
    by (intro php_goto_quiet) (auto simp: slot_inv_def park_simps intro: php_ok_next content_ok_move)
qed (rule php_next_inv)

lemma php_step_inv: "php_step e s s' \<Longrightarrow> slot_inv e s \<Longrightarrow> slot_inv e s'"
proof (induction rule: php_step.induct)
  case (not_restarted s)
  then have *: "php_ok True (sl_ctl s) P_Unhealthy (pt_current (sl_thread s))"
    "content_ok e P_Unhealthy (sl_thread s) (sl_context s)" and e: "e = True"
    by (simp_all add: slot_inv_def)
  have "sl_ctl s \<noteq> C_Launch" using * by (auto simp: php_ok_def)
  with * show ?case
    unfolding e by (intro php_goto_quiet same_sync_intros php_ok_next(20))
      (use not_restarted in \<open>simp_all add: content_ok_def clear_force_kill_slot_def\<close>)
qed (auto intro: php_own_inv deliver_inv after_script_inv)

subsection \<open>The controller preserves it\<close>

text \<open>A controller step either changes no state, sets one, or waits.\<close>

lemma ctl_goto_same:
  assumes "slot_inv e s" "php_ok e c (sl_php s) (pt_current (sl_thread s))"
    and "handler_ok c (sl_php s) (pt_handler (sl_thread s))"
    and "ctl_wait_ok c (sl_thread s)" "drain_ok c (pt_drain (sl_thread s))"
  shows "slot_inv e (ctl_goto (c, sl_thread s) s)"
  using assms by (simp add: slot_inv_def park_simps)

lemma php_wait_set:
  assumes "php_wait_ok p t"
    and "\<And>S. pt_current t \<in> set S \<Longrightarrow> (\<exists>chan. php_wait_ok p t = parked t chan S) \<Longrightarrow> st \<in> set S"
  shows "php_wait_ok p (set_state st t)"
  using assms by (cases p) (auto simp: park_simps intro!: parked_set)

lemma ctl_goto_set:
  assumes "slot_inv e s" "php_ok e c (sl_php s) st" "handler_ok c (sl_php s) (pt_handler (sl_thread s))"
    and "php_wait_ok (sl_php s) (set_state st (sl_thread s))"
    and "ctl_wait_ok c (set_state st (sl_thread s))" "drain_ok c (pt_drain (sl_thread s))"
  shows "slot_inv e (ctl_goto (c, set_state st (sl_thread s)) s)"
  using assms by (simp add: slot_inv_def park_simps)

lemma ctl_goto_wait:
  assumes inv: "slot_inv e s"
    and "\<And>chan. php_ok e (q chan) (sl_php s) (pt_current (sl_thread s))"
    and "pt_current (sl_thread s) \<in> set S \<Longrightarrow> php_ok e r (sl_php s) (pt_current (sl_thread s))"
    and "\<And>chan. handler_ok (q chan) (sl_php s) (pt_handler (sl_thread s))"
    and "pt_current (sl_thread s) \<in> set S \<Longrightarrow> handler_ok r (sl_php s) (pt_handler (sl_thread s))"
    and "\<And>chan t. parked t chan S \<Longrightarrow> ctl_wait_ok (q chan) t" "ctl_wait_ok r (sl_thread s)"
    and "\<And>chan. drain_ok (q chan) (pt_drain (sl_thread s))" "drain_ok r (pt_drain (sl_thread s))"
  shows "slot_inv e (ctl_goto (wait_on S q r (sl_thread s)) s)"
proof -
  have subs: "subs_ok (pt_state (sl_thread s)) (pt_fresh (sl_thread s))"
    and php: "php_wait_ok (sl_php s) (sl_thread s)"
    and content: "content_ok e (sl_php s) (sl_thread s) (sl_context s)"
    using inv by (simp_all add: slot_inv_def)
  from subs show ?thesis
  proof (cases rule: wait_on_cases [of "sl_thread s" S q r])
    case through
    with assms(3,5,7,9) subs php content show ?thesis by (simp add: slot_inv_def park_simps)
  next
    case (parks t')
    have "php_wait_ok (sl_php s) t'"
      using php parks(6,10,11) by (cases "sl_php s") simp_all
    moreover have "content_ok e (sl_php s) t' (sl_context s)"
      using content content_ok_thread [OF parks(8,7), THEN iffD2] by blast
    ultimately show ?thesis
      unfolding slot_inv_def ctl_goto_simps parks(1) fst_conv snd_conv parks(4-6)
      using assms(2,4,6,8) parks(3,9) by blast
  qed
qed

lemma ctl_wake:
  "slot_inv e s \<Longrightarrow> parked (sl_thread s) chan S \<Longrightarrow>
    disconnected (pt_state (sl_thread s)) chan = (pt_current (sl_thread s) \<in> set S)"
  using parked_wake by (auto simp: slot_inv_def)

lemma stable_request:
  "stable_at e c p st \<Longrightarrow> st = Ready \<or> st = Inactive \<Longrightarrow> requested_at p \<or> e \<and> (leaving_at p \<or> p = P_Absent)"
  by (cases "(e, c, p, st)" rule: stable_at.cases) auto

lemma stable_at_ctl:
  "stable_at e c p st \<Longrightarrow> c = C_Boot \<Longrightarrow> st \<noteq> BootRequested \<Longrightarrow> stable_at e c' p st"
  "stable_at e c p st \<Longrightarrow> c \<noteq> C_Boot \<Longrightarrow> stable_at e c' p st"
  by (cases "(e, c, p, st)" rule: stable_at.cases; auto)+

lemma handler_ok_ctl:
  "handler_ok c p h \<Longrightarrow> phase_of c \<noteq> Boot_Wait \<Longrightarrow> phase_of c' \<noteq> Boot_Wait \<Longrightarrow> phase_of c' \<noteq> Boot_Prep \<Longrightarrow> handler_ok c' p h"
  by (cases p) auto

lemma request_inv:
  assumes inv: "slot_inv e s" and req: "request_state st (sl_thread s) = (v, t)"
    and stable: "phase_of (sl_ctl s) = Stable"
    and closed: "closed_generation g = None" "closed_generation r = None" "closed_generation q = None"
    and open': "closed_generation (sl_ctl s) = None"
    and granted: "phase_of g = Handover \<and> st = TransitionRequested \<or> phase_of g = Stopping \<and> st = ShuttingDown"
    and others: "phase_of r = Stable" "phase_of q = Stable" "r \<noteq> C_Boot" "q \<noteq> C_Boot" "sl_ctl s \<noteq> C_Boot"
    and waits: "\<And>t. ctl_wait_ok g t" "\<And>t. ctl_wait_ok r t" "\<And>t. ctl_wait_ok q t"
  shows "slot_inv e (ctl_goto (request_verdict g r q v, t) s)"
proof -
  have *: "stable_at e (sl_ctl s) (sl_php s) (pt_current (sl_thread s))"
    "handler_ok (sl_ctl s) (sl_php s) (pt_handler (sl_thread s))"
    "php_wait_ok (sl_php s) (sl_thread s)" "drain_ok (sl_ctl s) (pt_drain (sl_thread s))"
    using inv stable by (simp_all add: slot_inv_def php_ok_def)
  have drain: "drain_ok g (pt_drain (sl_thread s))" "drain_ok r (pt_drain (sl_thread s))"
    "drain_ok q (pt_drain (sl_thread s))"
    using *(4) closed open' by (simp_all add: drain_ok_def)
  have hnd: "handler_ok c (sl_php s) (pt_handler (sl_thread s))" if "phase_of c \<noteq> Boot_Wait" "phase_of c \<noteq> Boot_Prep" for c
    using handler_ok_ctl [OF *(2)] that stable by simp
  have sta: "stable_at e c (sl_php s) (pt_current (sl_thread s))" for c
    using stable_at_ctl(2) [OF *(1)] others(5) .
  show ?thesis
  proof (cases "pt_current (sl_thread s) = Ready \<or> pt_current (sl_thread s) = Inactive")
    case True
    with req have v: "v = Some True" "t = set_state st (sl_thread s)"
      by (auto simp: request_state_def request_pass_def set_state_def with_state_def ts_set_def split: if_splits)
    have "requested_at (sl_php s) \<or> e \<and> (leaving_at (sl_php s) \<or> sl_php s = P_Absent)"
      using stable_request [OF *(1) True] .
    moreover have "php_wait_ok (sl_php s) (set_state st (sl_thread s))"
      using *(1,3) True granted by (cases "sl_php s") (auto simp: park_simps inactive_wait_states_def intro!: parked_set)
    ultimately show ?thesis
      using granted hnd [of g] drain waits(1) unfolding v
      by (intro ctl_goto_set [OF inv]) (auto simp: request_verdict_def php_ok_def)
  next
    case False
    with req have t: "t = sl_thread s" "v = Some False \<or> v = None"
      by (auto simp: request_state_def request_pass_def split: if_splits)
    with others sta hnd waits drain show ?thesis
      by (auto simp: request_verdict_def php_ok_def intro!: ctl_goto_same [OF inv])
  qed
qed

lemma start_inv: "slot_inv e s \<Longrightarrow> sl_ctl s = C_Idle \<Longrightarrow> c \<in> {C_Claim, C_Boot, C_Shut} \<or> c = C_Set h \<Longrightarrow>
    slot_inv e (s\<lparr>sl_ctl := c\<rparr>)"
  unfolding slot_inv_def
  by (auto simp: php_ok_def drain_ok_def intro: stable_at_ctl handler_ok_ctl)

lemma handler_ok_boot:
  "handler_ok c p h \<Longrightarrow> phase_of c = Boot_Wait \<Longrightarrow> phase_of c' = Boot_Wait \<Longrightarrow> handler_ok c' p h"
  by (cases p) auto

lemma booted:
  "booting_at p Inactive \<Longrightarrow> handler_ok c p h \<Longrightarrow> stable_at e c' p Inactive \<and> handler_ok c' p h"
  by (cases "(p, Inactive)" rule: booting_at.cases) simp_all

lemma boot_next_inv:
  assumes inv: "slot_inv e s" and next': "boot_next s = Some s'"
  shows "slot_inv e s'"
proof -
  have php: "php_ok e (sl_ctl s) (sl_php s) (pt_current (sl_thread s))"
    and hnd: "handler_ok (sl_ctl s) (sl_php s) (pt_handler (sl_thread s))"
    and subs: "subs_ok (pt_state (sl_thread s)) (pt_fresh (sl_thread s))"
    and wait: "php_wait_ok (sl_php s) (sl_thread s)" "ctl_wait_ok (sl_ctl s) (sl_thread s)"
    and drain: "drain_ok (sl_ctl s) (pt_drain (sl_thread s))"
    and content: "content_ok e (sl_php s) (sl_thread s) (sl_context s)"
    using inv by (simp_all add: slot_inv_def)
  have cas: "cas_state a b t = (if pt_current t = a then (True, set_state b t) else (False, t))" for a b t
    by (simp add: cas_state_def compare_and_swap_def set_state_def with_state_def ts_set_def)
  show ?thesis
  proof (cases "sl_ctl s")
    case C_Claim
    show ?thesis
    proof (cases "pt_current (sl_thread s) = Reserved")
      case True
      with php C_Claim have p: "sl_php s = P_Absent"
        by (cases "(e, C_Claim, sl_php s, Reserved)" rule: stable_at.cases) (auto simp: php_ok_def)
      with True next' C_Claim have "s' = ctl_goto (C_Boot, set_state BootRequested (sl_thread s)) s"
        by (simp add: boot_next_def Let_def cas)
      with p drain C_Claim show ?thesis
        by (auto simp: php_ok_def drain_ok_def intro!: ctl_goto_set [OF inv])
    next
      case False
      with next' C_Claim have "s' = ctl_goto (C_Idle, sl_thread s) s"
        by (simp add: boot_next_def Let_def cas)
      with php hnd drain C_Claim show ?thesis
        by (auto simp: php_ok_def drain_ok_def intro!: ctl_goto_same [OF inv]
            intro: stable_at_ctl handler_ok_ctl)
    qed
  next
    case C_Boot
    show ?thesis
    proof (cases "pt_current (sl_thread s) = Reserved \<or> pt_current (sl_thread s) = BootRequested")
      case True
      with php C_Boot have p: "sl_php s = P_Absent"
        by (cases "(e, C_Boot, sl_php s, pt_current (sl_thread s))" rule: stable_at.cases) (auto simp: php_ok_def)
      from True next' C_Boot have "s' = ctl_goto (C_Install, set_state Booting (sl_thread s)) s"
        by (auto simp: boot_next_def Let_def cas split: if_splits)
      with p drain C_Boot show ?thesis
        by (auto simp: php_ok_def drain_ok_def intro!: ctl_goto_set [OF inv])
    next
      case False
      with next' C_Boot have "s' = ctl_goto (C_Idle, sl_thread s) s"
        by (simp add: boot_next_def Let_def cas)
      with False php hnd drain C_Boot show ?thesis
        by (auto simp: php_ok_def drain_ok_def intro!: ctl_goto_same [OF inv]
            intro: stable_at_ctl handler_ok_ctl)
    qed
  next
    case C_Install
    with php have p: "sl_php s = P_Absent" "pt_current (sl_thread s) = Booting" by (simp_all add: php_ok_def)
    from next' C_Install have "s' = ctl_goto (C_Launch, renew_drain (handler_replace Inactive_Thread (sl_thread s))) s"
      by (simp add: boot_next_def)
    with p subs drain content C_Install show ?thesis
      by (auto simp: slot_inv_def park_simps php_ok_def renew_drain_def handler_replace_def drain_ok_def
          content_ok_def drain_renew_def drain_close_def drain_reopen_def drain_of_generation_def subs_ok_def)
  next
    case C_Boot_Wait
    with php hnd drain booted [of "sl_php s" C_Boot_Wait "pt_handler (sl_thread s)"]
    have "slot_inv e (ctl_goto (wait_on [Inactive] C_Boot_Parked C_Idle (sl_thread s)) s)"
      by (intro ctl_goto_wait [OF inv]) (auto simp: php_ok_def drain_ok_def intro: handler_ok_boot)
    with next' C_Boot_Wait show ?thesis by (simp add: boot_next_def)
  next
    case (C_Boot_Parked chan)
    with next' wait ctl_wake [OF inv, of chan "[Inactive]"]
    have st: "pt_current (sl_thread s) = Inactive" and s': "s' = ctl_goto (C_Idle, sl_thread s) s"
      by (auto simp: boot_next_def Let_def split: if_splits)
    show ?thesis
      unfolding s' using php hnd drain st C_Boot_Parked booted
      by (auto simp: php_ok_def drain_ok_def intro!: ctl_goto_same [OF inv])
  qed (use next' in \<open>simp_all add: boot_next_def Let_def\<close>)
qed

lemma content_ok_other:
  "content_ok e p (t\<lparr>pt_drain := d\<rparr>) c = content_ok e p t c"
  "content_ok e p (t\<lparr>pt_drain := d, pt_fresh := n\<rparr>) c = content_ok e p t c"
  "content_ok e p (with_state f t) c = content_ok e p t c"
  by (simp_all add: content_ok_def with_state_def)

lemma close_inv:
  assumes inv: "slot_inv e s" and closed: "closed_generation (sl_ctl s) = None"
    and c: "\<And>g. closed_generation (c g) = Some g" "\<And>g t. ctl_wait_ok (c g) t"
    and php: "\<And>g. php_ok e (c g) (sl_php s) (pt_current (sl_thread s))"
    and hnd: "\<And>g. handler_ok (c g) (sl_php s) (pt_handler (sl_thread s))"
  shows "case close_drain (sl_thread s) of
           (Some g, t) \<Rightarrow> slot_inv e (ctl_goto (c g, t) s) | (None, t) \<Rightarrow> False"
proof -
  let ?t = "sl_thread s\<lparr>pt_drain := (pt_drain (sl_thread s))\<lparr>dg_sender := None\<rparr>\<rparr>"
  have "close_drain (sl_thread s) = (Some (dg_generation (pt_drain (sl_thread s))), ?t)"
    using inv closed by (simp add: close_drain_def drain_close_def slot_inv_def drain_ok_def)
  moreover have "php_wait_ok (sl_php s) ?t"
    using inv by (cases "sl_php s") (simp_all add: slot_inv_def drain_get_receiver_def parked_def asks_def)
  moreover have "content_ok e (sl_php s) ?t (sl_context s)"
    using inv by (simp add: slot_inv_def content_ok_other)
  ultimately show ?thesis
    using inv c php hnd by (simp add: slot_inv_def ctl_goto_simps drain_ok_def)
qed

lemma reopen_inv:
  assumes inv: "slot_inv e s" and closed: "closed_generation (sl_ctl s) = Some g"
    and c: "closed_generation c = None" "\<And>t. ctl_wait_ok c t"
    and php: "php_ok e c (sl_php s) (pt_current (sl_thread s))"
    and hnd: "handler_ok c (sl_php s) (pt_handler (sl_thread s))"
    and p: "completing_at (sl_php s) \<or> sl_php s = P_Absent"
  shows "slot_inv e (ctl_goto (c, reopen_drain g (sl_thread s)) s)"
proof -
  let ?t = "sl_thread s\<lparr>pt_drain := drain_of_generation (g + 1) (pt_fresh (sl_thread s)),
              pt_fresh := pt_fresh (sl_thread s) + 1\<rparr>"
  have t: "reopen_drain g (sl_thread s) = ?t"
    using inv closed by (simp add: reopen_drain_def drain_reopen_def slot_inv_def drain_ok_def)
  have "php_wait_ok (sl_php s) ?t"
    using inv p by (cases "sl_php s") (auto simp: slot_inv_def parked_def asks_def)
  moreover have "content_ok e (sl_php s) ?t (sl_context s)"
    using inv by (simp add: slot_inv_def content_ok_other)
  moreover have "subs_ok (pt_state ?t) (pt_fresh ?t)"
    using inv by (fastforce simp: slot_inv_def subs_ok_def)
  ultimately show ?thesis
    unfolding t using c php hnd by (simp add: slot_inv_def ctl_goto_simps drain_ok_def drain_of_generation_def)
qed

lemma set_handler_next_inv:
  assumes inv: "slot_inv e s" and next': "set_handler_next s = Some s'"
  shows "slot_inv e s'"
proof -
  have php: "php_ok e (sl_ctl s) (sl_php s) (pt_current (sl_thread s))"
    and hnd: "handler_ok (sl_ctl s) (sl_php s) (pt_handler (sl_thread s))"
    and subs: "subs_ok (pt_state (sl_thread s)) (pt_fresh (sl_thread s))"
    and wait: "php_wait_ok (sl_php s) (sl_thread s)" "ctl_wait_ok (sl_ctl s) (sl_thread s)"
    and drain: "drain_ok (sl_ctl s) (pt_drain (sl_thread s))"
    and content: "content_ok e (sl_php s) (sl_thread s) (sl_context s)"
    using inv by (simp_all add: slot_inv_def)
  have asks: "\<And>t chan S. parked t chan S \<Longrightarrow> asks t chan S" by (simp add: parked_def)
  show ?thesis
  proof (cases "sl_ctl s")
    case (C_Set h)
    obtain v t where vt: "request_state TransitionRequested (sl_thread s) = (v, t)" by force
    with C_Set have "slot_inv e (ctl_goto (request_verdict (C_Set_Close h) C_Idle (C_Set_Retry h) v, t) s)"
      by (intro request_inv [OF inv vt]) simp_all
    with next' C_Set vt show ?thesis by (simp add: set_handler_next_def Let_def)
  next
    case (C_Set_Retry h)
    with php hnd drain asks
    have "slot_inv e (ctl_goto (wait_on request_wait_states (C_Set_Parked h) (C_Set h) (sl_thread s)) s)"
      by (intro ctl_goto_wait [OF inv])
        (auto simp: php_ok_def drain_ok_def intro: stable_at_ctl handler_ok_ctl)
    with next' C_Set_Retry show ?thesis by (simp add: set_handler_next_def Let_def)
  next
    case (C_Set_Parked h chan)
    with next' have s': "s' = ctl_goto (C_Set h, sl_thread s) s"
      by (simp add: set_handler_next_def Let_def split: if_splits)
    show ?thesis
      unfolding s' using php hnd drain C_Set_Parked
      by (auto simp: php_ok_def drain_ok_def intro!: ctl_goto_same [OF inv] intro: stable_at_ctl handler_ok_ctl)
  next
    case (C_Set_Close h)
    then have "handler_ok (C_Set_Wait h g) (sl_php s) (pt_handler (sl_thread s))" for g
      using hnd handler_ok_ctl by simp
    with C_Set_Close php close_inv [OF inv, of "C_Set_Wait h"] next' show ?thesis
      by (simp add: set_handler_next_def Let_def php_ok_def split: prod.splits option.splits)
  next
    case (C_Set_Wait h closed)
    with php hnd drain
    have "slot_inv e (ctl_goto (wait_on [TransitionInProgress] (C_Set_Await h closed) (C_Replace h closed) (sl_thread s)) s)"
      by (intro ctl_goto_wait [OF inv]) (auto simp: php_ok_def drain_ok_def intro: handler_ok_ctl)
    with next' C_Set_Wait show ?thesis by (simp add: set_handler_next_def Let_def)
  next
    case (C_Set_Await h closed chan)
    with next' wait ctl_wake [OF inv, of chan "[TransitionInProgress]"]
    have st: "pt_current (sl_thread s) = TransitionInProgress"
      and s': "s' = ctl_goto (C_Replace h closed, sl_thread s) s"
      by (auto simp: set_handler_next_def Let_def split: if_splits)
    show ?thesis
      unfolding s' using php hnd drain st C_Set_Await
      by (auto simp: php_ok_def drain_ok_def intro!: ctl_goto_same [OF inv] intro: handler_ok_ctl)
  next
    case (C_Replace h closed)
    with next' have s': "s' = ctl_goto (C_Reopen h closed, handler_replace h (sl_thread s)) s"
      by (simp add: set_handler_next_def Let_def)
    show ?thesis
      unfolding s' using C_Replace php subs wait drain content
      by (cases "sl_php s") (auto simp: slot_inv_def ctl_goto_simps php_ok_def drain_ok_def content_ok_def
          handler_replace_def parked_def asks_def)
  next
    case (C_Reopen h closed)
    with php hnd have "slot_inv e (ctl_goto (C_Complete h, reopen_drain closed (sl_thread s)) s)"
      by (intro reopen_inv [OF inv]) (auto simp: php_ok_def intro: handler_ok_ctl)
    with next' C_Reopen show ?thesis by (simp add: set_handler_next_def Let_def)
  next
    case (C_Complete h)
    have "slot_inv e (ctl_goto (C_Idle, set_state TransitionComplete (sl_thread s)) s)"
      using C_Complete php hnd wait drain
      by (cases "sl_php s") (auto simp: php_ok_def drain_ok_def intro!: ctl_goto_set [OF inv] parked_set)
    then have "slot_inv e (ctl_goto (C_Idle, set_state TransitionComplete (sl_thread s)) (s\<lparr>sl_unattached := x\<rparr>))" for x
      by (simp add: slot_inv_def ctl_goto_def)
    with next' C_Complete show ?thesis
      by (auto simp: set_handler_next_def Let_def slot_inv_def ctl_goto_def split: thread_handler.splits)
  qed (use next' in \<open>simp_all add: set_handler_next_def Let_def\<close>)
qed

lemma stable_done:
  "stable_at e c p st \<Longrightarrow> st = Done \<Longrightarrow> e \<and> p = P_Absent"
  by (cases "(e, c, p, st)" rule: stable_at.cases) auto

lemma begin_shutdown_next_inv:
  assumes inv: "slot_inv e s" and next': "begin_shutdown_next s = Some s'"
  shows "slot_inv e s'"
proof -
  have php: "php_ok e (sl_ctl s) (sl_php s) (pt_current (sl_thread s))"
    and hnd: "handler_ok (sl_ctl s) (sl_php s) (pt_handler (sl_thread s))"
    and drain: "drain_ok (sl_ctl s) (pt_drain (sl_thread s))"
    using inv by (simp_all add: slot_inv_def)
  have asks: "\<And>t chan S. parked t chan S \<Longrightarrow> asks t chan S" by (simp add: parked_def)
  show ?thesis
  proof (cases "sl_ctl s")
    case C_Shut
    obtain v t where vt: "request_state ShuttingDown (sl_thread s) = (v, t)" by force
    with C_Shut have "slot_inv e (ctl_goto (request_verdict C_Shut_Close C_Refused C_Shut_Retry v, t) s)"
      by (intro request_inv [OF inv vt]) simp_all
    with next' C_Shut vt show ?thesis by (simp add: begin_shutdown_next_def Let_def)
  next
    case C_Shut_Retry
    with php hnd drain asks
    have "slot_inv e (ctl_goto (wait_on request_wait_states C_Shut_Parked C_Shut (sl_thread s)) s)"
      by (intro ctl_goto_wait [OF inv])
        (auto simp: php_ok_def drain_ok_def intro: stable_at_ctl handler_ok_ctl)
    with next' C_Shut_Retry show ?thesis by (simp add: begin_shutdown_next_def Let_def)
  next
    case (C_Shut_Parked chan)
    with next' have s': "s' = ctl_goto (C_Shut, sl_thread s) s"
      by (simp add: begin_shutdown_next_def Let_def split: if_splits)
    show ?thesis
      unfolding s' using php hnd drain C_Shut_Parked
      by (auto simp: php_ok_def drain_ok_def intro!: ctl_goto_same [OF inv] intro: stable_at_ctl handler_ok_ctl)
  next
    case C_Refused
    show ?thesis
    proof (cases "pt_current (sl_thread s) = Done")
      case True
      with php C_Refused stable_done have p: "sl_php s = P_Absent" by (auto simp: php_ok_def)
      from True next' C_Refused have "s' = ctl_goto (C_Idle, set_state Reserved (sl_thread s)) s"
        by (simp add: begin_shutdown_next_def Let_def cas_state_def compare_and_swap_def set_state_def
            with_state_def ts_set_def)
      with p drain C_Refused show ?thesis
        by (auto simp: php_ok_def drain_ok_def intro!: ctl_goto_set [OF inv])
    next
      case False
      with next' C_Refused have "s' = ctl_goto (C_Idle, sl_thread s) s"
        by (simp add: begin_shutdown_next_def Let_def cas_state_def compare_and_swap_def)
      with php hnd drain C_Refused show ?thesis
        by (auto simp: php_ok_def drain_ok_def intro!: ctl_goto_same [OF inv] intro: stable_at_ctl handler_ok_ctl)
    qed
  next
    case C_Shut_Close
    then have "handler_ok (C_Grace g) (sl_php s) (pt_handler (sl_thread s))" for g
      using hnd handler_ok_ctl by simp
    with C_Shut_Close php close_inv [OF inv, of C_Grace] next' show ?thesis
      by (simp add: begin_shutdown_next_def Let_def php_ok_def split: prod.splits option.splits)
  qed (use next' in \<open>simp_all add: begin_shutdown_next_def Let_def\<close>)
qed

text \<open>The wait for Done, with and without a timeout.\<close>

lemma stopping_wait:
  assumes inv: "slot_inv e s"
    and "phase_of (sl_ctl s) = Stopping" "closed_generation (sl_ctl s) = Some g"
    and "\<And>chan. phase_of (q chan) = Stopping" "\<And>chan. closed_generation (q chan) = Some g"
    and "\<And>chan t. ctl_wait_ok (q chan) t = parked t chan [Done]"
  shows "slot_inv e (ctl_goto (wait_on [Done] q (C_Finish g) (sl_thread s)) s)"
proof -
  have "php_ok e (sl_ctl s) (sl_php s) (pt_current (sl_thread s))"
    "handler_ok (sl_ctl s) (sl_php s) (pt_handler (sl_thread s))"
    "drain_ok (sl_ctl s) (pt_drain (sl_thread s))"
    using inv by (simp_all add: slot_inv_def)
  with assms show ?thesis
    by (intro ctl_goto_wait [OF inv]) (auto simp: php_ok_def drain_ok_def intro: handler_ok_ctl)
qed

lemma stopping_wake:
  assumes inv: "slot_inv e s" and "phase_of (sl_ctl s) = Stopping" "closed_generation (sl_ctl s) = Some g"
    and "ctl_wait_ok (sl_ctl s) (sl_thread s) \<Longrightarrow> parked (sl_thread s) chan [Done]"
    and "disconnected (pt_state (sl_thread s)) chan"
  shows "slot_inv e (ctl_goto (C_Finish g, sl_thread s) s)"
proof -
  have *: "php_ok e (sl_ctl s) (sl_php s) (pt_current (sl_thread s))"
    "handler_ok (sl_ctl s) (sl_php s) (pt_handler (sl_thread s))"
    "drain_ok (sl_ctl s) (pt_drain (sl_thread s))" "ctl_wait_ok (sl_ctl s) (sl_thread s)"
    using inv by (simp_all add: slot_inv_def)
  then have "pt_current (sl_thread s) = Done"
    using assms(4,5) ctl_wake [OF inv, of chan "[Done]"] by auto
  with * assms(2,3) show ?thesis
    by (intro ctl_goto_same [OF inv]) (auto simp: php_ok_def drain_ok_def)
qed

lemma shutdown_next_inv:
  assumes inv: "slot_inv e s" and next': "shutdown_next s = Some s'"
  shows "slot_inv e s'"
proof (cases "sl_ctl s")
  case (C_Grace g)
  with next' stopping_wait [OF inv, of g "C_Graced g"] show ?thesis
    by (simp add: shutdown_next_def Let_def)
next
  case (C_Graced g chan)
  with next' stopping_wake [OF inv, of g chan] show ?thesis
    by (simp add: shutdown_next_def Let_def split: if_splits)
next
  case (C_Kill g)
  with inv have "slot_inv e (ctl_goto (C_Done_Wait g, sl_thread s) s)"
    by (intro ctl_goto_same [OF inv]) (auto simp: slot_inv_def php_ok_def drain_ok_def intro: handler_ok_ctl)
  then have "slot_inv e (ctl_goto (C_Done_Wait g, sl_thread s) (s\<lparr>sl_killed := ks\<rparr>))" for ks
    by (simp add: slot_inv_def ctl_goto_def)
  with next' C_Kill show ?thesis by (auto simp: shutdown_next_def Let_def)
next
  case (C_Done_Wait g)
  with next' stopping_wait [OF inv, of g "C_Done_Parked g"] show ?thesis
    by (simp add: shutdown_next_def Let_def)
next
  case (C_Done_Parked g chan)
  with next' stopping_wake [OF inv, of g chan] show ?thesis
    by (simp add: shutdown_next_def Let_def split: if_splits)
qed (use next' in \<open>simp_all add: shutdown_next_def Let_def\<close>)

lemma timeout_slot_inv:
  assumes inv: "slot_inv e s" and c: "sl_ctl s = C_Graced g chan"
  shows "slot_inv e (ctl_goto (C_Kill g, with_state (\<lambda>ts. unsubscribe ts chan) (sl_thread s)) s)"
proof -
  let ?t = "with_state (\<lambda>ts. unsubscribe ts chan) (sl_thread s)"
  have *: "php_ok e (sl_ctl s) (sl_php s) (pt_current (sl_thread s))"
    "handler_ok (sl_ctl s) (sl_php s) (pt_handler (sl_thread s))"
    "subs_ok (pt_state (sl_thread s)) (pt_fresh (sl_thread s))"
    "drain_ok (sl_ctl s) (pt_drain (sl_thread s))"
    "php_wait_ok (sl_php s) (sl_thread s)"
    "content_ok e (sl_php s) (sl_thread s) (sl_context s)"
    using inv by (simp_all add: slot_inv_def)
  have "php_wait_ok (sl_php s) ?t"
    using *(1,5) c by (cases "sl_php s")
      (auto simp: php_ok_def parked_def asks_def with_state_def unsubscribe_def inactive_wait_states_def)
  moreover have "content_ok e (sl_php s) ?t (sl_context s)"
    using *(6) by (simp add: content_ok_other)
  moreover have "subs_ok (pt_state ?t) (pt_fresh ?t)"
    using *(3) by (auto simp: subs_ok_def with_state_def unsubscribe_def)
  ultimately show ?thesis
    using *(1,2,4) c
    by (auto simp: slot_inv_def ctl_goto_simps php_ok_def drain_ok_def with_state_def unsubscribe_def
        intro: handler_ok_ctl)
qed

lemma settled_inv:
  assumes inv: "slot_inv e s" and c: "sl_ctl s \<in> {C_Grace g, C_Kill g, C_Done_Wait g}"
    and st: "ts_is (pt_state (sl_thread s)) Done"
  shows "slot_inv e (ctl_goto (C_Finish g, sl_thread s) s)"
proof -
  have "php_ok e (sl_ctl s) (sl_php s) (pt_current (sl_thread s))"
    "handler_ok (sl_ctl s) (sl_php s) (pt_handler (sl_thread s))"
    "drain_ok (sl_ctl s) (pt_drain (sl_thread s))"
    using inv by (simp_all add: slot_inv_def)
  with c st show ?thesis
    by (intro ctl_goto_same [OF inv]) (auto simp: php_ok_def drain_ok_def ts_is_def)
qed

lemma finish_shutdown_next_inv:
  assumes inv: "slot_inv e s" and next': "finish_shutdown_next s = Some s'"
  shows "slot_inv e s'"
proof (cases "sl_ctl s")
  case (C_Finish g)
  with inv have "slot_inv e (ctl_goto (C_Reserve, reopen_drain g (sl_thread s)) s)"
    by (intro reopen_inv [OF inv]) (auto simp: slot_inv_def php_ok_def intro: handler_ok_ctl)
  with next' C_Finish show ?thesis by (simp add: finish_shutdown_next_def Let_def)
next
  case C_Reserve
  with inv have "slot_inv e (ctl_goto (C_Idle, set_state Reserved (sl_thread s)) s)"
    by (intro ctl_goto_set [OF inv]) (auto simp: slot_inv_def php_ok_def drain_ok_def)
  with next' C_Reserve show ?thesis by (simp add: finish_shutdown_next_def Let_def)
qed (use next' in \<open>simp_all add: finish_shutdown_next_def Let_def\<close>)

lemma ctl_step_inv: "ctl_step s s' \<Longrightarrow> slot_inv e s \<Longrightarrow> slot_inv e s'"
proof (induction rule: ctl_step.induct)
  case (launched s)
  then show ?case
    by (auto simp: slot_inv_def php_ok_def drain_ok_def content_ok_def)
next
  case (not_launched s)
  then show ?case
    by (intro ctl_goto_set) (auto simp: slot_inv_def php_ok_def drain_ok_def)
next
  case (attach n s)
  then show ?case by (simp add: slot_inv_def)
qed (auto intro: start_inv boot_next_inv set_handler_next_inv begin_shutdown_next_inv shutdown_next_inv
    timeout_slot_inv settled_inv finish_shutdown_next_inv)

lemma slot_new_inv: "slot_inv e (slot_new thread_index w)"
  by (simp add: slot_inv_def slot_new_def thread_new_def ts_new_def php_ok_def subs_ok_def drain_ok_def
      drain_new_def drain_of_generation_def content_ok_def)

lemma slot_reachable_inv: "slot_reachable e s \<Longrightarrow> slot_inv e s"
proof (induction rule: slot_reachable.induct)
  case (world s w)
  then show ?case by (simp add: slot_inv_def)
qed (auto intro: slot_new_inv php_step_inv ctl_step_inv)

end
