(* ===== verification/SlotDuty.thy ===== *)
theory SlotDuty
  imports SlotReachable
begin

section \<open>The handler on duty and the pthread that is killed\<close>

text \<open>
  Two more invariants of \<^verbatim>\<open>SlotProtocol\<close>, on top of the table of \<^verbatim>\<open>SlotInvariant\<close>: the sender of a handler
  on duty is attached or waits to be, so that its channel never hangs up, and a pthread that runs a
  script while the controller waits for Done without a timeout has been sent the kill signal.
\<close>

subsection \<open>The steps by what they do\<close>

lemma php_run: "php_next now s = Some s' \<Longrightarrow> php_step e s s'"
  by (rule php_step.own [OF php_own.run])

lemma php_ownE:
  assumes "php_own s s'"
  obtains (run) now where "php_next now s = Some s'"
  | (woken) n dr now where "sl_php s = P_Select n dr"
      "s' = php_goto (P_Loop (Regular_Thread n), mark_waiting False now (sl_thread s)) s"
  using assms by cases auto

lemma php_stepE:
  assumes "php_step e s s'"
  obtains (run) now where "php_next now s = Some s'"
  | (woken) n dr now where "sl_php s = P_Select n dr"
      "s' = php_goto (P_Loop (Regular_Thread n), mark_waiting False now (sl_thread s)) s"
  | (delivered) n dr ctx now where "sl_php s = P_Select n dr" "s' = deliver ctx now n s"
      "e \<or> ctx_script_filename ctx \<noteq> []"
  | (script_over) n q where "sl_php s = P_Script n" "q = P_Enter \<or> q = P_Unhealthy" "s' = (after_script s)\<lparr>sl_php := q\<rparr>"
  | (lost) "sl_php s = P_Unhealthy" "e" "s' = php_goto (P_Absent, snd (clear_force_kill_slot (sl_thread s))) s"
  using assms
proof cases
  case own
  then show thesis using run woken by (elim php_ownE) blast+
qed blast+

subsection \<open>The own channel of a handler stays connected\<close>

text \<open>While a handler is on duty its sender is attached, or waits to be.\<close>

fun on_duty :: "php_pc \<Rightarrow> bool" where
  "on_duty P_Start = True"
| "on_duty P_Enter = True"
| "on_duty (P_Loop _) = True"
| "on_duty P_Reread = True"
| "on_duty (P_Set_Ready _) = True"
| "on_duty (P_Fetch _) = True"
| "on_duty (P_Select _ _) = True"
| "on_duty (P_Script _) = True"
| "on_duty P_Unhealthy = True"
| "on_duty _ = False"

definition attached_names :: "thread_handler option \<Rightarrow> ('s, 'k) slot \<Rightarrow> bool" where
  "attached_names h s =
     (\<forall>n. h = Some (Regular_Thread n) \<longrightarrow> n \<in> set (sl_entries s) \<union> set (sl_unattached s))"

fun installing :: "ctl_pc \<Rightarrow> thread_handler option" where
  "installing (C_Reopen h _) = Some h"
| "installing (C_Complete h) = Some h"
| "installing _ = None"

definition attached_ok :: "('s, 'k) slot \<Rightarrow> bool" where
  "attached_ok s =
     ((on_duty (sl_php s) \<or> completing_at (sl_php s) \<and> phase_of (sl_ctl s) = Stable \<longrightarrow>
         attached_names (pt_handler (sl_thread s)) s) \<and>
      (installing (sl_ctl s) = None \<or> installing (sl_ctl s) = pt_handler (sl_thread s)))"

lemma attached_keeps:
  assumes "attached_ok s" "attached_names (pt_handler (sl_thread s)) s \<Longrightarrow> attached_names (pt_handler (sl_thread s')) s'"
    and "on_duty (sl_php s') \<or> completing_at (sl_php s') \<and> phase_of (sl_ctl s') = Stable \<Longrightarrow>
      on_duty (sl_php s) \<or> completing_at (sl_php s) \<and> phase_of (sl_ctl s) = Stable \<or>
      attached_names (pt_handler (sl_thread s)) s"
    and "installing (sl_ctl s') = None \<or> installing (sl_ctl s') = pt_handler (sl_thread s')"
  shows "attached_ok s'"
  using assms unfolding attached_ok_def by argo

lemma attached_inactive: "attached_names (Some Inactive_Thread) s"
  by (simp add: attached_names_def)

lemma wait_on_goes: "fst (wait_on S q r t) = r \<or> (\<exists>c. fst (wait_on S q r t) = q c)"
  by (auto simp: wait_on_def split: prod.splits option.splits)

lemma wait_on_handler [simp]: "pt_handler (snd (wait_on S q r t)) = pt_handler t"
  by (auto simp: wait_on_def subscribe_state_def subscribe_def split: prod.splits option.splits)

lemma same_handler [simp]:
  "pt_handler (snd (store_force_kill_slot n t)) = pt_handler t" "pt_handler (snd (clear_force_kill_slot t)) = pt_handler t"
  "pt_handler (release_script_path t) = pt_handler t" "pt_handler (publish_script_path p t) = pt_handler t"
  by (simp_all add: store_force_kill_slot_def clear_force_kill_slot_def release_script_path_def publish_script_path_def)

lemma php_next_frame:
  assumes "php_next now s = Some s'"
  shows "sl_ctl s' = sl_ctl s" "pt_handler (sl_thread s') = pt_handler (sl_thread s)" "sl_unattached s' = sl_unattached s"
    "sl_entries s' = sl_entries s \<or> \<not> on_duty (sl_php s') \<and> \<not> completing_at (sl_php s')"
  using assms
  by (cases "sl_php s"; auto simp: php_next_def Let_def park_simps split: if_splits)+

lemma php_next_duty:
  assumes inv: "slot_inv e s" and next': "php_next now s = Some s'"
    and duty: "on_duty (sl_php s') \<or> completing_at (sl_php s') \<and> phase_of (sl_ctl s) = Stable"
  shows "on_duty (sl_php s) \<or> completing_at (sl_php s) \<and> phase_of (sl_ctl s) = Stable \<or>
    pt_handler (sl_thread s) = Some Inactive_Thread"
proof -
  have stable: "phase_of (sl_ctl s) = Stable"
    if "completing_at (sl_php s)" "pt_current (sl_thread s) = TransitionComplete"
    using inv that by (cases "sl_php s") (auto simp: slot_inv_def php_ok_def split: phase.splits)
  show ?thesis
  proof (cases "sl_php s")
  case P_Wait_Complete
  with next' have s': "s' = php_goto (wait_on [TransitionComplete] P_Parked_Complete P_Reread (sl_thread s)) s"
    by (simp add: php_next_def Let_def)
  have "subs_ok (pt_state (sl_thread s)) (pt_fresh (sl_thread s))" using inv by (simp add: slot_inv_def)
  then show ?thesis
    by (cases rule: wait_on_cases [of "sl_thread s" "[TransitionComplete]" P_Parked_Complete P_Reread])
      (use P_Wait_Complete stable duty in \<open>auto simp: s' park_simps\<close>)
next
  case (P_Parked_Complete chan)
  with next' have "disconnected (pt_state (sl_thread s)) chan" by (simp add: php_next_def Let_def split: if_splits)
  with P_Parked_Complete inv have "pt_current (sl_thread s) = TransitionComplete"
    using parked_wake [of "sl_thread s" "pt_fresh (sl_thread s)" chan "[TransitionComplete]"] by (simp add: slot_inv_def)
  with P_Parked_Complete stable show ?thesis by simp
qed (use assms in \<open>auto simp: php_next_def Let_def park_simps slot_inv_def php_ok_def split: if_splits phase.splits\<close>)
qed

lemma attached_php_step:
  assumes inv: "slot_inv e s" and ok: "attached_ok s" and step: "php_step e s s'"
  shows "attached_ok s'"
  using step
proof (cases rule: php_stepE)
  case (run now)
  note frame = php_next_frame [OF run]
  show ?thesis
  proof (cases "on_duty (sl_php s') \<or> completing_at (sl_php s') \<and> phase_of (sl_ctl s) = Stable")
    case True
    with ok php_next_duty [OF inv run True] have "attached_names (pt_handler (sl_thread s)) s"
      by (auto simp: attached_ok_def attached_inactive)
    with ok frame True show ?thesis by (auto simp: attached_ok_def attached_names_def)
  next
    case False
    with ok frame show ?thesis unfolding attached_ok_def by metis
  qed
next
  case (delivered n dr ctx now)
  then show ?thesis using ok
    by (auto simp: deliver_def Let_def attached_ok_def attached_names_def park_simps split: option.splits)
next
  case (script_over n q)
  then show ?thesis using ok
    by (auto simp: after_script_def Let_def attached_ok_def attached_names_def split: option.splits prod.splits)
qed (use ok in \<open>auto simp: attached_ok_def attached_names_def park_simps\<close>)

text \<open>The controller replaces the handler and hands its sender over in two places; elsewhere it keeps both.\<close>

definition ctl_keeps :: "('s, 'k) slot \<Rightarrow> ('s, 'k) slot \<Rightarrow> bool" where
  "ctl_keeps s s' =
     (sl_php s' = sl_php s \<and> pt_handler (sl_thread s') = pt_handler (sl_thread s) \<and>
      sl_entries s' = sl_entries s \<and> sl_unattached s' = sl_unattached s \<and>
      (phase_of (sl_ctl s') = Stable \<longrightarrow> phase_of (sl_ctl s) = Stable \<or> \<not> completing_at (sl_php s)) \<and>
      (installing (sl_ctl s') = None \<or> installing (sl_ctl s') = installing (sl_ctl s)))"

lemma ctl_keeps_attached: "ctl_keeps s s' \<Longrightarrow> attached_ok s \<Longrightarrow> attached_ok s'"
  unfolding ctl_keeps_def attached_ok_def attached_names_def by auto

lemma boot_next_attached:
  assumes inv: "slot_inv e s" and ok: "attached_ok s" and next': "boot_next s = Some s'"
  shows "attached_ok s'"
proof (cases "sl_ctl s = C_Install")
  case True
  with inv have "sl_php s = P_Absent" by (simp add: slot_inv_def php_ok_def)
  with True next' ok show ?thesis
    by (auto simp: boot_next_def attached_ok_def attached_names_def park_simps)
next
  case False
  have "php_ok e (sl_ctl s) (sl_php s) (pt_current (sl_thread s))" using inv by (simp add: slot_inv_def)
  then have "phase_of (sl_ctl s) = Boot_Wait \<Longrightarrow> \<not> completing_at (sl_php s)"
    by (cases "sl_php s") (simp_all add: php_ok_def)
  with False next' have "ctl_keeps s s'"
    using wait_on_goes [of "[Inactive]" C_Boot_Parked C_Idle "sl_thread s"]
    by (cases "sl_ctl s")
      (auto simp: boot_next_def Let_def ctl_keeps_def park_simps cas_state_def split: prod.splits bool.splits if_splits)
  with ok show ?thesis by (rule ctl_keeps_attached [rotated])
qed

lemma set_handler_next_attached:
  assumes inv: "slot_inv e s" and ok: "attached_ok s" and next': "set_handler_next s = Some s'"
  shows "attached_ok s'"
proof (cases "\<exists>h g. sl_ctl s = C_Replace h g \<or> sl_ctl s = C_Complete h")
  case True
  then obtain h g where c: "sl_ctl s = C_Replace h g \<or> sl_ctl s = C_Complete h" by blast
  with inv have "completing_at (sl_php s)" by (auto simp: slot_inv_def php_ok_def)
  then have "\<not> on_duty (sl_php s)" by (cases "sl_php s") simp_all
  with c next' ok show ?thesis
    by (auto simp: set_handler_next_def Let_def attached_ok_def attached_names_def park_simps handler_replace_def
        split: thread_handler.splits)
next
  case False
  have through: "P r \<Longrightarrow> (\<And>c. P (q c)) \<Longrightarrow> P (fst (wait_on S q r t))" for P S q t and r :: ctl_pc
    using wait_on_goes [of S q r t] by metis
  have "ctl_keeps s s'"
  proof (cases "sl_ctl s")
    case (C_Set_Retry h)
    have "(\<lambda>c. phase_of c = Stable \<and> installing c = None) (fst (wait_on request_wait_states (C_Set_Parked h) (C_Set h) (sl_thread s)))"
      by (rule through) simp_all
    with C_Set_Retry next' show ?thesis by (auto simp: set_handler_next_def Let_def ctl_keeps_def park_simps)
  next
    case (C_Set_Wait h g)
    have "(\<lambda>c. phase_of c \<noteq> Stable \<and> installing c = None) (fst (wait_on [TransitionInProgress] (C_Set_Await h g) (C_Replace h g) (sl_thread s)))"
      by (rule through) simp_all
    with C_Set_Wait next' show ?thesis by (auto simp: set_handler_next_def Let_def ctl_keeps_def park_simps)
  qed (use False next' in \<open>auto simp: set_handler_next_def Let_def ctl_keeps_def park_simps request_state_def request_verdict_def
        close_drain_def reopen_drain_def split: prod.splits option.splits bool.splits if_splits\<close>)
  with ok show ?thesis by (rule ctl_keeps_attached [rotated])
qed

text \<open>Shutting down replaces nothing, and is over only when the pthread is gone.\<close>

lemma shutdown_keeps:
  assumes inv: "slot_inv e s" and c: "phase_of (sl_ctl s) = Stable \<or> phase_of (sl_ctl s) = Stopping \<or> phase_of (sl_ctl s) = Stopped"
    and same: "sl_php s' = sl_php s" "pt_handler (sl_thread s') = pt_handler (sl_thread s)" "sl_entries s' = sl_entries s"
      "sl_unattached s' = sl_unattached s"
    and none: "installing (sl_ctl s') = None"
  shows "ctl_keeps s s'"
proof -
  have "completing_at (sl_php s) \<Longrightarrow> phase_of (sl_ctl s) = Stable"
    using inv c by (cases "sl_php s") (auto simp: slot_inv_def php_ok_def)
  with same none show ?thesis by (auto simp: ctl_keeps_def)
qed

lemma begin_shutdown_next_attached:
  assumes inv: "slot_inv e s" and ok: "attached_ok s" and next': "begin_shutdown_next s = Some s'"
  shows "attached_ok s'"
proof -
  have through: "installing (fst (wait_on request_wait_states C_Shut_Parked C_Shut (sl_thread s))) = None"
    using wait_on_goes [of request_wait_states C_Shut_Parked C_Shut "sl_thread s"] by auto
  have "ctl_keeps s s'"
    by (rule shutdown_keeps [OF inv]; cases "sl_ctl s")
      (use next' through in \<open>auto simp: begin_shutdown_next_def Let_def park_simps request_state_def request_verdict_def cas_state_def
        close_drain_def split: prod.splits option.splits bool.splits if_splits\<close>)
  with ok show ?thesis by (rule ctl_keeps_attached [rotated])
qed

lemma shutdown_next_attached:
  assumes inv: "slot_inv e s" and ok: "attached_ok s" and next': "shutdown_next s = Some s' \<or> finish_shutdown_next s = Some s'"
  shows "attached_ok s'"
proof -
  have through: "installing (fst (wait_on [Done] q (C_Finish g) (sl_thread s))) = None" if "\<And>c. installing (q c) = None" for q g
    using that wait_on_goes [of "[Done]" q "C_Finish g" "sl_thread s"] by auto
  have "ctl_keeps s s'"
    by (rule shutdown_keeps [OF inv]; cases "sl_ctl s")
      (use next' through in \<open>auto simp: shutdown_next_def finish_shutdown_next_def Let_def park_simps reopen_drain_def split: if_splits\<close>)
  with ok show ?thesis by (rule ctl_keeps_attached [rotated])
qed

lemma attached_ctl_step: "ctl_step s s' \<Longrightarrow> slot_inv e s \<Longrightarrow> attached_ok s \<Longrightarrow> attached_ok s'"
proof (induction rule: ctl_step.induct)
  case (launched s)
  then have "pt_handler (sl_thread s) = Some Inactive_Thread"
    by (cases "sl_php s") (auto simp: slot_inv_def php_ok_def)
  then show ?case by (simp add: attached_ok_def attached_inactive)
next
  case (not_launched s)
  then have "sl_php s = P_Absent" by (simp add: slot_inv_def php_ok_def)
  then show ?case by (simp add: attached_ok_def park_simps)
next
  case (timeout s g chan)
  then have "ctl_keeps s (ctl_goto (C_Kill g, with_state (\<lambda>ts. unsubscribe ts chan) (sl_thread s)) s)"
    by (intro shutdown_keeps) (simp_all add: park_simps with_state_def)
  with timeout show ?case using ctl_keeps_attached by blast
next
  case (settled s g)
  then have "ctl_keeps s (ctl_goto (C_Finish g, sl_thread s) s)"
    by (intro shutdown_keeps) (auto simp: park_simps)
  with settled show ?case using ctl_keeps_attached by blast
next
  case (attach n s)
  then show ?case by (auto simp: attached_ok_def attached_names_def)
next
  case (start s c)
  then show ?case by (auto simp: attached_ok_def attached_names_def)
next
  case (start_set s h)
  then show ?case by (simp add: attached_ok_def attached_names_def)
qed (blast intro: boot_next_attached set_handler_next_attached begin_shutdown_next_attached shutdown_next_attached)+

lemma slot_reachable_attached: "slot_reachable e s \<Longrightarrow> attached_ok s"
proof (induction rule: slot_reachable.induct)
  case (new thread_index w)
  show ?case by (simp add: attached_ok_def slot_new_def)
next
  case (world s w)
  then show ?case by (simp add: attached_ok_def attached_names_def)
qed (auto intro: attached_php_step attached_ctl_step slot_reachable_inv)

text \<open>So the arm of the select for a channel that hung up is never taken.\<close>

lemma own_channel_stays_connected:
  assumes "slot_reachable e s" "sl_php s = P_Select n dr"
  shows "own_channel_connected n s"
proof -
  have "pt_handler (sl_thread s) = Some (Regular_Thread n)"
    using slot_reachable_inv [OF assms(1)] assms(2) by (simp add: slot_inv_def)
  with slot_reachable_attached [OF assms(1)] assms(2) show ?thesis
    by (simp add: attached_ok_def attached_names_def own_channel_connected_def)
qed

subsection \<open>Who still runs a script has been signalled\<close>

text \<open>Once the controller has sent its kill signal and waits for Done, a pthread that is in a script, or may
  still get into one, is a pthread the signal was sent to: a new one finds ShuttingDown and leaves.\<close>

fun may_run :: "php_pc \<Rightarrow> bool" where
  "may_run (P_Fetch _) = True"
| "may_run (P_Select _ _) = True"
| "may_run (P_Script _) = True"
| "may_run _ = False"

fun awaiting_done :: "ctl_pc \<Rightarrow> bool" where
  "awaiting_done (C_Done_Wait _) = True"
| "awaiting_done (C_Done_Parked _ _) = True"
| "awaiting_done _ = False"

definition signalled :: "('s, 'k) slot \<Rightarrow> bool" where
  "signalled s = (\<exists>k. pt_force_kill (sl_thread s) = Some k \<and> k \<in> set (sl_killed s))"

definition signalled_ok :: "('s, 'k) slot \<Rightarrow> bool" where
  "signalled_ok s = (awaiting_done (sl_ctl s) \<and> may_run (sl_php s) \<longrightarrow> signalled s)"

lemma php_next_may_run:
  assumes inv: "slot_inv e s" and c: "awaiting_done (sl_ctl s)" and next': "php_next now s = Some s'" and run: "may_run (sl_php s')"
  shows "may_run (sl_php s)" "pt_force_kill (sl_thread s') = pt_force_kill (sl_thread s)" "sl_killed s' = sl_killed s"
proof -
  have "phase_of (sl_ctl s) = Stopping" using c by (cases "sl_ctl s") simp_all
  then have php: "sl_php s = P_Absent \<or> (requested_at (sl_php s) \<or> leaving_at (sl_php s) \<or> e \<and> sl_php s = P_Absent) \<and>
      pt_current (sl_thread s) = ShuttingDown"
    using inv by (auto simp: slot_inv_def php_ok_def)
  have through: "\<not> may_run (fst (wait_on inactive_wait_states P_Parked_Inactive (P_Loop Inactive_Thread) t))" for t
    using wait_on_goes [of inactive_wait_states P_Parked_Inactive "P_Loop Inactive_Thread" t] by auto
  have loop: "\<not> may_run (handler_arm h ShuttingDown)" for h
    by (cases h) (simp_all add: inactive_arm_def regular_arm_def)
  show "may_run (sl_php s)" "pt_force_kill (sl_thread s') = pt_force_kill (sl_thread s)" "sl_killed s' = sl_killed s"
    using next' run php through loop
    by (cases "sl_php s"; auto simp: php_next_def Let_def park_simps ts_get_def split: if_splits option.splits)+
qed

lemma signalled_php_step:
  assumes inv: "slot_inv e s" and ok: "signalled_ok s" and step: "php_step e s s'"
  shows "signalled_ok s'"
  using step
proof (cases rule: php_stepE)
  case (run now)
  have "sl_ctl s' = sl_ctl s" using php_next_frame(1) [OF run] .
  with ok php_next_may_run [OF inv _ run] show ?thesis by (auto simp: signalled_ok_def signalled_def)
next
  case (delivered n dr ctx now)
  then show ?thesis using ok
    by (auto simp: deliver_def Let_def signalled_ok_def signalled_def park_simps publish_script_path_def split: option.splits)
next
  case (script_over n q)
  then show ?thesis by (auto simp: signalled_ok_def)
qed (auto simp: signalled_ok_def park_simps)

lemma signalled_ctl_step: "ctl_step s s' \<Longrightarrow> slot_inv e s \<Longrightarrow> signalled_ok s \<Longrightarrow> signalled_ok s'"
proof (induction rule: ctl_step.induct)
  case (shutdown s s')
  have wait: "pt_force_kill (snd (wait_on S q r t)) = pt_force_kill t" for S q t and r :: ctl_pc
    by (auto simp: wait_on_def subscribe_state_def subscribe_def split: prod.splits)
  have grace: "\<not> awaiting_done (fst (wait_on [Done] (C_Graced g) (C_Finish g) t))" for g t
    using wait_on_goes [of "[Done]" "C_Graced g" "C_Finish g" t] by auto
  show ?case
  proof (cases "sl_ctl s")
    case (C_Kill g)
    then have "may_run (sl_php s) \<Longrightarrow> pt_force_kill (sl_thread s) \<noteq> None"
      using shutdown(2) by (cases "sl_php s") (simp_all add: slot_inv_def content_ok_def)
    with C_Kill shutdown(1) show ?thesis
      by (auto simp: shutdown_next_def Let_def signalled_ok_def signalled_def park_simps send_kill_signal_def)
  next
    case (C_Done_Wait g)
    with shutdown show ?thesis
      by (auto simp: shutdown_next_def Let_def signalled_ok_def signalled_def park_simps wait)
  qed (use shutdown grace in \<open>auto simp: shutdown_next_def Let_def signalled_ok_def park_simps split: if_splits\<close>)
next
  case (boot s s')
  then have "\<not> awaiting_done (sl_ctl s')"
    using wait_on_goes [of "[Inactive]" C_Boot_Parked C_Idle "sl_thread s"]
    by (cases "sl_ctl s") (auto simp: boot_next_def Let_def park_simps split: prod.splits bool.splits if_splits)
  then show ?case by (simp add: signalled_ok_def)
next
  case (set_handler s s')
  have "\<not> awaiting_done (fst (wait_on S (C_Set_Parked h) (C_Set h) t))"
    "\<not> awaiting_done (fst (wait_on S (C_Set_Await h g) (C_Replace h g) t))" for S h g t
    using wait_on_goes [of S "C_Set_Parked h" "C_Set h" t] wait_on_goes [of S "C_Set_Await h g" "C_Replace h g" t] by auto
  with set_handler have "\<not> awaiting_done (sl_ctl s')"
    by (cases "sl_ctl s")
      (auto simp: set_handler_next_def Let_def park_simps request_verdict_def split: prod.splits option.splits bool.splits if_splits)
  then show ?case by (simp add: signalled_ok_def)
next
  case (begin_shutdown s s')
  then have "\<not> awaiting_done (sl_ctl s')"
    using wait_on_goes [of request_wait_states C_Shut_Parked C_Shut "sl_thread s"]
    by (cases "sl_ctl s")
      (auto simp: begin_shutdown_next_def Let_def park_simps request_verdict_def split: prod.splits option.splits bool.splits if_splits)
  then show ?case by (simp add: signalled_ok_def)
next
  case (finish s s')
  then have "\<not> awaiting_done (sl_ctl s')"
    by (cases "sl_ctl s") (auto simp: finish_shutdown_next_def Let_def park_simps)
  then show ?case by (simp add: signalled_ok_def)
qed (auto simp: signalled_ok_def signalled_def park_simps)

lemma slot_reachable_signalled: "slot_reachable e s \<Longrightarrow> signalled_ok s"
proof (induction rule: slot_reachable.induct)
  case (world s w)
  then show ?case by (simp add: signalled_ok_def signalled_def)
next
  case (new thread_index w)
  show ?case by (simp add: signalled_ok_def slot_new_def)
qed (auto intro: signalled_php_step signalled_ctl_step slot_reachable_inv)

end
