(* ===== verification/Runs.thy ===== *)
theory Runs
  imports Main
begin

section \<open>Executing a sequence of moves\<close>

text \<open>
  The interface between a step function and what is proved about its runs. A model gives the step
  function \<open>exec\<close>, which answers None for a move that is not possible; \<open>run_all\<close> executes a list of moves.
  \<open>kept_runs\<close> is the contract of an invariant: every allowed move keeps it. \<open>bounded_runs\<close> adds a rank that
  every move lowers, and \<open>finishing_runs\<close> that some move of the program's own is possible until
  the run has finished. The slot protocol, the pool, the dispatch, the whole system and the accept loop
  interpret them on their own steps.
\<close>

fun run_all :: "('m \<Rightarrow> 's \<Rightarrow> 's option) \<Rightarrow> 'm list \<Rightarrow> 's \<Rightarrow> 's option" where
  "run_all exec [] s = Some s"
| "run_all exec (m # ms) s = (case exec m s of None \<Rightarrow> None | Some s' \<Rightarrow> run_all exec ms s')"

lemma run_all_Cons:
  "run_all exec (m # ms) s = Some s' \<longleftrightarrow> (\<exists>t. exec m s = Some t \<and> run_all exec ms t = Some s')"
  by (auto split: option.splits)

lemma run_all_append: "run_all exec (ms @ ns) s = Option.bind (run_all exec ms s) (run_all exec ns)"
  by (induction ms arbitrary: s) (auto split: option.splits)

lemma list_all_True [simp]: "list_all (\<lambda>_. True) xs"
  by (simp add: list_all_iff)

locale kept_runs =
  fixes exec :: "'m \<Rightarrow> 's \<Rightarrow> 's option"
    and allowed :: "'m \<Rightarrow> bool"
    and kept :: "'s \<Rightarrow> bool"
  assumes exec_kept: "kept s \<Longrightarrow> allowed m \<Longrightarrow> exec m s = Some s' \<Longrightarrow> kept s'"
begin

lemma run_kept: "kept s \<Longrightarrow> list_all allowed ms \<Longrightarrow> run_all exec ms s = Some s' \<Longrightarrow> kept s'"
proof (induction ms arbitrary: s)
  case (Cons m ms)
  then obtain t where "exec m s = Some t" "run_all exec ms t = Some s'" by (auto simp: run_all_Cons simp del: run_all.simps)
  with Cons.prems Cons.IH [of t] exec_kept show ?case by auto
qed simp

end

locale bounded_runs = kept_runs +
  fixes rank :: "'s \<Rightarrow> nat"
  assumes exec_rank: "kept s \<Longrightarrow> allowed m \<Longrightarrow> exec m s = Some s' \<Longrightarrow> rank s' < rank s"
begin

lemma run_bounded:
  "kept s \<Longrightarrow> list_all allowed ms \<Longrightarrow> run_all exec ms s = Some s' \<Longrightarrow> length ms + rank s' \<le> rank s"
proof (induction ms arbitrary: s)
  case (Cons m ms)
  then obtain t where t: "exec m s = Some t" "run_all exec ms t = Some s'" by (auto simp: run_all_Cons simp del: run_all.simps)
  with Cons.prems have "length ms + rank s' \<le> rank t" "rank t < rank s"
    using Cons.IH [of t] exec_kept exec_rank by auto
  then show ?case by simp
qed simp

end

locale finishing_runs = bounded_runs +
  fixes own :: "'m set"
    and finished :: "'s \<Rightarrow> bool"
  assumes own_allowed: "m \<in> own \<Longrightarrow> allowed m"
    and progress: "kept s \<Longrightarrow> \<not> finished s \<Longrightarrow> \<exists>m \<in> own. exec m s \<noteq> None"
begin

lemma stuck_finished: "kept s \<Longrightarrow> (\<And>m. exec m s = None) \<Longrightarrow> finished s"
  using progress by fastforce

lemma run_finishes: "kept s \<Longrightarrow> \<exists>ms s'. set ms \<subseteq> own \<and> run_all exec ms s = Some s' \<and> finished s'"
proof (induction "rank s" arbitrary: s rule: less_induct)
  case less
  show ?case
  proof (cases "finished s")
    case True
    then show ?thesis by (intro exI [of _ "[]"] exI [of _ s]) simp
  next
    case False
    with progress less.prems obtain m t where m: "m \<in> own" "exec m s = Some t" by blast
    with less own_allowed exec_kept exec_rank obtain ms s' where
      "set ms \<subseteq> own" "run_all exec ms t = Some s'" "finished s'" by metis
    with m show ?thesis by (intro exI [of _ "m # ms"] exI [of _ s']) simp
  qed
qed

end

end
