(* ===== verification/SlotProperties.thy ===== *)
theory SlotProperties
  imports SlotDuty Runs
begin

section \<open>What the slot protocol guarantees\<close>

text \<open>
  Safety of the handler swap, of retiring a pthread and of the kill signal, progress of the
  handshakes, and the deadlock that a request with an empty script filename leads to. The
  witnesses run the protocol: \<open>schedule\<close> executes one chosen step.
\<close>

subsection \<open>Executing the protocol\<close>

datatype ('s, 'k) choice =
    Php | Ctl | Start ctl_pc | Launched | Delivered "('s, 'k) request_context" | Drained | Script_Done
  | Attach nat

definition ctl_next :: "('s, 'k) slot \<Rightarrow> ('s, 'k) slot option" where
  "ctl_next s =
     (case boot_next s of Some s' \<Rightarrow> Some s' | None \<Rightarrow>
      case set_handler_next s of Some s' \<Rightarrow> Some s' | None \<Rightarrow>
      case begin_shutdown_next s of Some s' \<Rightarrow> Some s' | None \<Rightarrow>
      case shutdown_next s of Some s' \<Rightarrow> Some s' | None \<Rightarrow> finish_shutdown_next s)"

fun schedule :: "('s, 'k) choice \<Rightarrow> ('s, 'k) slot \<Rightarrow> ('s, 'k) slot option" where
  "schedule Php s = php_next 0 s"
| "schedule Ctl s = ctl_next s"
| "schedule (Start c) s =
     (if sl_ctl s = C_Idle \<and> (case c of C_Set h \<Rightarrow> True | _ \<Rightarrow> c \<in> {C_Claim, C_Boot, C_Shut})
      then Some (s\<lparr>sl_ctl := c\<rparr>) else None)"
| "schedule Launched s =
     (if sl_ctl s = C_Launch then Some (s\<lparr>sl_ctl := C_Boot_Wait, sl_php := P_Start\<rparr>) else None)"
| "schedule (Delivered ctx) s =
     (case sl_php s of P_Select n dr \<Rightarrow> Some (deliver ctx 0 n s) | _ \<Rightarrow> None)"
| "schedule Drained s =
     (case sl_php s of
        P_Select n dr \<Rightarrow>
          (if drain_disconnected (pt_drain (sl_thread s)) (dr_receiver dr)
           then Some (php_goto (P_Loop (Regular_Thread n), mark_waiting False 0 (sl_thread s)) s) else None)
      | _ \<Rightarrow> None)"
| "schedule Script_Done s =
     (case sl_php s of P_Script n \<Rightarrow> Some ((after_script s)\<lparr>sl_php := P_Enter\<rparr>) | _ \<Rightarrow> None)"
| "schedule (Attach n) s =
     (if n \<in> set (sl_unattached s)
      then Some (s\<lparr>sl_entries := sl_entries s @ [n], sl_unattached := remove1 n (sl_unattached s)\<rparr>)
      else None)"

fun choice_ok :: "bool \<Rightarrow> ('s, 'k) choice \<Rightarrow> bool" where
  "choice_ok e (Delivered ctx) = (e \<or> ctx_script_filename ctx \<noteq> [])"
| "choice_ok e _ = True"

lemma ctl_next_step: "ctl_next s = Some s' \<Longrightarrow> ctl_step s s'"
  by (auto simp: ctl_next_def intro: ctl_step.intros split: option.splits)

lemma schedule_reachable:
  assumes "slot_reachable e s" "choice_ok e c" "schedule c s = Some s'"
  shows "slot_reachable e s'"
proof (cases c)
  case Php
  with assms show ?thesis by (auto intro: slot_reachable.php php_run)
next
  case Ctl
  with assms show ?thesis by (auto intro: slot_reachable.ctl ctl_next_step)
next
  case (Start d)
  with assms have "ctl_step s s'"
    by (cases d) (auto intro: ctl_step.start ctl_step.start_set split: if_splits)
  with assms show ?thesis by (auto intro: slot_reachable.ctl)
next
  case Launched
  with assms show ?thesis by (auto intro: slot_reachable.ctl ctl_step.launched split: if_splits)
next
  case (Delivered ctx)
  with assms have "php_step e s s'" by (auto intro: php_step.delivered split: php_pc.splits)
  with assms show ?thesis by (auto intro: slot_reachable.php)
next
  case Drained
  with assms have "php_step e s s'" by (auto intro: php_step.own php_own.drained split: php_pc.splits if_splits)
  with assms show ?thesis by (auto intro: slot_reachable.php)
next
  case (Attach n)
  with assms show ?thesis by (auto intro: slot_reachable.ctl ctl_step.attach split: if_splits)
next
  case Script_Done
  with assms have "php_step e s s'" by (auto intro: php_step.script_end split: php_pc.splits)
  with assms show ?thesis by (auto intro: slot_reachable.php)
qed

interpretation slot_runs: kept_runs schedule "choice_ok e" "slot_reachable e" for e
  by unfold_locales (rule schedule_reachable)

text \<open>Booting, then installing a regular handler, up to the swap and to its end.\<close>

definition boot_choices :: "('s, 'k) choice list" where
  "boot_choices = [Start C_Boot, Ctl, Ctl, Launched, Ctl, Php, Php, Php, Php, Php, Ctl]"

definition swap_choices :: "thread_handler \<Rightarrow> ('s, 'k) choice list" where
  "swap_choices h = [Start (C_Set h), Ctl, Ctl, Ctl, Php, Php, Php, Ctl]"

definition ready_choices :: "nat \<Rightarrow> ('s, 'k) choice list" where
  "ready_choices n = boot_choices @ swap_choices (Regular_Thread n) @
     [Php, Ctl, Ctl, Ctl, Php, Php, Php, Php, Php, Php]"

lemma choices_ok:
  "list_all (choice_ok e) boot_choices"
  "list_all (choice_ok e) (boot_choices @ swap_choices h)"
  "list_all (choice_ok e) (ready_choices n)"
  by (simp_all add: boot_choices_def swap_choices_def ready_choices_def)

definition quiet_host :: host where
  "quiet_host = \<lparr>host_flags = (\<lambda>_. False), host_released = []\<rparr>"

text \<open>What is observed of the slot after a schedule.\<close>

definition observed ::
  "('s, 'k) choice list \<Rightarrow> (php_pc \<times> ctl_pc \<times> state \<times> nat list) option"
where
  "observed cs = map_option (\<lambda>s. (sl_php s, sl_ctl s, pt_current (sl_thread s), send_kill_signal (sl_thread s)))
     (run_all schedule cs (slot_new 0 quiet_host))"

lemma observed_reachable:
  assumes "observed cs = Some (p, c, st, ks)" "list_all (choice_ok e) cs"
  obtains s where "slot_reachable e s" "sl_php s = p" "sl_ctl s = c" "pt_current (sl_thread s) = st"
    "send_kill_signal (sl_thread s) = ks" "run_all schedule cs (slot_new 0 quiet_host) = Some s"
proof -
  from assms(1) obtain s where s: "run_all schedule cs (slot_new 0 quiet_host) = Some s" "sl_php s = p"
    "sl_ctl s = c" "pt_current (sl_thread s) = st" "send_kill_signal (sl_thread s) = ks"
    by (auto simp: observed_def)
  from that [OF slot_runs.run_kept [OF slot_reachable.new assms(2) s(1)] s(2-5) s(1)] show thesis .
qed

subsection \<open>The handler swap\<close>

text \<open>C2. A handler is replaced only while the PHP pthread cannot read it. In every reachable state in
  which the controller is about to replace the handler, reopen the drain or publish
  TransitionComplete, the pthread is inside the wait for TransitionComplete, the state is still
  TransitionInProgress, and if it has parked its channel is connected, so that it stays there.\<close>

theorem handler_swap_exclusive:
  assumes "slot_reachable e s"
    and "sl_ctl s = C_Replace h g \<or> sl_ctl s = C_Reopen h g \<or> sl_ctl s = C_Complete h"
  shows "pt_current (sl_thread s) = TransitionInProgress \<and>
    (case sl_php s of
       P_Wait_Complete \<Rightarrow> True
     | P_Parked_Complete chan \<Rightarrow> \<not> disconnected (pt_state (sl_thread s)) chan \<and> php_next now s = None
     | _ \<Rightarrow> False)"
proof -
  have inv: "slot_inv e s" using slot_reachable_inv [OF assms(1)] .
  then have c: "completing_at (sl_php s)" "pt_current (sl_thread s) = TransitionInProgress"
    using assms(2) by (auto simp: slot_inv_def php_ok_def)
  show ?thesis
  proof (cases "sl_php s")
    case (P_Parked_Complete chan)
    with inv have "parked (sl_thread s) chan [TransitionComplete]" by (simp add: slot_inv_def)
    with inv c have "\<not> disconnected (pt_state (sl_thread s)) chan" by (simp add: ctl_wake)
    with c P_Parked_Complete show ?thesis by (simp add: php_next_def Let_def)
  qed (use c in auto)
qed

text \<open>A booted slot, given a regular handler.\<close>

lemma observed_swap:
  "observed (boot_choices @ swap_choices (Regular_Thread 7)) =
     Some (P_Wait_Complete, C_Replace (Regular_Thread 7) 1, TransitionInProgress, [3])"
  by code_simp

theorem handler_swap_exclusive_witness:
  "\<exists>s :: (unit, unit) slot. slot_reachable False s \<and> sl_ctl s = C_Replace (Regular_Thread 7) 1 \<and>
     pt_current (sl_thread s) = TransitionInProgress"
proof -
  obtain s :: "(unit, unit) slot" where s: "slot_reachable False s" "sl_ctl s = C_Replace (Regular_Thread 7) 1"
    by (rule observed_reachable [OF observed_swap choices_ok(2)])
  with handler_swap_exclusive [OF s(1) disjI1 [OF s(2)], of 0] show ?thesis by blast
qed

subsection \<open>No unexpected state, no missing generation\<close>

text \<open>C17. The diagnostics of the thread code are unreachable. In every reachable state neither loop has
  read a state it does not own, no reboot state has been read, no controller has found the drain
  generation closed, a handler's loop runs on the handler that is installed, and the drain channel
  is open exactly when the controller is not between its close and its reopen.\<close>

theorem slot_diagnostics_unreachable:
  assumes "slot_reachable e s"
  shows "(case sl_php s of
       P_Odd h \<Rightarrow> False | P_Parked_Odd h chan \<Rightarrow> False | P_Revive h \<Rightarrow> False
     | P_Loop h \<Rightarrow> pt_handler (sl_thread s) = Some h
     | P_Select n dr \<Rightarrow> pt_handler (sl_thread s) = Some (Regular_Thread n) \<and>
                        dr = drain_get_receiver (pt_drain (sl_thread s))
     | _ \<Rightarrow> True) \<and>
    sl_ctl s \<noteq> C_Diagnostic \<and>
    (dg_sender (pt_drain (sl_thread s)) = None) = (closed_generation (sl_ctl s) \<noteq> None)"
proof -
  have inv: "slot_inv e s" using slot_reachable_inv [OF assms] .
  then have "php_ok e (sl_ctl s) (sl_php s) (pt_current (sl_thread s))"
    "drain_ok (sl_ctl s) (pt_drain (sl_thread s))" by (simp_all add: slot_inv_def)
  then have "sl_ctl s \<noteq> C_Diagnostic"
    "(dg_sender (pt_drain (sl_thread s)) = None) = (closed_generation (sl_ctl s) \<noteq> None)"
    by (auto simp: php_ok_def drain_ok_def split: option.splits)
  moreover have "case sl_php s of
       P_Odd h \<Rightarrow> False | P_Parked_Odd h chan \<Rightarrow> False | P_Revive h \<Rightarrow> False
     | P_Loop h \<Rightarrow> pt_handler (sl_thread s) = Some h
     | P_Select n dr \<Rightarrow> pt_handler (sl_thread s) = Some (Regular_Thread n) \<and>
                        dr = drain_get_receiver (pt_drain (sl_thread s))
     | _ \<Rightarrow> True"
    using inv php_ok_next(17-19) [of e "sl_ctl s"] by (cases "sl_php s") (auto simp: slot_inv_def)
  ultimately show ?thesis by blast
qed

lemma observed_ready:
  "observed (ready_choices 7) =
     Some (P_Select 7 \<lparr>dr_generation = 2, dr_receiver = 7\<rparr>, C_Idle, Ready, [3])"
  by code_simp

theorem slot_diagnostics_unreachable_witness:
  "\<exists>s :: (unit, unit) slot. slot_reachable False s \<and>
     sl_php s = P_Select 7 \<lparr>dr_generation = 2, dr_receiver = 7\<rparr> \<and>
     drain_get_receiver (pt_drain (sl_thread s)) = \<lparr>dr_generation = 2, dr_receiver = 7\<rparr> \<and>
     pt_handler (sl_thread s) = Some (Regular_Thread 7)"
proof -
  obtain s :: "(unit, unit) slot" where
    s: "slot_reachable False s" "sl_php s = P_Select 7 \<lparr>dr_generation = 2, dr_receiver = 7\<rparr>"
    by (rule observed_reachable [OF observed_ready choices_ok(3)])
  with slot_diagnostics_unreachable [OF s(1)] show ?thesis by (intro exI [of _ s]) simp
qed

subsection \<open>Retiring a pthread\<close>

text \<open>C14. A slot in Reserved has no pthread and keeps nothing of one. Whenever a reachable slot is in the
  state Reserved, or its controller has seen Done and is about to publish Reserved, the pthread has
  gone through its last callback or was never created, no force-kill slot and no script path is left,
  and no request context is, provided no context with an empty script filename was ever dispatched and C
  could create anew every pthread whose script bailed out.\<close>

theorem reserved_slot_retired:
  assumes "slot_reachable e s"
    and "pt_current (sl_thread s) = Reserved \<or> sl_ctl s = C_Finish g \<or> sl_ctl s = C_Reserve"
  shows "sl_php s = P_Absent \<and> pt_force_kill (sl_thread s) = None \<and>
    pt_script_path (sl_thread s) = None \<and> (e \<or> sl_context s = None)"
proof -
  have inv: "slot_inv e s" using slot_reachable_inv [OF assms(1)] .
  then have php: "php_ok e (sl_ctl s) (sl_php s) (pt_current (sl_thread s))" by (simp add: slot_inv_def)
  have "sl_php s = P_Absent"
  proof (cases "phase_of (sl_ctl s)")
    case Stable
    with php assms(2) have "stable_at e (sl_ctl s) (sl_php s) Reserved" by (auto simp: php_ok_def)
    then show ?thesis by (cases "(e, sl_ctl s, sl_php s, Reserved)" rule: stable_at.cases) auto
  next
    case Boot_Wait
    with php assms(2) have "booting_at (sl_php s) Reserved" by (auto simp: php_ok_def)
    then show ?thesis by (cases "(sl_php s, Reserved)" rule: booting_at.cases) auto
  qed (use php assms(2) in \<open>auto simp: php_ok_def\<close>)
  with inv show ?thesis by (simp add: slot_inv_def content_ok_def)
qed

text \<open>A regular thread shut down in its wait.\<close>

definition shut_choices :: "('s, 'k) choice list" where
  "shut_choices = ready_choices 7 @ [Start C_Shut, Ctl, Ctl, Ctl, Drained, Php, Php, Php, Php, Php, Ctl]"

lemma observed_shut:
  "observed shut_choices = Some (P_Absent, C_Finish 2, Done, [])"
  by code_simp

theorem reserved_slot_retired_witness:
  "\<exists>s :: (unit, unit) slot. slot_reachable False s \<and> sl_ctl s = C_Finish 2 \<and> sl_php s = P_Absent \<and>
     sl_context s = None"
proof -
  have ok: "list_all (choice_ok False) shut_choices"
    by (simp add: shut_choices_def choices_ok)
  obtain s :: "(unit, unit) slot" where s: "slot_reachable False s" "sl_ctl s = C_Finish 2"
    by (rule observed_reachable [OF observed_shut ok])
  with reserved_slot_retired [OF s(1) disjI2 [OF disjI1 [OF s(2)]]] show ?thesis by auto
qed

text \<open>C22. A kill signal is sent exactly to a pthread whose TSRM storage is live. In every reachable state
  sending it hands C one slot if the pthread is between its store and its clear callback and
  nothing otherwise, so that C never dereferences freed storage.\<close>

theorem kill_signal_only_live:
  assumes "slot_reachable e s"
  shows "send_kill_signal (sl_thread s) =
     (if storage_live (sl_php s) then [the (pt_force_kill (sl_thread s))] else [])"
  using slot_reachable_inv [OF assms] by (auto simp: slot_inv_def content_ok_def send_kill_signal_def)

theorem kill_signal_only_live_witness:
  "\<exists>s :: (unit, unit) slot. slot_reachable False s \<and> storage_live (sl_php s) \<and>
     send_kill_signal (sl_thread s) = [the (pt_force_kill (sl_thread s))]"
proof -
  obtain s :: "(unit, unit) slot" where
    s: "slot_reachable False s" "sl_php s = P_Select 7 \<lparr>dr_generation = 2, dr_receiver = 7\<rparr>"
    by (rule observed_reachable [OF observed_ready choices_ok(3)])
  with kill_signal_only_live [OF s(1)] show ?thesis by (intro exI [of _ s]) simp
qed

text \<open>C18. A request is owned by the thread exactly while its script runs. If no context with an empty
  script filename is dispatched and C can create anew a pthread whose script bailed out, a reachable slot holds a context if and only if the pthread is
  inside a script, and then C borrows that context's script filename, NUL-terminated.\<close>

theorem context_while_scripting:
  assumes "slot_reachable False s"
  shows "(sl_context s \<noteq> None) = in_script (sl_php s) \<and>
    pt_script_path (sl_thread s) = map_option (\<lambda>ctx. ctx_script_filename ctx @ [CHR 0x00]) (sl_context s)"
proof -
  have "content_ok False (sl_php s) (sl_thread s) (sl_context s)"
    using slot_reachable_inv [OF assms] by (simp add: slot_inv_def)
  then show ?thesis
    by (cases "in_script (sl_php s)") (auto simp: content_ok_def script_path_new_def split: if_splits)
qed

definition ctx_for :: "bytes \<Rightarrow> (unit, unit) request_context" where
  "ctx_for path = (context_new ''/srv'' None None signal_none)\<lparr>ctx_script_filename := path\<rparr>"

lemma observed_script:
  "observed (ready_choices 7 @ [Delivered (ctx_for ''/srv/a.php'')]) = Some (P_Script 7, C_Idle, Ready, [3])"
  by code_simp

theorem context_while_scripting_witness:
  "\<exists>s :: (unit, unit) slot. slot_reachable False s \<and> sl_php s = P_Script 7 \<and> sl_context s \<noteq> None \<and>
     pt_script_path (sl_thread s) = map_option (\<lambda>ctx. ctx_script_filename ctx @ [CHR 0x00]) (sl_context s)"
proof -
  have ok: "list_all (choice_ok False) (ready_choices 7 @ [Delivered (ctx_for ''/srv/a.php'')])"
    by (simp add: choices_ok ctx_for_def)
  obtain s :: "(unit, unit) slot" where s: "slot_reachable False s" "sl_php s = P_Script 7"
    by (rule observed_reachable [OF observed_script ok])
  with context_while_scripting [OF s(1)] show ?thesis by (intro exI [of _ s]) simp
qed

subsection \<open>The handshakes complete\<close>

text \<open>How many steps the pthread may still take before it answers a request to change or to stop.\<close>

fun handover_rank :: "php_pc \<Rightarrow> nat" where
  "handover_rank (P_Fetch _) = 11"
| "handover_rank (P_Select _ _) = 10"
| "handover_rank (P_Script _) = 9"
| "handover_rank P_Unhealthy = 8"
| "handover_rank P_Start = 7"
| "handover_rank P_Wait_Inactive = 7"
| "handover_rank P_Enter = 6"
| "handover_rank (P_Parked_Inactive _) = 6"
| "handover_rank (P_Loop _) = 5"
| "handover_rank P_Detach_Leave = 4"
| "handover_rank P_Leave = 3"
| "handover_rank P_Freed = 2"
| "handover_rank P_Detach_Transition = 2"
| "handover_rank P_Transition = 1"
| "handover_rank (P_Exit _) = 1"
| "handover_rank _ = 0"

lemma php_step_deterministic:
  "php_step False s s' \<Longrightarrow> (\<nexists>n dr. sl_php s = P_Select n dr) \<Longrightarrow> (\<nexists>n. sl_php s = P_Script n) \<Longrightarrow>
    \<exists>now. php_next now s = Some s'"
  by (auto elim: php_stepE)

lemma deliver_rank: "handover_rank (sl_php (deliver ctx now n s)) < 10"
  by (auto simp: deliver_def Let_def park_simps split: option.splits)

lemma loop_arm_rank:
  "st = TransitionRequested \<or> st = ShuttingDown \<Longrightarrow> handover_rank (handler_arm h st) < 5"
  by (cases h) (auto simp: inactive_arm_def regular_arm_def)

lemma handover_rank_decreases:
  assumes step: "php_step e s s'"
    and st: "pt_current (sl_thread s) = TransitionRequested \<or> pt_current (sl_thread s) = ShuttingDown"
    and p: "requested_at (sl_php s) \<or> leaving_at (sl_php s) \<or> changing_at (sl_php s)"
    and h: "sl_php s = P_Enter \<Longrightarrow> pt_handler (sl_thread s) \<noteq> None"
  shows "handover_rank (sl_php s') < handover_rank (sl_php s)"
proof (cases "sl_php s")
  case (P_Select n dr)
  with step show ?thesis
    by (auto elim!: php_stepE simp: php_next_def Let_def park_simps deliver_rank)
next
  case (P_Script n)
  with step show ?thesis by (auto elim!: php_stepE simp: php_next_def Let_def)
next
  case (P_Loop h')
  with step st loop_arm_rank [OF st, of h'] show ?thesis
    by (auto elim!: php_stepE simp: php_next_def Let_def park_simps ts_get_def)
next
  case P_Wait_Inactive
  with step obtain now where "s' = php_goto (wait_on inactive_wait_states P_Parked_Inactive
      (P_Loop Inactive_Thread) (mark_waiting True now (sl_thread s))) s"
    by (auto elim!: php_stepE simp: php_next_def Let_def)
  with P_Wait_Inactive wait_on_goes [of inactive_wait_states P_Parked_Inactive "P_Loop Inactive_Thread"
      "mark_waiting True now (sl_thread s)"] show ?thesis
    by (auto simp: park_simps)
next
  case P_Enter
  with h step show ?thesis by (auto elim!: php_stepE simp: php_next_def Let_def park_simps)
qed (use step p in \<open>auto elim!: php_stepE simp: php_next_def Let_def park_simps split: if_splits\<close>)

lemma handover_enabled:
  assumes inv: "slot_inv e s" and closed: "closed_generation (sl_ctl s) \<noteq> None"
    and st: "pt_current (sl_thread s) = TransitionRequested \<or> pt_current (sl_thread s) = ShuttingDown"
    and p: "requested_at (sl_php s) \<or> leaving_at (sl_php s) \<or> changing_at (sl_php s)"
  shows "in_script (sl_php s) \<or> (\<exists>s'. php_own s s')"
proof (cases "sl_php s")
  case (P_Select n dr)
  have "dg_sender (pt_drain (sl_thread s)) = None"
    using inv closed by (auto simp: slot_inv_def drain_ok_def split: option.splits)
  then have "\<exists>s'. php_own s s'" using php_own.drained [OF P_Select] by (simp add: drain_disconnected_def) blast
  then show ?thesis by blast
next
  case (P_Parked_Inactive chan)
  with inv have "parked (sl_thread s) chan inactive_wait_states" by (simp add: slot_inv_def)
  with inv st have "disconnected (pt_state (sl_thread s)) chan"
    by (auto simp: ctl_wake inactive_wait_states_def)
  with P_Parked_Inactive have "php_next 0 s \<noteq> None" by (simp add: php_next_def Let_def)
  then show ?thesis by (auto intro: php_own.run)
qed (use p in \<open>auto intro!: php_own.run simp: php_next_def Let_def\<close>)

text \<open>C3. The handshakes wait for the pthread's own steps, and for a script at most. While the controller of a reachable
  slot waits with the drain generation closed, the state is one of four. In TransitionInProgress and Done a
  controller parked on the answer is released. In TransitionRequested and ShuttingDown the pthread is
  inside a script, whose end nothing bounds, or it has a step of its own to take, be it parked in a
  wait or in its select, which the closed drain wakes; and whatever it does, an arriving request and the end of
  a script included, brings it strictly closer to answering, with at most eleven steps left. This is
  for slots to which no context with an empty script filename is dispatched and whose pthread C can
  create anew after a bailout.\<close>

theorem handshake_progress:
  assumes "slot_reachable False s" "closed_generation (sl_ctl s) \<noteq> None"
  shows "(if pt_current (sl_thread s) \<in> {TransitionInProgress, Done}
     then (case sl_ctl s of
             C_Set_Await h g chan \<Rightarrow> disconnected (pt_state (sl_thread s)) chan
           | C_Graced g chan \<Rightarrow> disconnected (pt_state (sl_thread s)) chan
           | C_Done_Parked g chan \<Rightarrow> disconnected (pt_state (sl_thread s)) chan
           | _ \<Rightarrow> True)
     else pt_current (sl_thread s) \<in> {TransitionRequested, ShuttingDown} \<and>
          (in_script (sl_php s) \<or> (\<exists>s'. php_own s s')) \<and>
          (\<forall>s'. php_step False s s' \<longrightarrow> handover_rank (sl_php s') < handover_rank (sl_php s)) \<and>
          handover_rank (sl_php s) \<le> 11)"
proof -
  have inv: "slot_inv False s" using slot_reachable_inv [OF assms(1)] .
  then have php: "php_ok False (sl_ctl s) (sl_php s) (pt_current (sl_thread s))"
    and hnd: "handler_ok (sl_ctl s) (sl_php s) (pt_handler (sl_thread s))"
    and wait: "ctl_wait_ok (sl_ctl s) (sl_thread s)"
    by (simp_all add: slot_inv_def)
  have ph: "phase_of (sl_ctl s) = Handover \<or> phase_of (sl_ctl s) = Replacing \<or>
      phase_of (sl_ctl s) = Stopping \<or> phase_of (sl_ctl s) = Stopped"
    using assms(2) by (cases "sl_ctl s") auto
  show ?thesis
  proof (cases "pt_current (sl_thread s) \<in> {TransitionInProgress, Done}")
    case True
    have "case sl_ctl s of
             C_Set_Await h g chan \<Rightarrow> disconnected (pt_state (sl_thread s)) chan
           | C_Graced g chan \<Rightarrow> disconnected (pt_state (sl_thread s)) chan
           | C_Done_Parked g chan \<Rightarrow> disconnected (pt_state (sl_thread s)) chan
           | _ \<Rightarrow> True"
      using True php wait by (cases "sl_ctl s") (auto simp: php_ok_def ctl_wake [OF inv])
    with True show ?thesis by simp
  next
    case False
    have st: "pt_current (sl_thread s) = TransitionRequested \<or> pt_current (sl_thread s) = ShuttingDown"
      and p: "requested_at (sl_php s) \<or> leaving_at (sl_php s) \<or> changing_at (sl_php s)"
      using ph php False by (auto simp: php_ok_def)
    have h: "sl_php s = P_Enter \<Longrightarrow> pt_handler (sl_thread s) \<noteq> None"
      using hnd by (auto split: if_splits)
    have "handover_rank (sl_php s) \<le> 11" by (cases "sl_php s") auto
    with False st handover_enabled [OF inv assms(2) st p] handover_rank_decreases [OF _ st p h]
    show ?thesis by auto
  qed
qed

lemma observed_closing:
  "observed (ready_choices 7 @ [Start C_Shut, Ctl, Ctl, Ctl]) =
     Some (P_Select 7 \<lparr>dr_generation = 2, dr_receiver = 7\<rparr>, C_Graced 2 8, ShuttingDown, [3])"
  by code_simp

theorem handshake_progress_witness:
  "\<exists>s :: (unit, unit) slot. slot_reachable False s \<and> pt_current (sl_thread s) = ShuttingDown \<and>
     sl_ctl s = C_Graced 2 8 \<and> sl_php s = P_Select 7 \<lparr>dr_generation = 2, dr_receiver = 7\<rparr> \<and>
     (\<exists>s'. php_own s s' \<and> handover_rank (sl_php s') < 10)"
proof -
  have ok: "list_all (choice_ok False) (ready_choices 7 @ [Start C_Shut, Ctl, Ctl, Ctl])"
    by (simp add: choices_ok)
  obtain s :: "(unit, unit) slot" where
    s: "slot_reachable False s" "sl_php s = P_Select 7 \<lparr>dr_generation = 2, dr_receiver = 7\<rparr>"
    "sl_ctl s = C_Graced 2 8" "pt_current (sl_thread s) = ShuttingDown"
    by (rule observed_reachable [OF observed_closing ok])
  with handshake_progress [OF s(1)] have "\<exists>s'. php_own s s'"
    "\<And>s'. php_step False s s' \<Longrightarrow> handover_rank (sl_php s') < 10" by auto
  with s php_step.own show ?thesis by (intro exI [of _ s]) blast
qed

subsection \<open>A request without a script filename\<close>

definition stranding_choices :: "(unit, unit) choice list" where
  "stranding_choices = ready_choices 7 @
     [Attach 7, Start (C_Set Inactive_Thread), Ctl, Ctl, Ctl, Delivered (ctx_for []), Php, Php, Php]"

lemma stranding:
  "map_option (\<lambda>s. (sl_php s, sl_ctl s, pt_current (sl_thread s), sl_unattached s,
      map_option ctx_is_done (sl_context s), map_option ctx_script_filename (sl_context s)))
     (run_all schedule stranding_choices (slot_new 0 quiet_host)) =
   Some (P_Absent, C_Set_Await Inactive_Thread 2 8, Done, [], Some False, Some [])"
  by code_simp

inductive_cases ctl_stepE: "ctl_step s s'"

lemma await_stuck:
  assumes "sl_ctl s = C_Set_Await h g chan" "\<not> disconnected (pt_state (sl_thread s)) chan"
    "sl_unattached s = []"
  shows "\<not> ctl_step s s'"
  using assms by (auto elim!: ctl_stepE simp: boot_next_def set_handler_next_def begin_shutdown_next_def
      shutdown_next_def finish_shutdown_next_def Let_def)

lemma absent_stuck: "sl_php s = P_Absent \<Longrightarrow> \<not> php_step e s s'"
  by (auto elim!: php_stepE simp: php_next_def Let_def)

text \<open>C21. A context whose script filename is empty wedges the slot and, with it, whoever needs the scaling
  lock. There is a reachable state in which the handler has taken the request and returned no path,
  the pthread has exited, the request's context is still installed and not completed, and the
  controller, which had asked for a handler change in the meantime, waits for an answer that
  cannot come: neither side has a step left.\<close>

theorem empty_script_filename_wedges:
  "\<exists>s :: (unit, unit) slot. slot_reachable True s \<and> sl_php s = P_Absent \<and>
     pt_current (sl_thread s) = Done \<and> sl_ctl s = C_Set_Await Inactive_Thread 2 8 \<and>
     map_option ctx_script_filename (sl_context s) = Some [] \<and>
     map_option ctx_is_done (sl_context s) = Some False \<and>
     {s'. php_step True s s'} = {} \<and> {s'. ctl_step s s'} = {}"
proof -
  obtain s :: "(unit, unit) slot" where s: "run_all schedule stranding_choices (slot_new 0 quiet_host) = Some s"
    "sl_php s = P_Absent" "sl_ctl s = C_Set_Await Inactive_Thread 2 8" "pt_current (sl_thread s) = Done"
    "sl_unattached s = []" "map_option ctx_is_done (sl_context s) = Some False"
    "map_option ctx_script_filename (sl_context s) = Some []"
    using stranding by auto
  have "list_all (choice_ok True) stranding_choices"
    by (simp add: stranding_choices_def choices_ok)
  then have r: "slot_reachable True s" by (rule slot_runs.run_kept [OF slot_reachable.new _ s(1)])
  then have inv: "slot_inv True s" by (rule slot_reachable_inv)
  then have "parked (sl_thread s) 8 [TransitionInProgress]" using s(3) by (simp add: slot_inv_def)
  with inv s(4) have "\<not> disconnected (pt_state (sl_thread s)) 8" by (simp add: ctl_wake)
  with await_stuck [OF s(3) _ s(5)] absent_stuck [OF s(2)] r s show ?thesis
    by (intro exI [of _ s]) simp
qed

end
