(* ===== verification/Dispatch.thy ===== *)
theory Dispatch
  imports Prelude Runs
begin

section \<open>Dispatching requests to regular threads: \<^verbatim>\<open>thread_regular.rs\<close>\<close>

text \<open>
  The dispatch registry and \<^verbatim>\<open>handle_request_with_regular_php_threads\<close> with any number of callers
  and receiving handlers. A channel of capacity zero passes a request only while its receiver is
  parked in the select, which is what \<^verbatim>\<open>crossbeam_channel::bounded(0)\<close> documents. A caller's
  request has the caller's number. The shared channel lives as long as the process and so does
  its receiver, so that a blocking send on it never fails. A scan holds the registry's read lock,
  which excludes attaching and detaching.
\<close>

subsection \<open>The registry and one scan\<close>

record regular_thread_entry =
  entry_thread :: nat
  entry_sender :: nat

definition attach_regular_thread ::
  "nat \<Rightarrow> nat \<Rightarrow> regular_thread_entry list \<Rightarrow> regular_thread_entry list"
where
  "attach_regular_thread thread sender threads =
     threads @ [\<lparr>entry_thread = thread, entry_sender = sender\<rparr>]"

definition detach_regular_thread :: "nat \<Rightarrow> regular_thread_entry list \<Rightarrow> regular_thread_entry list" where
  "detach_regular_thread thread_index threads = filter (\<lambda>e. entry_thread e \<noteq> thread_index) threads"

text \<open>\<^verbatim>\<open>assign_handler\<close> gives the thread out only when the handler change was granted, which is its argument here;
  \<^verbatim>\<open>convert_to_regular_thread\<close> attaches the thread only then.\<close>

definition assign_handler :: "bool \<Rightarrow> nat \<Rightarrow> nat option" where
  "assign_handler assigned thread = (if assigned then Some thread else None)"

definition convert_to_regular_thread ::
  "bool \<Rightarrow> nat \<Rightarrow> nat \<Rightarrow> regular_thread_entry list \<Rightarrow> (nat \<times> regular_thread_entry list) option"
where
  "convert_to_regular_thread assigned thread sender threads =
     (case assign_handler assigned thread of
        None \<Rightarrow> None
      | Some thread \<Rightarrow> Some (thread, attach_regular_thread thread sender threads))"

datatype receiver = R_Busy | R_Parked | R_Dropped

datatype send_result = Sent | Full | Disconnected

definition try_send :: "receiver \<Rightarrow> send_result" where
  "try_send r = (case r of R_Parked \<Rightarrow> Sent | R_Busy \<Rightarrow> Full | R_Dropped \<Rightarrow> Disconnected)"

subsection \<open>Callers and receivers\<close>

datatype dispatch_pc =
    Q_Idle | Q_Start | Q_Read | Q_Scan "regular_thread_entry list" | Q_Shared | Q_Sending | Q_Sent | Q_Done

record dispatch =
  ds_entries :: "regular_thread_entry list"
  ds_queued :: int
  ds_receivers :: "nat \<Rightarrow> receiver"
  ds_callers :: "nat \<Rightarrow> dispatch_pc"
  ds_delivered :: "(nat \<times> nat) list"   \<comment> \<open>receiver and request, in order\<close>

definition dispatch_new :: dispatch where
  "dispatch_new = \<lparr>ds_entries = [], ds_queued = 0, ds_receivers = (\<lambda>_. R_Busy),
     ds_callers = (\<lambda>_. Q_Idle), ds_delivered = []\<rparr>"

definition goto :: "nat \<Rightarrow> dispatch_pc \<Rightarrow> dispatch \<Rightarrow> dispatch" where
  "goto p pc d = d\<lparr>ds_callers := (ds_callers d)(p := pc)\<rparr>"

definition receive :: "nat \<Rightarrow> nat \<Rightarrow> dispatch \<Rightarrow> dispatch" where
  "receive n p d = d\<lparr>ds_receivers := (ds_receivers d)(n := R_Busy), ds_delivered := ds_delivered d @ [(n, p)]\<rparr>"

definition set_receiver :: "nat \<Rightarrow> receiver \<Rightarrow> dispatch \<Rightarrow> dispatch" where
  "set_receiver n r d = d\<lparr>ds_receivers := (ds_receivers d)(n := r)\<rparr>"

text \<open>One step of the calling function; the choice of the receiver on the shared channel is the
  argument.\<close>

definition dispatch_next :: "nat \<Rightarrow> nat \<Rightarrow> dispatch \<Rightarrow> dispatch option" where
  "dispatch_next n p d =
     (case ds_callers d p of
        Q_Start \<Rightarrow> Some (goto p (if ds_queued d = 0 then Q_Read else Q_Shared) d)
      | Q_Read \<Rightarrow> Some (goto p (Q_Scan (ds_entries d)) d)
      | Q_Scan [] \<Rightarrow> Some (goto p Q_Shared d)
      | Q_Scan (e # es) \<Rightarrow>
          (case try_send (ds_receivers d (entry_sender e)) of
             Sent \<Rightarrow> Some (goto p Q_Done (receive (entry_sender e) p d))
           | Full \<Rightarrow> Some (goto p (Q_Scan es) d)
           | Disconnected \<Rightarrow> Some (goto p (Q_Scan es) d))
      | Q_Shared \<Rightarrow> Some (goto p Q_Sending (d\<lparr>ds_queued := ds_queued d + 1\<rparr>))
      | Q_Sending \<Rightarrow>
          (if ds_receivers d n = R_Parked then Some (goto p Q_Sent (receive n p d)) else None)
      | Q_Sent \<Rightarrow> Some (goto p Q_Done (d\<lparr>ds_queued := ds_queued d - 1\<rparr>))
      | _ \<Rightarrow> None)"

definition scanning :: "dispatch \<Rightarrow> bool" where
  "scanning d = (\<exists>p es. ds_callers d p = Q_Scan es)"

inductive dispatch_step :: "dispatch \<Rightarrow> dispatch \<Rightarrow> bool" where
  call: "ds_callers d p = Q_Idle \<Longrightarrow> dispatch_step d (goto p Q_Start d)"
| run: "dispatch_next n p d = Some d' \<Longrightarrow> dispatch_step d d'"
| park: "ds_receivers d n = R_Busy \<Longrightarrow> dispatch_step d (set_receiver n R_Parked d)"
| wake: "ds_receivers d n = R_Parked \<Longrightarrow> dispatch_step d (set_receiver n R_Busy d)"
| drop: "dispatch_step d (set_receiver n R_Dropped d)"
| attach: "\<not> scanning d \<Longrightarrow> dispatch_step d (d\<lparr>ds_entries := attach_regular_thread i n (ds_entries d)\<rparr>)"
| detach: "\<not> scanning d \<Longrightarrow> dispatch_step d (d\<lparr>ds_entries := detach_regular_thread i (ds_entries d)\<rparr>)"

inductive dispatch_reachable :: "dispatch \<Rightarrow> bool" where
  new: "dispatch_reachable dispatch_new"
| step: "dispatch_reachable d \<Longrightarrow> dispatch_step d d' \<Longrightarrow> dispatch_reachable d'"

subsection \<open>The invariant\<close>

definition queued_callers :: "dispatch \<Rightarrow> nat set" where
  "queued_callers d = {p. ds_callers d p = Q_Sending \<or> ds_callers d p = Q_Sent}"

definition dispatch_inv :: "dispatch \<Rightarrow> bool" where
  "dispatch_inv d =
     (distinct (map snd (ds_delivered d)) \<and>
      (\<forall>p. (p \<in> snd ` set (ds_delivered d)) = (ds_callers d p = Q_Sent \<or> ds_callers d p = Q_Done)) \<and>
      finite (queued_callers d) \<and> ds_queued d = int (card (queued_callers d)) \<and>
      (\<forall>p es. ds_callers d p = Q_Scan es \<longrightarrow> (\<exists>tried. ds_entries d = tried @ es)))"

lemma goto_simps [simp]:
  "ds_callers (goto p pc d) = (ds_callers d)(p := pc)" "ds_entries (goto p pc d) = ds_entries d"
  "ds_queued (goto p pc d) = ds_queued d" "ds_delivered (goto p pc d) = ds_delivered d"
  "ds_receivers (goto p pc d) = ds_receivers d"
  by (simp_all add: goto_def)

lemma queued_goto:
  "queued_callers (goto p pc d) =
     (if pc = Q_Sending \<or> pc = Q_Sent then insert p (queued_callers d) else queued_callers d - {p})"
  by (auto simp: queued_callers_def)

text \<open>A caller moves without sending anything or entering or leaving the queue.\<close>

lemma goto_inv:
  assumes "dispatch_inv d" "pc \<notin> {Q_Sending, Q_Sent, Q_Done}"
    and "ds_callers d p \<notin> {Q_Sending, Q_Sent, Q_Done}"
    and "\<And>es. pc = Q_Scan es \<Longrightarrow> \<exists>tried. ds_entries d = tried @ es"
  shows "dispatch_inv (goto p pc d)"
proof -
  have "p \<notin> queued_callers d" using assms(3) by (simp add: queued_callers_def)
  then have "queued_callers (goto p pc d) = queued_callers d"
    using assms(2) by (simp add: queued_goto)
  moreover have "p \<notin> snd ` set (ds_delivered d)" using assms(1,3) by (simp add: dispatch_inv_def)
  ultimately show ?thesis using assms by (auto simp: dispatch_inv_def)
qed

lemma receive_inv:
  assumes "dispatch_inv d" and "ds_callers d p \<notin> {Q_Sent, Q_Done}"
    and "pc = Q_Sent \<and> ds_callers d p = Q_Sending \<or> pc = Q_Done \<and> ds_callers d p \<noteq> Q_Sending"
  shows "dispatch_inv (goto p pc (receive n p d))"
proof -
  have "queued_callers (goto p pc (receive n p d)) = queued_callers d"
    using assms(2,3) by (auto simp: queued_callers_def receive_def)
  moreover have "p \<notin> snd ` set (ds_delivered d)" using assms(1,2) by (simp add: dispatch_inv_def)
  ultimately show ?thesis using assms by (auto simp: dispatch_inv_def receive_def)
qed

lemma enqueue_inv:
  assumes "dispatch_inv d" "ds_callers d p = Q_Shared"
  shows "dispatch_inv (goto p Q_Sending (d\<lparr>ds_queued := ds_queued d + 1\<rparr>))"
proof -
  have "p \<notin> queued_callers d" using assms(2) by (simp add: queued_callers_def)
  moreover have "queued_callers (goto p Q_Sending (d\<lparr>ds_queued := q\<rparr>)) = insert p (queued_callers d)" for q
    by (auto simp: queued_callers_def)
  moreover have "p \<notin> snd ` set (ds_delivered d)" using assms by (simp add: dispatch_inv_def)
  ultimately show ?thesis using assms by (auto simp: dispatch_inv_def)
qed

lemma dequeue_inv:
  assumes "dispatch_inv d" "ds_callers d p = Q_Sent"
  shows "dispatch_inv (goto p Q_Done (d\<lparr>ds_queued := ds_queued d - 1\<rparr>))"
proof -
  have p: "p \<in> queued_callers d" using assms(2) by (simp add: queued_callers_def)
  have fin: "finite (queued_callers d)" and q: "ds_queued d = int (card (queued_callers d))"
    using assms(1) by (simp_all add: dispatch_inv_def)
  have "card (queued_callers d) = Suc (card (queued_callers d - {p}))"
    using p fin by (metis card_Suc_Diff1)
  with q have "ds_queued d - 1 = int (card (queued_callers d - {p}))" by simp
  moreover have "queued_callers (goto p Q_Done (d\<lparr>ds_queued := x\<rparr>)) = queued_callers d - {p}" for x
    by (auto simp: queued_callers_def)
  moreover have "p \<in> snd ` set (ds_delivered d)" using assms by (simp add: dispatch_inv_def)
  ultimately show ?thesis using assms fin by (auto simp: dispatch_inv_def)
qed

lemma dispatch_next_inv:
  assumes inv: "dispatch_inv d" and next': "dispatch_next n p d = Some d'"
  shows "dispatch_inv d'"
proof (cases "ds_callers d p")
  case (Q_Scan es)
  with inv obtain tried where tried: "ds_entries d = tried @ es"
    unfolding dispatch_inv_def by blast
  show ?thesis
  proof (cases es)
    case Nil
    with next' Q_Scan inv show ?thesis by (auto simp: dispatch_next_def intro!: goto_inv)
  next
    case (Cons e es')
    then have "\<exists>tried. ds_entries d = tried @ es'" using tried by (intro exI [of _ "tried @ [e]"]) simp
    with next' Q_Scan Cons inv show ?thesis
      by (auto simp: dispatch_next_def split: send_result.splits intro!: goto_inv receive_inv)
  qed
qed (use inv next' in \<open>auto simp: dispatch_next_def split: if_splits
      intro!: goto_inv receive_inv enqueue_inv dequeue_inv\<close>)

lemma dispatch_step_inv: "dispatch_step d d' \<Longrightarrow> dispatch_inv d \<Longrightarrow> dispatch_inv d'"
proof (induction rule: dispatch_step.induct)
  case (call d p)
  then show ?case by (intro goto_inv) auto
next
  case (run n p d d')
  then show ?case using dispatch_next_inv by blast
qed (auto simp: dispatch_inv_def queued_callers_def set_receiver_def scanning_def)

lemma dispatch_reachable_inv: "dispatch_reachable d \<Longrightarrow> dispatch_inv d"
proof (induction rule: dispatch_reachable.induct)
  case new
  show ?case by (simp add: dispatch_inv_def dispatch_new_def queued_callers_def)
qed (auto intro: dispatch_step_inv)

text \<open>C9. A request has one owner. In every reachable state of any number of concurrent callers, with
  handlers parking, waking, being dropped, attached and detached at any time, no request has been
  received twice, a caller that is past its send has had its request received and any other still
  owns it, and the queue counter is exactly the number of callers between its increment and its
  decrement, so that it never goes negative and never stays raised.\<close>

theorem request_has_one_owner:
  assumes "dispatch_reachable d"
  shows "distinct (map snd (ds_delivered d)) \<and>
    (p \<in> snd ` set (ds_delivered d)) = (ds_callers d p = Q_Sent \<or> ds_callers d p = Q_Done) \<and>
    ds_queued d = int (card {p. ds_callers d p = Q_Sending \<or> ds_callers d p = Q_Sent})"
  using dispatch_reachable_inv [OF assms] by (auto simp: dispatch_inv_def queued_callers_def)

definition dispatch_exec :: "nat \<times> nat \<Rightarrow> dispatch \<Rightarrow> dispatch option" where
  "dispatch_exec m = dispatch_next (fst m) (snd m)"

interpretation dispatch_runs: kept_runs dispatch_exec "\<lambda>_. True" dispatch_reachable
  by unfold_locales (auto simp: dispatch_exec_def intro: dispatch_reachable.step dispatch_step.run)

text \<open>A caller finds the only attached handler busy, queues, and is served when it parks.\<close>

definition queue_example :: "dispatch option" where
  "queue_example =
     Option.bind (run_all dispatch_exec (replicate 5 (7, 5)) (goto 5 Q_Start (dispatch_new\<lparr>ds_entries := attach_regular_thread 0 7 []\<rparr>)))
       (\<lambda>d. run_all dispatch_exec (replicate 1 (7, 5)) (set_receiver 7 R_Parked d))"

lemma queue_example_run:
  "map_option (\<lambda>d. (ds_callers d 5, ds_queued d, ds_delivered d)) queue_example = Some (Q_Sent, 1, [(7, 5)])"
  by code_simp

theorem request_has_one_owner_witness:
  "\<exists>d. dispatch_reachable d \<and> ds_callers d 5 = Q_Sent \<and> 5 \<in> snd ` set (ds_delivered d)"
proof -
  let ?d0 = "dispatch_new\<lparr>ds_entries := attach_regular_thread 0 7 []\<rparr>"
  have "dispatch_reachable ?d0"
    using dispatch_reachable.step [OF dispatch_reachable.new dispatch_step.attach, of 0 7]
    by (simp add: scanning_def dispatch_new_def)
  then have r0: "dispatch_reachable (goto 5 Q_Start ?d0)"
    by (rule dispatch_reachable.step [OF _ dispatch_step.call]) (simp add: dispatch_new_def)
  have busy: "\<forall>d. run_all dispatch_exec (replicate 5 (7, 5)) (goto 5 Q_Start ?d0) = Some d \<longrightarrow> ds_receivers d 7 = R_Busy"
    by (simp add: eval_nat_numeral dispatch_exec_def dispatch_next_def dispatch_new_def attach_regular_thread_def try_send_def)
  obtain d where d: "queue_example = Some d" "ds_callers d 5 = Q_Sent"
    using queue_example_run by auto
  then obtain d1 where d1: "run_all dispatch_exec (replicate 5 (7, 5)) (goto 5 Q_Start ?d0) = Some d1"
    "run_all dispatch_exec (replicate 1 (7, 5)) (set_receiver 7 R_Parked d1) = Some d"
    unfolding queue_example_def bind_eq_Some_conv by blast
  have "dispatch_reachable (set_receiver 7 R_Parked d1)"
    using dispatch_runs.run_kept [OF r0 _ d1(1)] busy d1(1)
    by (intro dispatch_reachable.step [OF _ dispatch_step.park]) auto
  then have r: "dispatch_reachable d" using dispatch_runs.run_kept [OF _ _ d1(2)] by simp
  from request_has_one_owner [OF r, of 5] r d(2) show ?thesis by blast
qed

end
