(* ===== verification/MainThread.thy ===== *)
theory MainThread
  imports ThreadState RequestCtx Fmt "HOL-Library.AList"
begin

section \<open>The main PHP thread: sizing, errors, ini overrides\<close>

text \<open>
  The non-pool half of \<^verbatim>\<open>thread.rs\<close> (\<^verbatim>\<open>MaxThreads\<close>, \<^verbatim>\<open>ThreadError\<close>, \<^verbatim>\<open>PhpMainThread\<close> and the sizing
  of \<^verbatim>\<open>max_threads\<close>) and \<^verbatim>\<open>callbacks/mainthread.rs\<close>. A \<^verbatim>\<open>usize\<close> and a \<^verbatim>\<open>u64\<close> are 64-bit words, as on
  every target the project builds for. A \<^verbatim>\<open>HashMap<String, String>\<close> is an association list with
  distinct keys, in its iteration order, which the source leaves open and no theorem uses. The
  memory limit of the interpreter, \<^verbatim>\<open>sysinfo(2)\<close> and libc's \<^verbatim>\<open>malloc\<close> are parameters.
\<close>

subsection \<open>Requested and resolved thread counts\<close>

datatype max_threads = Fixed "64 word" | Auto

datatype thread_error =
    Already_Initialized
  | Invalid_Thread_Count "64 word" max_threads
  | Main_Thread_Creation "32 word"
  | Php_Thread_Creation "64 word"
  | Invalid_Boot_State "64 word" state

fun max_threads_debug :: "max_threads \<Rightarrow> string" where
  "max_threads_debug (Fixed count) = ''Fixed('' @ fmt_nat (unat count) @ '')''"
| "max_threads_debug Auto = ''Auto''"

fun thread_error_fmt :: "thread_error \<Rightarrow> string" where
  "thread_error_fmt Already_Initialized = ''PHP threads are already initialized''"
| "thread_error_fmt (Invalid_Thread_Count num_threads max_threads) =
     ''invalid PHP thread counts: num_threads='' @ fmt_nat (unat num_threads) @
     '', max_threads='' @ max_threads_debug max_threads"
| "thread_error_fmt (Main_Thread_Creation code) =
     ''unable to create PHP main thread (code '' @ fmt_int (sint code) @ '')''"
| "thread_error_fmt (Php_Thread_Creation thread_index) =
     ''unable to create PHP thread '' @ fmt_nat (unat thread_index)"
| "thread_error_fmt (Invalid_Boot_State thread_index st) =
     ''cannot boot PHP thread '' @ fmt_nat (unat thread_index) @ '' from state '' @ state_fmt st"

definition saturating_mul :: "64 word \<Rightarrow> 64 word \<Rightarrow> 64 word" where
  "saturating_mul a b = (if unat a * unat b < 2 ^ 64 then a * b else - 1)"

definition automatic_max_threads :: "64 word \<Rightarrow> 64 word \<Rightarrow> 64 word \<Rightarrow> 64 word" where
  "automatic_max_threads num_threads per_thread_limit total_memory =
     (if sint per_thread_limit \<le> 0 \<or> total_memory = 0 then saturating_mul num_threads 2
      else total_memory div per_thread_limit)"

definition resolve_max_threads :: "64 word \<Rightarrow> max_threads \<Rightarrow> 64 word \<Rightarrow> 64 word \<Rightarrow> 64 word" where
  "resolve_max_threads num_threads requested per_thread_limit total_memory =
     max (case requested of
            Fixed count \<Rightarrow> count
          | Auto \<Rightarrow> automatic_max_threads num_threads per_thread_limit total_memory)
       num_threads"

text \<open>The status and the two fields \<^verbatim>\<open>sysinfo(2)\<close> gives.\<close>

definition total_system_memory :: "bool \<Rightarrow> 64 word \<Rightarrow> 32 word \<Rightarrow> 64 word" where
  "total_system_memory ok totalram mem_unit = (if \<not> ok then 0 else totalram * ucast mem_unit)"

subsection \<open>The main thread\<close>

type_synonym ini = "(bytes \<times> bytes) list"

record php_main_thread =
  mt_state :: thread_state
  mt_num_threads :: "64 word"
  mt_requested_max_threads :: max_threads
  mt_max_threads :: "64 word"
  mt_php_ini :: ini

definition main_thread_new :: "64 word \<Rightarrow> max_threads \<Rightarrow> ini \<Rightarrow> php_main_thread" where
  "main_thread_new num_threads max_threads php_ini =
     \<lparr>mt_state = ts_new, mt_num_threads = num_threads, mt_requested_max_threads = max_threads,
      mt_max_threads = (case max_threads of Fixed count \<Rightarrow> count | Auto \<Rightarrow> num_threads),
      mt_php_ini = php_ini\<rparr>"

definition finalize_max_threads ::
  "64 word \<Rightarrow> 64 word \<Rightarrow> php_main_thread \<Rightarrow> php_main_thread"
where
  "finalize_max_threads memory_limit system_memory main =
     main\<lparr>mt_max_threads :=
       (case mt_requested_max_threads main of
          Fixed _ \<Rightarrow> resolve_max_threads (mt_num_threads main) (mt_requested_max_threads main) 0 0
        | Auto \<Rightarrow> resolve_max_threads (mt_num_threads main) (mt_requested_max_threads main)
                    memory_limit system_memory)\<rparr>"

text \<open>The validation that starts \<^verbatim>\<open>init_php_threads\<close>.\<close>

definition c_int_max :: nat where "c_int_max = 2 ^ 31 - 1"

definition fixed_count_out_of_range :: "max_threads \<Rightarrow> bool" where
  "fixed_count_out_of_range max_threads =
     (case max_threads of Fixed count \<Rightarrow> count = 0 \<or> c_int_max < unat count | Auto \<Rightarrow> False)"

definition validate_thread_counts :: "64 word \<Rightarrow> max_threads \<Rightarrow> thread_error + unit" where
  "validate_thread_counts num_threads max_threads =
     (if fixed_count_out_of_range max_threads \<or> c_int_max < unat num_threads
      then Inl (Invalid_Thread_Count num_threads max_threads) else Inr ())"

text \<open>The two lifecycle callbacks of the main pthread, up to the wait of the first. The results are the
  diagnostics and the main thread.\<close>

definition publish_ready :: "64 word \<Rightarrow> 64 word \<Rightarrow> php_main_thread \<Rightarrow> php_main_thread" where
  "publish_ready memory_limit system_memory main =
     (let main = finalize_max_threads memory_limit system_memory main
      in main\<lparr>mt_state := ts_set (mt_state main) Ready\<rparr>)"

definition go_frankenphp_main_thread_is_ready ::
  "64 word \<Rightarrow> 64 word \<Rightarrow> php_main_thread option \<Rightarrow> string list \<times> php_main_thread option"
where
  "go_frankenphp_main_thread_is_ready memory_limit system_memory main_thread =
     (case main_thread of
        None \<Rightarrow> ([''main-thread-ready callback has no installed registry''], None)
      | Some main \<Rightarrow> ([], Some (publish_ready memory_limit system_memory main)))"

definition shutdown_main_state :: "thread_state \<Rightarrow> thread_state" where
  "shutdown_main_state ts =
     (case compare_and_swap ts Rebooting YieldingForReboot of
        (True, ts) \<Rightarrow> ts | (False, ts) \<Rightarrow> ts_set ts Reserved)"

definition go_frankenphp_shutdown_main_thread ::
  "php_main_thread option \<Rightarrow> string list \<times> php_main_thread option"
where
  "go_frankenphp_shutdown_main_thread main_thread =
     (case main_thread of
        None \<Rightarrow> ([''main-thread-shutdown callback has no installed registry''], None)
      | Some main \<Rightarrow> ([], Some (main\<lparr>mt_state := shutdown_main_state (mt_state main)\<rparr>)))"

subsection \<open>The ini overrides\<close>

definition checked_add :: "nat \<Rightarrow> nat \<Rightarrow> nat option" where
  "checked_add a b = (if a + b < 2 ^ 64 then Some (a + b) else None)"

fun ini_capacity :: "nat \<Rightarrow> ini \<Rightarrow> nat option" where
  "ini_capacity length_so_far [] = Some length_so_far"
| "ini_capacity length_so_far ((key, v) # rest) =
     Option.bind (Option.bind (Option.bind (checked_add length_so_far (length key))
       (\<lambda>n. checked_add n (length v))) (\<lambda>n. checked_add n 2)) (\<lambda>n. ini_capacity n rest)"

fun ini_lines :: "ini \<Rightarrow> bytes" where
  "ini_lines [] = []"
| "ini_lines ((key, v) # rest) = key @ CHR ''='' # v @ CHR 0x0A # ini_lines rest"

text \<open>\<open>malloc\<close> says whether an allocation of this size succeeds; the result is the block C gets.\<close>

definition malloc_ini_overrides :: "(nat \<Rightarrow> bool) \<Rightarrow> ini \<Rightarrow> bytes option" where
  "malloc_ini_overrides malloc php_ini =
     (case ini_capacity 1 php_ini of
        None \<Rightarrow> None
      | Some capacity \<Rightarrow>
          (let overrides = ini_lines php_ini @ [CHR 0x00]
           in if malloc (length overrides) then Some overrides else None))"

definition go_get_custom_php_ini ::
  "(nat \<Rightarrow> bool) \<Rightarrow> bool \<Rightarrow> php_main_thread option \<Rightarrow> bytes option \<times> php_main_thread option"
where
  "go_get_custom_php_ini malloc disable_timeouts main_thread =
     (case main_thread of
        None \<Rightarrow> (None, None)
      | Some main \<Rightarrow>
          (let php_ini = mt_php_ini main;
               php_ini = (if disable_timeouts
                          then AList.update ''max_input_time'' ''-1''
                                 (AList.update ''max_execution_time'' ''0'' php_ini)
                          else php_ini)
           in (malloc_ini_overrides malloc php_ini, Some (main\<lparr>mt_php_ini := php_ini\<rparr>))))"

text \<open>Reading the text back: lines, and in each line what is before and after the first equals sign. This
  reader is the specification of the round trip, not PHP's own parser, which is not part of the repository
  and gives quotes, semicolons and its other special characters a meaning that a directive's author has to
  take into account.\<close>

definition read_ini_line :: "bytes \<Rightarrow> bytes \<times> bytes" where
  "read_ini_line line = (takeWhile (\<lambda>b. b \<noteq> CHR ''='') line, tl (dropWhile (\<lambda>b. b \<noteq> CHR ''='') line))"

definition read_ini :: "bytes \<Rightarrow> ini" where
  "read_ini text = map read_ini_line (butlast (split_on (CHR 0x0A) text))"

definition ini_ok :: "ini \<Rightarrow> bool" where
  "ini_ok php_ini = list_all (\<lambda>(k, v). CHR ''='' \<notin> set k \<and> CHR 0x0A \<notin> set k \<and> CHR 0x0A \<notin> set v \<and>
     CHR 0x00 \<notin> set k \<and> CHR 0x00 \<notin> set v) php_ini"

subsection \<open>Sizing\<close>

lemma sint_positive_uint:
  fixes w :: "64 word"
  assumes "0 < sint w"
  shows "sint w = uint w"
proof -
  have lt: "uint w < 2 ^ 64" using uint_lt2p [of w] by simp
  have s: "sint w = (uint w + 2 ^ 63) mod 2 ^ 64 - 2 ^ 63"
    using int_word_sint [where 'a = 64, of "uint w"] by simp
  show ?thesis
  proof (cases "uint w < 2 ^ 63")
    case True
    then have "(uint w + 2 ^ 63) mod 2 ^ 64 = uint w + 2 ^ 63"
      by (intro mod_pos_pos_trivial) simp_all
    with s show ?thesis by linarith
  next
    case False
    have "(uint w + 2 ^ 63) mod 2 ^ 64 = (uint w + 2 ^ 63 - 2 ^ 64) mod 2 ^ 64"
      by (rule minus_mod_self2 [symmetric])
    also have "\<dots> = uint w + 2 ^ 63 - 2 ^ 64"
      using False lt by (intro mod_pos_pos_trivial) simp_all
    finally have "sint w = uint w - 2 ^ 64" unfolding s by simp
    with lt assms show ?thesis by linarith
  qed
qed

lemma saturating_mul_2: "unat (saturating_mul n 2) = min (2 * unat n) (2 ^ 64 - 1)"
proof (cases "unat n * 2 < 2 ^ 64")
  case True
  then have "unat (n * 2) = unat n * 2" by (simp add: unat_word_ariths)
  with True show ?thesis by (simp add: saturating_mul_def)
next
  case False
  then show ?thesis by (simp add: saturating_mul_def unsigned_minus_1_eq_mask mask_eq_exp_minus_1)
qed

text \<open>The resolved number of threads is never below the number started at boot. For a fixed request it
  is the larger of the two and depends on no memory figure; for an automatic one it is memory
  divided by the limit, truncated, when both are positive, and otherwise twice the boot count,
  saturating at the 64-bit maximum.\<close>

theorem resolve_max_threads_spec:
  "unat (resolve_max_threads num_threads requested limit mem) =
     max (unat num_threads)
       (case requested of
          Fixed count \<Rightarrow> unat count
        | Auto \<Rightarrow> if 0 < sint limit \<and> mem \<noteq> 0 then unat mem div nat (sint limit)
                  else min (2 * unat num_threads) (2 ^ 64 - 1))"
proof -
  have m: "unat (max a b) = max (unat a) (unat b)" for a b :: "64 word"
    by (simp add: max_def word_le_nat_alt)
  have l: "unat limit = nat (sint limit)" if "0 < sint limit"
    using that sint_positive_uint [of limit] by simp
  show ?thesis
  proof (cases requested)
    case Auto
    show ?thesis
    proof (cases "0 < sint limit \<and> mem \<noteq> 0")
      case True
      then show ?thesis
        using l by (simp add: resolve_max_threads_def automatic_max_threads_def Auto m unat_div max.commute)
    next
      case False
      then have "automatic_max_threads num_threads limit mem = saturating_mul num_threads 2"
        by (auto simp: automatic_max_threads_def)
      with False show ?thesis
        by (simp only: resolve_max_threads_def Auto max_threads.case m saturating_mul_2 if_False max.commute)
    qed
  qed (simp add: resolve_max_threads_def m max.commute)
qed

text \<open>Finalizing keeps the main thread's limit at least its boot count and within what was asked:
  a count that passed validation as fixed stays below the C integer bound, which is how it is
  passed to C, and finalizing twice is finalizing once.\<close>

theorem finalize_max_threads_bounds:
  assumes "validate_thread_counts (mt_num_threads m) (mt_requested_max_threads m) = Inr ()"
  shows "(let m' = finalize_max_threads limit mem m in
     mt_num_threads m \<le> mt_max_threads m' \<and> finalize_max_threads limit mem m' = m' \<and>
     (case mt_requested_max_threads m of
        Fixed count \<Rightarrow> 0 < unat (mt_max_threads m') \<and> unat (mt_max_threads m') \<le> c_int_max
      | Auto \<Rightarrow> True))"
proof (cases "mt_requested_max_threads m")
  case (Fixed count)
  with assms have "0 < count" "unat count \<le> c_int_max" "unat (mt_num_threads m) \<le> c_int_max"
    by (auto simp: validate_thread_counts_def fixed_count_out_of_range_def word_neq_0_conv split: if_splits)
  with Fixed show ?thesis
    by (auto simp: finalize_max_threads_def resolve_max_threads_def Let_def max_def unat_gt_0)
next
  case Auto
  then show ?thesis by (simp add: finalize_max_threads_def resolve_max_threads_def Let_def)
qed

text \<open>Four threads at boot, at most eight.\<close>

theorem finalize_max_threads_bounds_witness:
  "unat (mt_max_threads (finalize_max_threads 0 0 (main_thread_new 4 (Fixed 8) []))) \<le> c_int_max"
  using finalize_max_threads_bounds [of "main_thread_new 4 (Fixed 8) []" 0 0]
  by (simp add: main_thread_new_def validate_thread_counts_def fixed_count_out_of_range_def c_int_max_def Let_def)

subsection \<open>C reads the overrides\<close>

lemma ini_capacity_exact:
  "ini_capacity n php_ini =
     (if n + length (ini_lines php_ini) < 2 ^ 64 \<or> php_ini = [] then Some (n + length (ini_lines php_ini)) else None)"
proof (induction php_ini arbitrary: n)
  case (Cons kv rest)
  obtain k v where kv: "kv = (k, v)" by force
  show ?case
  proof (cases "n + length k + length v + 2 < 2 ^ 64")
    case True
    with Cons [of "n + length k + length v + 2"] show ?thesis
      by (auto simp: kv checked_add_def)
  next
    case False
    then show ?thesis by (auto simp: kv checked_add_def)
  qed
qed simp

lemma ini_lines_split:
  "ini_ok php_ini \<Longrightarrow> split_on (CHR 0x0A) (ini_lines php_ini) = map (\<lambda>(k, v). k @ CHR ''='' # v) php_ini @ [[]]"
proof (induction php_ini)
  case (Cons kv rest)
  obtain k v where kv: "kv = (k, v)" by force
  have "split_on (CHR 0x0A) ((k @ CHR ''='' # v) @ CHR 0x0A # ini_lines rest) =
      split_on (CHR 0x0A) (k @ CHR ''='' # v) @ split_on (CHR 0x0A) (ini_lines rest)"
    by (rule split_on_append)
  moreover have "split_on (CHR 0x0A) (k @ CHR ''='' # v) = [k @ CHR ''='' # v]"
    using Cons.prems by (intro split_on_nosep) (auto simp: kv ini_ok_def)
  ultimately show ?case using Cons by (simp add: kv ini_ok_def)
qed (simp add: split_on_nosep)

lemma while_upto:
  "c \<notin> set a \<Longrightarrow> takeWhile (\<lambda>b. b \<noteq> c) (a @ c # b) = a"
  "c \<notin> set a \<Longrightarrow> dropWhile (\<lambda>b. b \<noteq> c) (a @ c # b) = c # b"
  by (induction a) auto

lemma read_ini_lines:
  assumes "ini_ok php_ini"
  shows "read_ini (ini_lines php_ini) = php_ini"
proof -
  have "list_all (\<lambda>(k, v). read_ini_line (k @ CHR ''='' # v) = (k, v)) php_ini"
    using assms unfolding ini_ok_def
    by (rule list.pred_mono_strong) (auto simp: read_ini_line_def while_upto)
  then have "map read_ini_line (map (\<lambda>(k, v). k @ CHR ''='' # v) php_ini) = php_ini"
    by (auto simp: list_all_iff intro!: map_idI)
  then show ?thesis using ini_lines_split [OF assms] by (simp add: read_ini_def)
qed

lemma ini_lines_no_nul: "ini_ok php_ini \<Longrightarrow> CHR 0x00 \<notin> set (ini_lines php_ini)"
  by (induction php_ini rule: ini_lines.induct) (auto simp: ini_ok_def)

lemma c_str_nul: "CHR 0x00 \<notin> set bs \<Longrightarrow> c_str (bs @ [CHR 0x00]) = bs"
  unfolding c_str_def by (subst takeWhile_append2) auto

lemma ini_ok_update: "ini_ok l \<Longrightarrow> ini_ok [(k, v)] \<Longrightarrow> ini_ok (AList.update k v l)"
  by (induction l) (auto simp: ini_ok_def)

text \<open>C36. The block handed to the interpreter has exactly the configured directives, line by line. When no key or value holds a newline or a
  NUL and no key an equals sign, and the allocation succeeds, reading the C string line by line
  gives back the main thread's ini map; with timeouts disabled it is that map with the two timeout
  directives replaced, whatever the caller set, and the map is left that way. The block is as long
  as the capacity that was computed for it.\<close>

theorem custom_php_ini_roundtrip:
  assumes "ini_ok (mt_php_ini main)" "length (ini_lines (mt_php_ini main)) < 2 ^ 62"
  shows "(case go_get_custom_php_ini (\<lambda>_. True) disable (Some main) of
       (Some block, Some main') \<Rightarrow>
         read_ini (c_str block) = mt_php_ini main' \<and>
         map_of (read_ini (c_str block)) =
           (if disable then (map_of (mt_php_ini main))(''max_execution_time'' \<mapsto> ''0'', ''max_input_time'' \<mapsto> ''-1'')
            else map_of (mt_php_ini main)) \<and>
         ini_capacity 1 (mt_php_ini main') = Some (length block)
     | _ \<Rightarrow> False)"
proof -
  define ini where "ini = (if disable then AList.update ''max_input_time'' ''-1''
      (AList.update ''max_execution_time'' ''0'' (mt_php_ini main)) else mt_php_ini main)"
  have "ini_ok [(''max_input_time'', ''-1'')]" "ini_ok [(''max_execution_time'', ''0'')]"
    by (simp_all add: ini_ok_def)
  then have ok: "ini_ok ini" unfolding ini_def using assms(1) by (simp add: ini_ok_update)
  have up: "length (ini_lines (AList.update k v l)) \<le> length (ini_lines l) + length k + length v + 2" for k v l
    by (induction l) auto
  have "length (ini_lines ini) < 2 ^ 62 + 100"
    unfolding ini_def
    using assms(2) up [of "''max_input_time''" "''-1''" "AList.update ''max_execution_time'' ''0'' (mt_php_ini main)"]
      up [of "''max_execution_time''" "''0''" "mt_php_ini main"] by simp
  then have "ini_capacity 1 ini = Some (1 + length (ini_lines ini))" "length (ini_lines ini) + 1 < 2 ^ 64"
    by (simp_all add: ini_capacity_exact)
  then have "go_get_custom_php_ini (\<lambda>_. True) disable (Some main) =
      (Some (ini_lines ini @ [CHR 0x00]), Some (main\<lparr>mt_php_ini := ini\<rparr>))"
    by (simp add: go_get_custom_php_ini_def malloc_ini_overrides_def Let_def ini_def)
  moreover have "map_of ini = (if disable then (map_of (mt_php_ini main))
      (''max_execution_time'' \<mapsto> ''0'', ''max_input_time'' \<mapsto> ''-1'') else map_of (mt_php_ini main))"
    by (auto simp: ini_def update_conv')
  ultimately show ?thesis
    using ok \<open>ini_capacity 1 ini = _\<close>
    by (simp add: c_str_nul ini_lines_no_nul read_ini_lines)
qed

text \<open>One directive, timeouts disabled.\<close>

theorem custom_php_ini_roundtrip_witness:
  "(case go_get_custom_php_ini (\<lambda>_. True) True
           (Some (main_thread_new 1 Auto [(''memory_limit'', ''1G'')])) of
      (Some block, Some main') \<Rightarrow> map_of (read_ini (c_str block)) ''max_input_time'' = Some ''-1''
    | _ \<Rightarrow> False)"
  using custom_php_ini_roundtrip [of "main_thread_new 1 Auto [(''memory_limit'', ''1G'')]" True]
  by (auto simp: main_thread_new_def ini_ok_def split: prod.splits option.splits)

end
