(* ===== verification/ThreadPool.thy ===== *)
theory ThreadPool
  imports SlotProperties MainThread
begin

section \<open>The registry of PHP threads and its drain\<close>

text \<open>
  The pool half of \<^verbatim>\<open>thread.rs\<close>: the registry, selecting an inactive slot, and the ordering of
  \<^verbatim>\<open>init_php_threads\<close>, \<^verbatim>\<open>drain_generation\<close> and the main pthread, with any number of slots. Every
  operation on a slot holds \<^verbatim>\<open>SCALING\<close>, so that the pool has one controller whose place is the
  pool's program counter; the PHP pthreads of the slots and the main pthread run at any time. The
  blocking wait on the main thread's own state is a step that is enabled in the states waited for,
  which is what \<^verbatim>\<open>ThreadState\<close> proves of \<^verbatim>\<open>wait_for\<close>.
\<close>

subsection \<open>Selecting a slot\<close>

text \<open>\<^verbatim>\<open>get_inactive_php_thread\<close> on the states of the slots: the slot to claim, and whether it has to be
  booted first.\<close>

definition get_inactive_php_thread :: "state list \<Rightarrow> (nat \<times> bool) option" where
  "get_inactive_php_thread states =
     (case position (\<lambda>st. st = Inactive) states of
        Some i \<Rightarrow> Some (i, False)
      | None \<Rightarrow> map_option (\<lambda>i. (i, True)) (position (\<lambda>st. st = Reserved) states))"

text \<open>\<^verbatim>\<open>thread_by_index\<close>: a callback for an unknown index finds nothing.\<close>

definition thread_by_index :: "'t list \<Rightarrow> nat \<Rightarrow> 't option" where
  "thread_by_index threads thread_index =
     (if thread_index < length threads then Some (threads ! thread_index) else None)"

subsection \<open>The registry\<close>

record ('m, 't) registry =
  reg_main :: "'m option"
  reg_threads :: "'t list"
  reg_metrics_initialized :: bool

definition registry_default :: "('m, 't) registry" where
  "registry_default = \<lparr>reg_main = None, reg_threads = [], reg_metrics_initialized = False\<rparr>"

definition clear_registry :: "'m \<Rightarrow> ('m, 't) registry \<Rightarrow> ('m, 't) registry" where
  "clear_registry main installed =
     (if reg_main installed = Some main
      then installed\<lparr>reg_main := None, reg_threads := [], reg_metrics_initialized := False\<rparr>
      else installed)"

text \<open>The critical section of \<^verbatim>\<open>init_php_threads\<close> that installs slot zero before C starts the main
  pthread, and the one that installs every slot once the limit is final.\<close>

definition install_initial ::
  "'m \<Rightarrow> 't \<Rightarrow> ('m, 't) registry \<Rightarrow> thread_error + ('m, 't) registry"
where
  "install_initial main initial_thread installed =
     (if reg_main installed \<noteq> None then Inl Already_Initialized
      else Inr (installed\<lparr>reg_main := Some main, reg_threads := [initial_thread],
                          reg_metrics_initialized := False\<rparr>))"

definition install_threads ::
  "nat \<Rightarrow> (nat \<Rightarrow> 't) \<Rightarrow> 't \<Rightarrow> ('m, 't) registry \<Rightarrow> ('m, 't) registry"
where
  "install_threads final_max_threads new_thread initial_thread installed =
     installed\<lparr>reg_threads := initial_thread # map new_thread [1..<final_max_threads],
               reg_metrics_initialized := True\<rparr>"

subsection \<open>The pool's system\<close>

datatype pool_pc =
    D_Free | D_Op nat
  | D_Begin nat | D_Beginning nat | D_Grace nat | D_Arm nat | D_Wait nat | D_Finish nat
  | D_Main_Wait | D_Clear | D_Over

datatype main_pc = M_Wait | M_Teardown | M_Gone

record ('s, 'k) pool =
  po_slots :: "('s, 'k) slot list"
  po_main :: thread_state
  po_pc :: pool_pc
  po_main_pc :: main_pc
  po_metrics :: bool

text \<open>As \<^verbatim>\<open>init_php_threads\<close> leaves it before it boots the first slot.\<close>

definition pool_new :: "nat \<Rightarrow> host \<Rightarrow> ('s, 'k) pool" where
  "pool_new final_max_threads w =
     \<lparr>po_slots = map (\<lambda>i. slot_new i w) [0..<max 1 final_max_threads], po_main = ts_set ts_new Ready,
      po_pc = D_Free, po_main_pc = M_Wait, po_metrics = True\<rparr>"

definition set_slot :: "nat \<Rightarrow> ('s, 'k) slot \<Rightarrow> ('s, 'k) pool \<Rightarrow> ('s, 'k) pool" where
  "set_slot i s p = p\<lparr>po_slots := (po_slots p)[i := s]\<rparr>"

text \<open>What the controller may do to one slot in each pass of \<^verbatim>\<open>drain_generation\<close>, and when the pass is
  done with it.\<close>

inductive drain_step :: "pool_pc \<Rightarrow> ('s, 'k) slot \<Rightarrow> ('s, 'k) slot \<Rightarrow> bool" where
  beginning: "begin_shutdown_next s = Some s' \<Longrightarrow> drain_step (D_Beginning k) s s'"
| grace: "sl_ctl s \<in> {C_Grace g, C_Graced g c} \<Longrightarrow> shutdown_next s = Some s' \<Longrightarrow> drain_step (D_Grace k) s s'"
| expired: "sl_ctl s = C_Graced g c \<Longrightarrow>
    drain_step (D_Grace k) s (ctl_goto (C_Kill g, with_state (\<lambda>ts. unsubscribe ts c) (sl_thread s)) s)"
| already: "pc \<in> {D_Grace k, D_Arm k, D_Wait k} \<Longrightarrow> sl_ctl s \<in> {C_Grace g, C_Kill g, C_Done_Wait g} \<Longrightarrow>
    ts_is (pt_state (sl_thread s)) Done \<Longrightarrow> drain_step pc s (ctl_goto (C_Finish g, sl_thread s) s)"
| arm: "sl_ctl s = C_Kill g \<Longrightarrow> shutdown_next s = Some s' \<Longrightarrow> drain_step (D_Arm k) s s'"
| awaiting: "sl_ctl s \<in> {C_Done_Wait g, C_Done_Parked g c} \<Longrightarrow> shutdown_next s = Some s' \<Longrightarrow>
    drain_step (D_Wait k) s s'"
| finish: "finish_shutdown_next s = Some s' \<Longrightarrow> drain_step (D_Finish k) s s'"

definition pass_done :: "pool_pc \<Rightarrow> ctl_pc \<Rightarrow> bool" where
  "pass_done pc c =
     (case pc of
        D_Beginning k \<Rightarrow> (case c of C_Idle \<Rightarrow> True | C_Grace g \<Rightarrow> True | _ \<Rightarrow> False)
      | D_Grace k \<Rightarrow> (case c of C_Idle \<Rightarrow> True | C_Kill g \<Rightarrow> True | C_Finish g \<Rightarrow> True | _ \<Rightarrow> False)
      | D_Arm k \<Rightarrow> (case c of C_Idle \<Rightarrow> True | C_Done_Wait g \<Rightarrow> True | C_Finish g \<Rightarrow> True | _ \<Rightarrow> False)
      | D_Wait k \<Rightarrow> (case c of C_Idle \<Rightarrow> True | C_Finish g \<Rightarrow> True | _ \<Rightarrow> False)
      | D_Finish k \<Rightarrow> c = C_Idle
      | _ \<Rightarrow> False)"

fun drained_slot :: "pool_pc \<Rightarrow> nat option" where
  "drained_slot (D_Beginning k) = Some k"
| "drained_slot (D_Grace k) = Some k"
| "drained_slot (D_Arm k) = Some k"
| "drained_slot (D_Wait k) = Some k"
| "drained_slot (D_Finish k) = Some k"
| "drained_slot _ = None"

text \<open>The next place: the next slot of the pass, or the next pass.\<close>

fun next_slot :: "nat \<Rightarrow> pool_pc \<Rightarrow> pool_pc" where
  "next_slot n (D_Beginning k) = (if Suc k < n then D_Begin (Suc k) else D_Grace 0)"
| "next_slot n (D_Grace k) = (if Suc k < n then D_Grace (Suc k) else D_Arm 0)"
| "next_slot n (D_Arm k) = (if Suc k < n then D_Arm (Suc k) else D_Wait 0)"
| "next_slot n (D_Wait k) = (if Suc k < n then D_Wait (Suc k) else D_Finish 0)"
| "next_slot n (D_Finish k) = (if Suc k < n then D_Finish (Suc k) else D_Finish n)"
| "next_slot n pc = pc"

text \<open>The steps of the pool, over the steps its pthreads may take: \<open>php_own\<close> for what they do by themselves,
  \<open>php_step\<close> with what their callers and their scripts do.\<close>

inductive pool_step ::
  "(('s, 'k) slot \<Rightarrow> ('s, 'k) slot \<Rightarrow> bool) \<Rightarrow> ('s, 'k) pool \<Rightarrow> ('s, 'k) pool \<Rightarrow> bool" for pthread where
  php: "i < length (po_slots p) \<Longrightarrow> pthread (po_slots p ! i) s \<Longrightarrow> pool_step pthread p (set_slot i s p)"
| attach: "i < length (po_slots p) \<Longrightarrow> s = po_slots p ! i \<Longrightarrow> n \<in> set (sl_unattached s) \<Longrightarrow>
    pool_step pthread p (set_slot i (s\<lparr>sl_entries := sl_entries s @ [n],
      sl_unattached := remove1 n (sl_unattached s)\<rparr>) p)"
| lock: "po_pc p = D_Free \<Longrightarrow> i < length (po_slots p) \<Longrightarrow> pool_step pthread p (p\<lparr>po_pc := D_Op i\<rparr>)"
| op: "po_pc p = D_Op i \<Longrightarrow> ctl_step (po_slots p ! i) s \<Longrightarrow> pool_step pthread p (set_slot i s p)"
| unlock: "po_pc p = D_Op i \<Longrightarrow> sl_ctl (po_slots p ! i) = C_Idle \<Longrightarrow> pool_step pthread p (p\<lparr>po_pc := D_Free\<rparr>)"
| drain: "po_pc p = D_Free \<Longrightarrow> ts_is (po_main p) Ready \<Longrightarrow>
    pool_step pthread p (p\<lparr>po_main := ts_set (po_main p) ShuttingDown, po_pc := D_Begin 0\<rparr>)"
| begin': "po_pc p = D_Begin k \<Longrightarrow> s = po_slots p ! k \<Longrightarrow>
    pool_step pthread p (set_slot k (s\<lparr>sl_ctl := C_Shut\<rparr>) p\<lparr>po_pc := D_Beginning k\<rparr>)"
| drain_slot: "drained_slot (po_pc p) = Some k \<Longrightarrow> drain_step (po_pc p) (po_slots p ! k) s \<Longrightarrow>
    pool_step pthread p (set_slot k s p)"
| next': "drained_slot (po_pc p) = Some k \<Longrightarrow> k < length (po_slots p) \<Longrightarrow>
    pass_done (po_pc p) (sl_ctl (po_slots p ! k)) \<Longrightarrow>
    pool_step pthread p (p\<lparr>po_pc := next_slot (length (po_slots p)) (po_pc p)\<rparr>)"
| release: "po_pc p = D_Finish (length (po_slots p)) \<Longrightarrow>
    pool_step pthread p (p\<lparr>po_main := ts_set (po_main p) Done, po_pc := D_Main_Wait\<rparr>)"
| main_wakes: "po_main_pc p = M_Wait \<Longrightarrow> ts_current (po_main p) \<in> {Done, Rebooting} \<Longrightarrow>
    pool_step pthread p (p\<lparr>po_main_pc := M_Teardown\<rparr>)"
| main_exits: "po_main_pc p = M_Teardown \<Longrightarrow>
    pool_step pthread p (p\<lparr>po_main_pc := M_Gone, po_main := shutdown_main_state (po_main p)\<rparr>)"
| main_reserved: "po_pc p = D_Main_Wait \<Longrightarrow> ts_current (po_main p) = Reserved \<Longrightarrow>
    pool_step pthread p (p\<lparr>po_pc := D_Clear, po_metrics := False\<rparr>)"
| cleared: "po_pc p = D_Clear \<Longrightarrow> pool_step pthread p (p\<lparr>po_pc := D_Over\<rparr>)"

inductive pool_reachable :: "bool \<Rightarrow> ('s, 'k) pool \<Rightarrow> bool" for adverse where
  new: "pool_reachable adverse (pool_new n w)"
| step: "pool_reachable adverse p \<Longrightarrow> pool_step (php_step adverse) p p' \<Longrightarrow> pool_reachable adverse p'"

subsection \<open>What the drain has achieved for each slot\<close>

definition quiet :: "('s, 'k) slot \<Rightarrow> bool" where
  "quiet s = (sl_ctl s = C_Idle \<and> sl_php s = P_Absent \<and> pt_current (sl_thread s) = Reserved)"

definition stopping :: "('s, 'k) slot \<Rightarrow> bool" where
  "stopping s = (phase_of (sl_ctl s) = Stopping \<or> phase_of (sl_ctl s) = Stopped)"

lemma quiet_no_kill: "quiet s \<Longrightarrow> slot_inv e s \<Longrightarrow> pt_force_kill (sl_thread s) = None"
  by (simp add: quiet_def slot_inv_def content_ok_def)

definition beginning :: "('s, 'k) slot \<Rightarrow> bool" where
  "beginning s = (quiet s \<or> stopping s \<or> sl_ctl s = C_Shut \<or> sl_ctl s = C_Shut_Retry \<or>
     (\<exists>c. sl_ctl s = C_Shut_Parked c) \<or>
     sl_ctl s = C_Refused \<and> sl_php s = P_Absent \<and> pt_current (sl_thread s) \<in> {Reserved, Done})"

definition role :: "pool_pc \<Rightarrow> nat \<Rightarrow> ('s, 'k) slot \<Rightarrow> bool" where
  "role pc i s =
     (case pc of
        D_Free \<Rightarrow> sl_ctl s = C_Idle
      | D_Op j \<Rightarrow> i = j \<or> sl_ctl s = C_Idle
      | D_Begin k \<Rightarrow> (if i < k then quiet s \<or> stopping s else sl_ctl s = C_Idle)
      | D_Beginning k \<Rightarrow>
          (if i < k then quiet s \<or> stopping s else if i = k then beginning s else sl_ctl s = C_Idle)
      | D_Grace k \<Rightarrow> quiet s \<or> stopping s
      | D_Arm k \<Rightarrow> quiet s \<or> stopping s
      | D_Wait k \<Rightarrow> quiet s \<or> (if i < k then phase_of (sl_ctl s) = Stopped else stopping s)
      | D_Finish k \<Rightarrow> quiet s \<or> \<not> i < k \<and> phase_of (sl_ctl s) = Stopped
      | _ \<Rightarrow> quiet s)"

definition released :: "pool_pc \<Rightarrow> bool" where
  "released pc = (pc = D_Main_Wait \<or> pc = D_Clear \<or> pc = D_Over)"

definition pool_inv :: "bool \<Rightarrow> ('s, 'k) pool \<Rightarrow> bool" where
  "pool_inv e p =
     ((\<forall>i < length (po_slots p). slot_inv e (po_slots p ! i) \<and> role (po_pc p) i (po_slots p ! i)) \<and>
      (po_main_pc p \<noteq> M_Wait \<or> ts_current (po_main p) \<in> {Done, Rebooting} \<longrightarrow> released (po_pc p)))"

lemma php_step_ctl: "php_step e s s' \<Longrightarrow> sl_ctl s' = sl_ctl s"
  by (erule php_stepE)
    (auto simp: php_next_def Let_def park_simps deliver_def after_script_def
      split: php_pc.splits if_splits option.splits prod.splits)

lemma absent_no_php: "sl_php s = P_Absent \<Longrightarrow> \<not> php_step e s s'"
  by (auto elim: php_stepE simp: php_next_def Let_def)

lemma php_role: "php_step e s s' \<Longrightarrow> role pc i s \<Longrightarrow> role pc i s'"
  using absent_no_php [of s e s'] php_step_ctl [of e s s']
  by (auto simp: role_def quiet_def stopping_def beginning_def split: pool_pc.splits)

text \<open>Attaching a handler's sender keeps the role of its slot.\<close>

definition attach_entry :: "nat \<Rightarrow> ('s, 'k) slot \<Rightarrow> ('s, 'k) slot" where
  "attach_entry n s = s\<lparr>sl_entries := sl_entries s @ [n], sl_unattached := remove1 n (sl_unattached s)\<rparr>"

lemma role_attach: "role pc i (attach_entry n s) = role pc i s"
  by (simp add: role_def quiet_def stopping_def beginning_def attach_entry_def split: pool_pc.splits)

lemma stable_reserved:
  "stable_at e c p st \<Longrightarrow> st = Reserved \<or> st = Done \<Longrightarrow> p = P_Absent"
  by (cases "(e, c, p, st)" rule: stable_at.cases) auto

lemma stable_not_stopping: "stable_at e c p ShuttingDown = False"
  by (cases "(e, c, p, ShuttingDown)" rule: stable_at.cases) auto

lemma begin_role:
  assumes "slot_inv e s" "beginning s" "begin_shutdown_next s = Some s'"
  shows "beginning s'"
proof (cases "sl_ctl s")
  case C_Shut
  obtain v t where vt: "request_state ShuttingDown (sl_thread s) = (v, t)" by force
  have sta: "stable_at e C_Shut (sl_php s) (pt_current (sl_thread s))"
    using assms(1) C_Shut by (simp add: slot_inv_def php_ok_def)
  have "v = Some False \<Longrightarrow> t = sl_thread s \<and> pt_current (sl_thread s) \<in> {Reserved, ShuttingDown, Done}"
    using vt by (auto simp: request_state_def request_pass_def split: if_splits)
  with sta stable_reserved [OF sta] stable_not_stopping have "v = Some False \<Longrightarrow>
      t = sl_thread s \<and> sl_php s = P_Absent \<and> pt_current (sl_thread s) \<in> {Reserved, Done}" by auto
  with C_Shut vt assms(3) show ?thesis
    by (auto simp: begin_shutdown_next_def Let_def request_verdict_def beginning_def stopping_def
        park_simps split: option.splits bool.splits)
next
  case C_Shut_Retry
  with assms(3) wait_on_goes [of request_wait_states C_Shut_Parked C_Shut "sl_thread s"] show ?thesis
    by (auto simp: begin_shutdown_next_def Let_def beginning_def park_simps)
next
  case C_Shut_Close
  with assms show ?thesis
    by (auto simp: begin_shutdown_next_def Let_def beginning_def stopping_def slot_inv_def drain_ok_def
        close_drain_def drain_close_def park_simps split: prod.splits option.splits)
next
  case C_Refused
  with assms show ?thesis
    by (auto simp: begin_shutdown_next_def Let_def beginning_def stopping_def quiet_def cas_state_def
        compare_and_swap_def park_simps split: if_splits)
qed (use assms in \<open>auto simp: begin_shutdown_next_def Let_def beginning_def park_simps split: if_splits\<close>)

lemma stopping_no_idle: "stopping s \<Longrightarrow> sl_ctl s \<noteq> C_Idle"
  by (auto simp: stopping_def)

lemma wait_on_stopping:
  "phase_of r = Stopped \<Longrightarrow> (\<And>c. phase_of (q c) = Stopping) \<Longrightarrow>
    phase_of (fst (wait_on S q r t)) \<noteq> Stopped \<Longrightarrow> phase_of (fst (wait_on S q r t)) = Stopping"
  using wait_on_goes [of S q r t] by auto

lemma shutdown_next_stopping: "shutdown_next s = Some s' \<Longrightarrow> stopping s'"
  by (cases "sl_ctl s")
    (auto simp: shutdown_next_def Let_def stopping_def park_simps wait_on_stopping
      split: if_splits)

lemma finish_next_quiet:
  assumes "slot_inv e s" "finish_shutdown_next s = Some s'"
  shows "quiet s' \<or> phase_of (sl_ctl s') = Stopped"
  using assms
  by (cases "sl_ctl s")
    (auto simp: finish_shutdown_next_def Let_def quiet_def park_simps slot_inv_def php_ok_def)

text \<open>A step of a pass keeps the role of the slot it is on.\<close>

lemma drain_step_role:
  assumes "slot_inv e s" "role pc k s" "drained_slot pc = Some k" "drain_step pc s s'"
  shows "role pc k s'"
  using assms(4,1-3)
proof (induction rule: drain_step.induct)
  case (beginning s s' k')
  then show ?case using begin_role by (auto simp: role_def)
next
  case (grace s g c s' k')
  then show ?case using shutdown_next_stopping by (auto simp: role_def)
next
  case (expired s g c k')
  then show ?case by (simp add: role_def stopping_def park_simps)
next
  case (already pc k' s g)
  then show ?case by (auto simp: role_def stopping_def park_simps)
next
  case (arm s g s' k')
  then show ?case using shutdown_next_stopping by (auto simp: role_def)
next
  case (awaiting s g c s' k')
  then show ?case using shutdown_next_stopping by (auto simp: role_def)
next
  case (finish s s' k')
  then show ?case using finish_next_quiet by (auto simp: role_def)
qed

lemma drain_step_inv: "drain_step pc s s' \<Longrightarrow> slot_inv e s \<Longrightarrow> slot_inv e s'"
  by (induction rule: drain_step.induct)
    (auto intro: begin_shutdown_next_inv shutdown_next_inv timeout_slot_inv settled_inv
      finish_shutdown_next_inv)

text \<open>Moving on keeps every slot's role.\<close>

lemma pass_done_role:
  assumes "drained_slot pc = Some k" "k < n" "pass_done pc (sl_ctl (f k))"
    and "\<And>i. i < n \<Longrightarrow> role pc i (f i)" "i < n" "slot_inv e (f k)"
  shows "role (next_slot n pc) i (f i)"
proof (cases pc)
  case (D_Beginning k')
  then have "role pc k (f k)" "role pc i (f i)" using assms by auto
  moreover have "quiet (f k) \<or> stopping (f k)"
    using calculation(1) D_Beginning assms(1,3)
    by (auto simp: role_def beginning_def pass_done_def stopping_def quiet_def split: ctl_pc.splits)
  ultimately show ?thesis
    using D_Beginning assms(1,5) by (cases "i = k") (auto simp: role_def)
next
  case (D_Grace k')
  with assms show ?thesis by (auto simp: role_def dest!: spec [of _ i])
next
  case (D_Arm k')
  with assms(4) [OF assms(5)] assms(1) show ?thesis by (auto simp: role_def)
next
  case (D_Wait k')
  have r: "role pc k (f k)" "role pc i (f i)" using assms by auto
  have "quiet (f k) \<or> phase_of (sl_ctl (f k)) = Stopped"
    using r(1) D_Wait assms(1,3)
    by (auto simp: role_def pass_done_def stopping_def quiet_def split: ctl_pc.splits)
  with r D_Wait assms(1,5) show ?thesis by (cases "i = k") (auto simp: role_def)
next
  case (D_Finish k')
  have r: "role pc k (f k)" "role pc i (f i)" using assms by auto
  have "quiet (f k)"
    using r(1) D_Finish assms(1,3) by (auto simp: role_def pass_done_def quiet_def)
  with r D_Finish assms(1,2,5) show ?thesis by (cases "i = k") (auto simp: role_def)
qed (use assms(1) in simp_all)

lemma begin_wait_slot: "slot_inv e s \<Longrightarrow> sl_ctl s = C_Idle \<Longrightarrow> slot_inv e (s\<lparr>sl_ctl := C_Shut\<rparr>)"
  by (rule start_inv) auto

lemma set_slot_simps [simp]:
  "po_slots (set_slot i s p) = (po_slots p)[i := s]" "po_pc (set_slot i s p) = po_pc p"
  "po_main (set_slot i s p) = po_main p" "po_main_pc (set_slot i s p) = po_main_pc p"
  by (simp_all add: set_slot_def)

lemma pool_slot:
  assumes "pool_inv e p"
    and "i < length (po_slots p) \<Longrightarrow> slot_inv e s \<and> role (po_pc p) i s"
  shows "pool_inv e (set_slot i s p)"
proof (cases "i < length (po_slots p)")
  case True
  with assms show ?thesis by (auto simp: pool_inv_def nth_list_update)
next
  case False
  with assms(1) show ?thesis by (simp add: pool_inv_def list_update_beyond)
qed

lemma pool_step_inv: "pool_step (php_step e) p p' \<Longrightarrow> pool_inv e p \<Longrightarrow> pool_inv e p'"
proof (induction rule: pool_step.induct)
  case (php i p s)
  then show ?case
    by (intro pool_slot) (auto simp: pool_inv_def intro: php_step_inv php_role)
next
  case (attach i p s n)
  then have "slot_inv e s" "role (po_pc p) i s" by (simp_all add: pool_inv_def)
  moreover have "slot_inv e s \<Longrightarrow> slot_inv e (attach_entry n s)"
    using ctl_step_inv [OF ctl_step.attach [OF attach(3)]] by (simp add: attach_entry_def)
  ultimately show ?case
    using attach(4) pool_slot [of e p i "attach_entry n s"] by (simp add: role_attach) (simp add: attach_entry_def)
next
  case (op p i s)
  then show ?case by (intro pool_slot) (auto simp: pool_inv_def role_def intro: ctl_step_inv)
next
  case (begin' p k s)
  have idle: "k < length (po_slots p) \<Longrightarrow> sl_ctl s = C_Idle \<and> slot_inv e s"
    using begin' by (auto simp: pool_inv_def role_def dest!: spec [of _ k])
  have others: "i < length (po_slots p) \<Longrightarrow> i \<noteq> k \<Longrightarrow>
      slot_inv e (po_slots p ! i) \<and> role (D_Beginning k) i (po_slots p ! i)" for i
    using begin' by (auto simp: pool_inv_def role_def dest!: spec [of _ i])
  have new: "k < length (po_slots p) \<Longrightarrow>
      slot_inv e (s\<lparr>sl_ctl := C_Shut\<rparr>) \<and> role (D_Beginning k) k (s\<lparr>sl_ctl := C_Shut\<rparr>)"
    using idle begin_wait_slot by (auto simp: role_def beginning_def)
  have "\<not> released (po_pc p)" using begin'(1) by (simp add: released_def)
  with begin'(3) others new show ?case
    by (cases "k < length (po_slots p)")
      (auto simp: pool_inv_def set_slot_def nth_list_update list_update_beyond)
next
  case (drain_slot p k s)
  then show ?case
    by (intro pool_slot) (auto simp: pool_inv_def intro: drain_step_inv drain_step_role)
next
  case (next' p k)
  have "role (next_slot (length (po_slots p)) (po_pc p)) i (po_slots p ! i)" if "i < length (po_slots p)" for i
    using next' that by (intro pass_done_role [where k = k and e = e]) (auto simp: pool_inv_def)
  moreover have "released (po_pc p) = False"
    using next'(1) by (cases "po_pc p") (auto simp: released_def)
  ultimately show ?case using next' by (auto simp: pool_inv_def)
next
  case (unlock p i)
  then show ?case by (auto simp: pool_inv_def role_def released_def)
next
  case (main_exits p)
  then show ?case by (auto simp: pool_inv_def)
qed (auto simp: pool_inv_def role_def released_def ts_set_def ts_is_def)

lemma pool_new_inv: "pool_inv e (pool_new n w)"
proof -
  have "sl_ctl (slot_new i w) = C_Idle" for i by (simp add: slot_new_def)
  then show ?thesis
    by (auto simp: pool_inv_def pool_new_def role_def slot_new_inv ts_set_def ts_new_def
        released_def nth_append)
qed

lemma pool_reachable_inv: "pool_reachable e p \<Longrightarrow> pool_inv e p"
  by (induction rule: pool_reachable.induct) (auto intro: pool_new_inv pool_step_inv)

text \<open>A pthread's own steps are steps of the pool, and a slot of a reachable pool is a reachable slot.\<close>

lemma pool_step_own: "pool_step php_own p p' \<Longrightarrow> pool_step (php_step e) p p'"
  by (induction rule: pool_step.induct) (auto intro: pool_step.intros php_step.own)

lemma drain_step_ctl: "drain_step pc s s' \<Longrightarrow> ctl_step s s'"
  by (induction rule: drain_step.induct) (auto intro: ctl_step.intros)

definition slots_reachable :: "bool \<Rightarrow> ('s, 'k) pool \<Rightarrow> bool" where
  "slots_reachable e p = (\<forall>i < length (po_slots p). slot_reachable e (po_slots p ! i))"

lemma slots_reachable_set:
  "slots_reachable e p \<Longrightarrow> (i < length (po_slots p) \<Longrightarrow> slot_reachable e s) \<Longrightarrow> slots_reachable e (set_slot i s p)"
  by (cases "i < length (po_slots p)") (auto simp: slots_reachable_def nth_list_update list_update_beyond)

lemma slots_reachable_step:
  "pool_step (php_step e) p p' \<Longrightarrow> pool_inv e p \<Longrightarrow> slots_reachable e p \<Longrightarrow> slots_reachable e p'"
proof (induction rule: pool_step.induct)
  case (php i p s)
  then show ?case by (intro slots_reachable_set) (auto simp: slots_reachable_def intro: slot_reachable.php)
next
  case (attach i p s n)
  then have "ctl_step s (s\<lparr>sl_entries := sl_entries s @ [n], sl_unattached := remove1 n (sl_unattached s)\<rparr>)"
    by (intro ctl_step.attach)
  with attach show ?case by (intro slots_reachable_set) (auto simp: slots_reachable_def intro: slot_reachable.ctl)
next
  case (op p i s)
  then show ?case by (intro slots_reachable_set) (auto simp: slots_reachable_def intro: slot_reachable.ctl)
next
  case (begin' p k s)
  have "slot_reachable e (s\<lparr>sl_ctl := C_Shut\<rparr>)" if k: "k < length (po_slots p)"
  proof -
    have "sl_ctl s = C_Idle" using begin' k by (auto simp: pool_inv_def role_def dest!: spec [of _ k])
    then have "ctl_step s (s\<lparr>sl_ctl := C_Shut\<rparr>)" by (intro ctl_step.start) auto
    with begin' k show ?thesis by (auto simp: slots_reachable_def intro: slot_reachable.ctl)
  qed
  with begin'(4) have "slots_reachable e (set_slot k (s\<lparr>sl_ctl := C_Shut\<rparr>) p)" by (intro slots_reachable_set)
  then show ?case by (simp add: slots_reachable_def)
next
  case (drain_slot p k s)
  then show ?case
    by (intro slots_reachable_set) (auto simp: slots_reachable_def intro: slot_reachable.ctl drain_step_ctl)
qed (auto simp: slots_reachable_def)

lemma pool_slots_reachable: "pool_reachable e p \<Longrightarrow> slots_reachable e p"
proof (induction rule: pool_reachable.induct)
  case (new n w)
  show ?case by (auto simp: slots_reachable_def pool_new_def nth_append intro: slot_reachable.new)
qed (blast intro: slots_reachable_step pool_reachable_inv)

text \<open>C4. TSRM is torn down only when no PHP pthread is left. In every reachable state of a pool of any
  size, with the pthreads, handler changes, boots and shutdowns interleaved in any way before, once
  the main pthread has returned from its callback into the engine's teardown every slot's pthread
  has gone through its last callback, its slot is Reserved, and no force-kill slot of it is left;
  the same holds from the moment the main thread's state is Done.\<close>

theorem tsrm_teardown_after_all_pthreads:
  assumes "pool_reachable e p" "po_main_pc p \<noteq> M_Wait \<or> ts_is (po_main p) Done"
  shows "list_all (\<lambda>s. sl_php s = P_Absent \<and> pt_current (sl_thread s) = Reserved \<and>
     pt_force_kill (sl_thread s) = None \<and> sl_ctl s = C_Idle) (po_slots p)"
proof -
  have inv: "pool_inv e p" using pool_reachable_inv [OF assms(1)] .
  then have "released (po_pc p)" using assms(2) by (auto simp: pool_inv_def ts_is_def)
  then have "i < length (po_slots p) \<Longrightarrow> quiet (po_slots p ! i) \<and> slot_inv e (po_slots p ! i)" for i
    using inv by (auto simp: pool_inv_def role_def released_def)
  then have "i < length (po_slots p) \<Longrightarrow> quiet (po_slots p ! i) \<and>
      pt_force_kill (sl_thread (po_slots p ! i)) = None" for i
    using quiet_no_kill by blast
  then show ?thesis by (auto simp: list_all_length quiet_def)
qed

subsection \<open>Executing the pool\<close>

datatype move =
    Pthread nat | Op nat "(unit, unit) choice" | Lock nat | Unlock
  | Start_Drain | Begin_Slot | Drain_Slot | Next_Slot | Release | Main_Wakes

definition drain_next :: "pool_pc \<Rightarrow> ('s, 'k) slot \<Rightarrow> ('s, 'k) slot option" where
  "drain_next pc s =
     (case pc of
        D_Beginning k \<Rightarrow> begin_shutdown_next s
      | D_Grace k \<Rightarrow> (case sl_ctl s of C_Grace g \<Rightarrow> shutdown_next s | C_Graced g c \<Rightarrow> shutdown_next s | _ \<Rightarrow> None)
      | D_Finish k \<Rightarrow> finish_shutdown_next s
      | _ \<Rightarrow> None)"

fun pool_move :: "move \<Rightarrow> (unit, unit) pool \<Rightarrow> (unit, unit) pool option" where
  "pool_move (Pthread i) p =
     (if i < length (po_slots p) then map_option (\<lambda>s. set_slot i s p) (php_next 0 (po_slots p ! i)) else None)"
| "pool_move (Op i c) p =
     (if po_pc p = D_Op i then
        (case c of
           Ctl \<Rightarrow> map_option (\<lambda>s. set_slot i s p) (ctl_next (po_slots p ! i))
         | Start d \<Rightarrow> (if sl_ctl (po_slots p ! i) = C_Idle \<and> d \<in> {C_Claim, C_Boot, C_Shut}
                      then Some (set_slot i ((po_slots p ! i)\<lparr>sl_ctl := d\<rparr>) p) else None)
         | Launched \<Rightarrow> (if sl_ctl (po_slots p ! i) = C_Launch
                       then Some (set_slot i ((po_slots p ! i)\<lparr>sl_ctl := C_Boot_Wait, sl_php := P_Start\<rparr>) p) else None)
         | _ \<Rightarrow> None)
      else None)"
| "pool_move (Lock i) p =
     (if po_pc p = D_Free \<and> i < length (po_slots p) then Some (p\<lparr>po_pc := D_Op i\<rparr>) else None)"
| "pool_move Unlock p =
     (case po_pc p of
        D_Op i \<Rightarrow> (if sl_ctl (po_slots p ! i) = C_Idle then Some (p\<lparr>po_pc := D_Free\<rparr>) else None)
      | _ \<Rightarrow> None)"
| "pool_move Start_Drain p =
     (if po_pc p = D_Free \<and> ts_is (po_main p) Ready
      then Some (p\<lparr>po_main := ts_set (po_main p) ShuttingDown, po_pc := D_Begin 0\<rparr>) else None)"
| "pool_move Begin_Slot p =
     (case po_pc p of
        D_Begin k \<Rightarrow> Some (set_slot k ((po_slots p ! k)\<lparr>sl_ctl := C_Shut\<rparr>) p\<lparr>po_pc := D_Beginning k\<rparr>)
      | _ \<Rightarrow> None)"
| "pool_move Drain_Slot p =
     (case drained_slot (po_pc p) of
        Some k \<Rightarrow> map_option (\<lambda>s. set_slot k s p) (drain_next (po_pc p) (po_slots p ! k))
      | None \<Rightarrow> None)"
| "pool_move Next_Slot p =
     (case drained_slot (po_pc p) of
        Some k \<Rightarrow> (if k < length (po_slots p) \<and> pass_done (po_pc p) (sl_ctl (po_slots p ! k))
                   then Some (p\<lparr>po_pc := next_slot (length (po_slots p)) (po_pc p)\<rparr>) else None)
      | None \<Rightarrow> None)"
| "pool_move Release p =
     (if po_pc p = D_Finish (length (po_slots p))
      then Some (p\<lparr>po_main := ts_set (po_main p) Done, po_pc := D_Main_Wait\<rparr>) else None)"
| "pool_move Main_Wakes p =
     (if po_main_pc p = M_Wait \<and> ts_current (po_main p) \<in> {Done, Rebooting}
      then Some (p\<lparr>po_main_pc := M_Teardown\<rparr>) else None)"

lemma drain_next_step: "drain_next pc s = Some s' \<Longrightarrow> drain_step pc s s'"
  by (auto simp: drain_next_def intro: drain_step.intros split: pool_pc.splits ctl_pc.splits)

lemma pool_move_step: "pool_move m p = Some p' \<Longrightarrow> pool_step (php_step e) p p'"
  by (cases m)
    (auto intro: pool_step.intros drain_next_step php_run ctl_next_step ctl_step.start ctl_step.launched
      split: if_splits choice.splits pool_pc.splits option.splits)

interpretation pool_runs: kept_runs pool_move "\<lambda>_. True" "pool_reachable e" for e
  by unfold_locales (auto intro: pool_reachable.step pool_move_step)

definition drain_moves :: "move list" where
  "drain_moves = Lock 0 # map (Op 0) [Start C_Boot, Ctl, Ctl, Launched, Ctl] @ replicate 5 (Pthread 0) @
     [Op 0 Ctl, Unlock, Start_Drain, Begin_Slot, Drain_Slot, Drain_Slot, Next_Slot, Begin_Slot,
      Drain_Slot, Drain_Slot, Next_Slot, Drain_Slot] @ replicate 5 (Pthread 0) @
     [Drain_Slot, Next_Slot, Next_Slot, Next_Slot, Next_Slot, Next_Slot, Next_Slot,
      Drain_Slot, Drain_Slot, Next_Slot, Next_Slot, Release, Main_Wakes]"

text \<open>Two slots, the first booted, drained while it is parked as inactive.\<close>

lemma drain_run:
  "map_option (\<lambda>p. (po_main_pc p, length (po_slots p), sl_php (po_slots p ! 0)))
     (run_all pool_move drain_moves (pool_new 2 quiet_host)) = Some (M_Teardown, 2, P_Absent)"
  by code_simp

theorem tsrm_teardown_after_all_pthreads_witness:
  "\<exists>p :: (unit, unit) pool. pool_reachable False p \<and> po_main_pc p = M_Teardown \<and> length (po_slots p) = 2 \<and>
     list_all (\<lambda>s. sl_php s = P_Absent \<and> pt_current (sl_thread s) = Reserved \<and>
       pt_force_kill (sl_thread s) = None \<and> sl_ctl s = C_Idle) (po_slots p)"
proof -
  obtain p where p: "run_all pool_move drain_moves (pool_new 2 quiet_host) = Some p"
    "po_main_pc p = M_Teardown" "length (po_slots p) = 2"
    using drain_run by auto
  have r: "pool_reachable False p" by (rule pool_runs.run_kept [OF pool_reachable.new _ p(1)]) simp
  from tsrm_teardown_after_all_pthreads [OF r] r p(2,3) show ?thesis by (intro exI [of _ p]) simp
qed

end
