(* ===== verification/Callbacks.thy ===== *)
theory Callbacks
  imports ThreadPool Output Log "HOL-Library.Multiset"
begin

section \<open>The lifecycle and service callbacks\<close>

text \<open>
  \<^verbatim>\<open>callbacks/thread.rs\<close>, \<^verbatim>\<open>callbacks/misc.rs\<close> and the implemented part of \<^verbatim>\<open>callbacks/worker.rs\<close>: what C
  calls with a thread index. The thread callbacks work on the registry's list of threads, and an
  index it does not have is a diagnostic; the others go through the context table. A \<^verbatim>\<open>Once\<close> is a
  flag that is given and given back.
\<close>

subsection \<open>Thread callbacks\<close>

definition unknown_thread :: "string \<Rightarrow> nat \<Rightarrow> string" where
  "unknown_thread what thread_index = what @ '' for unknown thread '' @ fmt_nat thread_index"

text \<open>What a controller reports before it sends a kill signal; the grace period is thirty seconds.\<close>

definition report_force_kill :: "nat \<Rightarrow> state \<Rightarrow> string" where
  "report_force_kill thread_index st =
     ''force-killing thread '' @ fmt_nat thread_index @ '' after 30s in state '' @ state_fmt st"

text \<open>The results are the diagnostics, the force-kill slots released to C, and the threads.\<close>

definition go_frankenphp_store_force_kill_slot ::
  "nat \<Rightarrow> nat \<Rightarrow> php_thread list \<Rightarrow> string list \<times> nat list \<times> php_thread list"
where
  "go_frankenphp_store_force_kill_slot thread_index slot threads =
     (case thread_by_index threads thread_index of
        None \<Rightarrow> ([unknown_thread ''force-kill slot supplied'' thread_index], [slot], threads)
      | Some thread \<Rightarrow>
          (case store_force_kill_slot slot thread of
             (freed, thread) \<Rightarrow> ([], freed, threads[thread_index := thread])))"

definition go_frankenphp_clear_force_kill_slot ::
  "nat \<Rightarrow> php_thread list \<Rightarrow> string list \<times> nat list \<times> php_thread list"
where
  "go_frankenphp_clear_force_kill_slot thread_index threads =
     (case thread_by_index threads thread_index of
        None \<Rightarrow> ([unknown_thread ''force-kill clear'' thread_index], [], threads)
      | Some thread \<Rightarrow>
          (case clear_force_kill_slot thread of
             (freed, thread) \<Rightarrow> ([], freed, threads[thread_index := thread])))"

text \<open>The path the handler returned is always published; the pointer is its bytes.\<close>

definition go_frankenphp_before_script_execution ::
  "(php_thread \<Rightarrow> bytes option \<times> php_thread) \<Rightarrow> nat \<Rightarrow> php_thread list \<Rightarrow>
   string list \<times> bytes option \<times> php_thread list"
where
  "go_frankenphp_before_script_execution handler_before thread_index threads =
     (case thread_by_index threads thread_index of
        None \<Rightarrow> ([unknown_thread ''before-script callback'' thread_index], None, threads)
      | Some thread \<Rightarrow>
          (case handler_before thread of
             (None, thread) \<Rightarrow> ([], None, threads[thread_index := thread])
           | (Some path, thread) \<Rightarrow>
               ([], Some path, threads[thread_index := publish_script_path path thread])))"

definition go_frankenphp_after_script_execution ::
  "(32 word \<Rightarrow> php_thread \<Rightarrow> php_thread) \<Rightarrow> nat \<Rightarrow> 32 word \<Rightarrow> php_thread list \<Rightarrow> string list \<times> php_thread list"
where
  "go_frankenphp_after_script_execution handler_after thread_index exit_status threads =
     (case thread_by_index threads thread_index of
        None \<Rightarrow> ([unknown_thread ''after-script callback'' thread_index], threads)
      | Some thread \<Rightarrow>
          ((if sint exit_status < 0
            then [''PHP script on thread '' @ fmt_nat thread_index @ '' returned negative status '' @
                  fmt_int (sint exit_status)]
            else []),
           threads[thread_index := release_script_path (handler_after exit_status thread)]))"

definition go_frankenphp_on_thread_shutdown ::
  "nat \<Rightarrow> php_thread list \<Rightarrow> string list \<times> php_thread list"
where
  "go_frankenphp_on_thread_shutdown thread_index threads =
     (case thread_by_index threads thread_index of
        None \<Rightarrow> ([unknown_thread ''shutdown callback'' thread_index], threads)
      | Some thread \<Rightarrow>
          (let thread = release_script_path thread
           in ([], threads[thread_index := set_state (shutdown_target (ts_get (pt_state thread))) thread])))"

subsection \<open>Service callbacks\<close>

definition go_is_context_done :: "nat \<Rightarrow> ('s, 'k) slots_table \<Rightarrow> (slot_error + bool) \<times> ('s, 'k) slots_table" where
  "go_is_context_done thread_index s =
     slots_with_context thread_index
       (read_closure (\<lambda>ctx. Inr (case ctx of Some ctx \<Rightarrow> ctx_is_done ctx | None \<Rightarrow> True))) s"

text \<open>Closing fires the completion signal: the world after it is the closure's result.\<close>

definition close_closure ::
  "host \<Rightarrow> ('s, 'k) request_context option \<Rightarrow> (slot_error + host) \<times> ('s, 'k) request_context option"
where
  "close_closure w slot =
     (case slot of
        None \<Rightarrow> (Inr w, None)
      | Some ctx \<Rightarrow> (case close_context ctx w of (ctx, w) \<Rightarrow> (Inr w, Some ctx)))"

definition go_frankenphp_finish_php_request ::
  "host \<Rightarrow> nat \<Rightarrow> ('s, 'k) slots_table \<Rightarrow> (slot_error + host) \<times> ('s, 'k) slots_table"
where
  "go_frankenphp_finish_php_request w thread_index s =
     slots_with_context_mut thread_index (pure_closure (close_closure w)) s"

text \<open>\<^verbatim>\<open>RegularThread::after_script_execution\<close> on the table: two calls, not nested.\<close>

definition regular_after_script ::
  "host \<Rightarrow> nat \<Rightarrow> ('s, 'k) slots_table \<Rightarrow> (slot_error + host) \<times> ('s, 'k) slots_table"
where
  "regular_after_script w thread_index s =
     (case slots_with_context_mut thread_index (pure_closure (close_closure w)) s of
        (Inl e, s) \<Rightarrow> (Inl e, s)
      | (Inr w, s) \<Rightarrow>
          (case slots_clear thread_index s of (Inl e, s) \<Rightarrow> (Inl e, s) | (Inr _, s) \<Rightarrow> (Inr w, s)))"

definition putenv_notice :: "bool \<Rightarrow> bool \<times> bool \<times> log_record list" where
  "putenv_notice once =
     (case log_once once WARN
        (\<lambda>_. ''putenv() was called, but frankenrust does not sandbox the process '' @
             ''environment: the change is visible to this PHP interpreter's own '' @
             ''getenv()/$_ENV, but not to any process this server spawns afterwards'')
        (\<lambda>_. []) of (once, records) \<Rightarrow> (True, once, records))"

definition opcache_reset_notice :: "bool \<Rightarrow> bool \<times> log_record list" where
  "opcache_reset_notice once =
     log_once once WARN
       (\<lambda>_. ''opcache_reset() was called, but frankenrust does not implement '' @
            ''rebooting PHP threads to pick up a fresh opcache; the request '' @
            ''continues without one'')
       (\<lambda>_. [])"

record go_mercure_publish_return =
  mercure_r0 :: "bytes option"
  mercure_r1 :: nat

definition mercure_publish_notice :: "bool \<Rightarrow> go_mercure_publish_return \<times> bool \<times> log_record list" where
  "mercure_publish_notice once =
     (case log_once once WARN
        (\<lambda>_. ''mercure_publish() was called, but frankenrust is not built with Mercure support'')
        (\<lambda>_. []) of (once, records) \<Rightarrow> (\<lparr>mercure_r0 = None, mercure_r1 = 3\<rparr>, once, records))"

subsection \<open>Force-kill slots are released exactly once\<close>

datatype kill_call = Store_Slot nat nat | Clear_Slot nat

fun kill_calls :: "kill_call list \<Rightarrow> php_thread list \<Rightarrow> nat list \<times> php_thread list" where
  "kill_calls [] threads = ([], threads)"
| "kill_calls (Store_Slot i slot # calls) threads =
     (case go_frankenphp_store_force_kill_slot i slot threads of
        (_, freed, threads) \<Rightarrow>
          (case kill_calls calls threads of (later, threads) \<Rightarrow> (freed @ later, threads)))"
| "kill_calls (Clear_Slot i # calls) threads =
     (case go_frankenphp_clear_force_kill_slot i threads of
        (_, freed, threads) \<Rightarrow>
          (case kill_calls calls threads of (later, threads) \<Rightarrow> (freed @ later, threads)))"

fun supplied :: "kill_call list \<Rightarrow> nat list" where
  "supplied [] = []"
| "supplied (Store_Slot i slot # calls) = slot # supplied calls"
| "supplied (Clear_Slot i # calls) = supplied calls"

definition stored :: "php_thread list \<Rightarrow> nat multiset" where
  "stored threads = \<Sum>\<^sub># (mset (map (\<lambda>t. mset (send_kill_signal t)) threads))"

lemma stored_update:
  assumes "i < length threads"
  shows "stored (threads[i := t]) + mset (send_kill_signal (threads ! i)) =
    stored threads + mset (send_kill_signal t)"
proof -
  let ?f = "\<lambda>t. mset (send_kill_signal t)"
  have "mset (map ?f (threads[i := t])) = mset (map ?f threads) - {#?f (threads ! i)#} + {#?f t#}"
    using assms by (simp add: map_update mset_update)
  moreover have "?f (threads ! i) \<in># mset (map ?f threads)" using assms by simp
  ultimately show ?thesis
    unfolding stored_def by (simp add: sum_mset.remove)
qed

text \<open>No force-kill slot leaks and none is released twice. Over any sequence of store and clear
  callbacks, for known and unknown thread indices in any order, the slots C supplied, with those
  stored before, are exactly the slots handed back for release, with those still stored; and each
  kill signal is sent through a slot that is stored at that moment.\<close>

theorem force_kill_slots_conserved:
  "mset (fst (kill_calls calls threads)) + stored (snd (kill_calls calls threads)) =
     mset (supplied calls) + stored threads \<and>
   length (snd (kill_calls calls threads)) = length threads"
proof (induction calls threads rule: kill_calls.induct)
  case (2 i slot calls threads)
  obtain d r ts where s: "go_frankenphp_store_force_kill_slot i slot threads = (d, r, ts)"
    by (metis prod_cases3)
  have "mset r + stored ts = {#slot#} + stored threads \<and> length ts = length threads"
  proof (cases "i < length threads")
    case True
    with s stored_update [OF True, of "(threads ! i)\<lparr>pt_force_kill := Some slot\<rparr>"] show ?thesis
      by (auto simp: go_frankenphp_store_force_kill_slot_def thread_by_index_def store_force_kill_slot_def
          send_kill_signal_def split: option.splits)
  next
    case False
    with s show ?thesis by (auto simp: go_frankenphp_store_force_kill_slot_def thread_by_index_def)
  qed
  with 2 [OF s [symmetric] refl] s show ?case
    by (cases "kill_calls calls ts") (auto simp: add.assoc add.left_commute)
next
  case (3 i calls threads)
  obtain d r ts where s: "go_frankenphp_clear_force_kill_slot i threads = (d, r, ts)"
    by (metis prod_cases3)
  have "mset r + stored ts = stored threads \<and> length ts = length threads"
  proof (cases "i < length threads")
    case True
    with s stored_update [OF True, of "(threads ! i)\<lparr>pt_force_kill := None\<rparr>"] show ?thesis
      by (auto simp: go_frankenphp_clear_force_kill_slot_def thread_by_index_def clear_force_kill_slot_def
          send_kill_signal_def split: option.splits)
  next
    case False
    with s show ?thesis by (auto simp: go_frankenphp_clear_force_kill_slot_def thread_by_index_def)
  qed
  with 3 [OF s [symmetric] refl] s show ?case
    by (cases "kill_calls calls ts") (auto simp: add.assoc add.left_commute)
qed simp

subsection \<open>A request completes once\<close>

lemma slots_clear_pure:
  assumes "\<not> holding_slot_lock s"
  obtains s' where "slots_clear i s = (Inr (), s')" "slots_abs s' = (slots_abs s)(i := None)"
    "\<not> holding_slot_lock s'"
  using assms that by (simp add: slots_clear_def guard_acquire_def Let_def)

lemma close_table:
  assumes "\<not> holding_slot_lock s"
  obtains s' where "slots_with_context_mut i (pure_closure (close_closure w)) s =
      (fst (close_closure w (slots_abs s i)), s')"
    "slots_abs s' = (slots_abs s)(i := snd (close_closure w (slots_abs s i)))" "\<not> holding_slot_lock s'"
  using with_context_mut_pure [OF assms] by blast

text \<open>Userland finishes the request a number of times while its script runs.\<close>

primrec finish_times ::
  "nat \<Rightarrow> host \<Rightarrow> nat \<Rightarrow> ('s, 'k) slots_table \<Rightarrow> (slot_error + host) \<times> ('s, 'k) slots_table"
where
  "finish_times 0 w i s = (Inr w, s)"
| "finish_times (Suc n) w i s =
     (case go_frankenphp_finish_php_request w i s of
        (Inl e, s) \<Rightarrow> (Inl e, s)
      | (Inr w, s) \<Rightarrow> finish_times n w i s)"

lemma is_done_read:
  "\<not> holding_slot_lock t \<Longrightarrow>
     fst (go_is_context_done i t) = Inr (case slots_abs t i of Some c \<Rightarrow> ctx_is_done c | None \<Rightarrow> True)"
  for t :: "('s, 'k) slots_table"
  unfolding go_is_context_done_def using with_context_read by (metis fst_conv)

lemma close_done: "ctx_is_done ctx \<Longrightarrow> close_context ctx w = (ctx, w)"
  by (simp add: close_context_def)

lemma close_fires:
  "\<not> ctx_is_done ctx \<Longrightarrow> ctx_completion_signal ctx = signal_new fire \<Longrightarrow>
     snd (close_context ctx w) = fire w \<and> ctx_is_done (fst (close_context ctx w))"
  by (simp add: close_context_def signal_new_def signal_fire_def Let_def)

text \<open>The second and later times find the context done and change neither it nor the world.\<close>

lemma finish_again:
  assumes "\<not> holding_slot_lock s" "slots_abs s i = Some ctx" "ctx_is_done ctx"
  obtains s' where "finish_times n w i s = (Inr w, s')" "slots_abs s' = slots_abs s" "\<not> holding_slot_lock s'"
  using assms(1,2)
proof (induction n arbitrary: s thesis)
  case (Suc n)
  obtain s1 where s1: "slots_with_context_mut i (pure_closure (close_closure w)) s = (Inr w, s1)"
    "slots_abs s1 = slots_abs s" "\<not> holding_slot_lock s1"
    using close_table [OF Suc.prems(2), of i w] Suc.prems(3) assms(3)
    by (auto simp: close_closure_def close_done fun_upd_idem)
  then have "slots_abs s1 i = Some ctx" using Suc.prems(3) by simp
  from Suc.IH [OF _ s1(3) this] obtain s2 where s2: "finish_times n w i s1 = (Inr w, s2)"
    "slots_abs s2 = slots_abs s1" "\<not> holding_slot_lock s2" by blast
  with s1 have "finish_times (Suc n) w i s = (Inr w, s2)"
    by (simp add: go_frankenphp_finish_php_request_def)
  from Suc.prems(1) [OF this] s1(2) s2(2,3) show thesis by simp
qed simp

lemma finish_first:
  assumes "\<not> holding_slot_lock s" "slots_abs s i = Some ctx" "\<not> ctx_is_done ctx"
    and "ctx_completion_signal ctx = signal_new fire"
  obtains s' where "finish_times (Suc n) w i s = (Inr (fire w), s')"
    "slots_abs s' = (slots_abs s)(i \<mapsto> fst (close_context ctx w))" "\<not> holding_slot_lock s'"
proof -
  note fires = close_fires [OF assms(3,4), of w]
  obtain s1 where s1: "slots_with_context_mut i (pure_closure (close_closure w)) s = (Inr (fire w), s1)"
    "slots_abs s1 = (slots_abs s)(i \<mapsto> fst (close_context ctx w))" "\<not> holding_slot_lock s1"
    using close_table [OF assms(1), of i w] assms(2) fires by (auto simp: close_closure_def split_def)
  have "slots_abs s1 i = Some (fst (close_context ctx w))" using s1(2) by simp
  from finish_again [OF s1(3) this conjunct2 [OF fires], of n "fire w"] obtain s2 where
    "finish_times n (fire w) i s1 = (Inr (fire w), s2)" "slots_abs s2 = slots_abs s1" "\<not> holding_slot_lock s2" .
  with s1 show thesis by (intro that [of s2]) (simp_all add: go_frankenphp_finish_php_request_def)
qed

lemma after_script_closes:
  assumes "\<not> holding_slot_lock s" "slots_abs s i = Some ctx"
  obtains s' where "regular_after_script w i s = (Inr (snd (close_context ctx w)), s')"
    "slots_abs s' = (slots_abs s)(i := None)" "\<not> holding_slot_lock s'"
proof -
  obtain s1 where s1: "slots_with_context_mut i (pure_closure (close_closure w)) s = (Inr (snd (close_context ctx w)), s1)"
    "slots_abs s1 = (slots_abs s)(i \<mapsto> fst (close_context ctx w))" "\<not> holding_slot_lock s1"
    using close_table [OF assms(1), of i w] assms(2) by (auto simp: close_closure_def split_def)
  obtain s2 where "slots_clear i s1 = (Inr (), s2)" "slots_abs s2 = (slots_abs s1)(i := None)" "\<not> holding_slot_lock s2"
    by (rule slots_clear_pure [OF s1(3)])
  with s1 show thesis by (intro that [of s2]) (simp_all add: regular_after_script_def)
qed

text \<open>C19. A request's completion signal fires exactly once, however often userland finishes the request
  before its script ends. For an installed request that is not done and whose signal does \<open>fire\<close> to the
  world: finishing it \<open>n\<close> times applies \<open>fire\<close> once if \<open>n\<close> is not zero and leaves the world alone
  otherwise, the context stays installed and reports itself done from the first time on; the end of
  the script then applies \<open>fire\<close> to whatever the world has become if it was never finished and nothing
  otherwise, and leaves the slot empty, which also reports done.\<close>

theorem completion_fires_once:
  assumes "\<not> holding_slot_lock s" "slots_abs s i = Some ctx" "\<not> ctx_is_done ctx"
    and "ctx_completion_signal ctx = signal_new fire"
  shows "\<exists>s1 s2. finish_times n w i s = (Inr (if n = 0 then w else fire w), s1) \<and>
     slots_abs s1 i = Some (if n = 0 then ctx else fst (close_context ctx w)) \<and>
     fst (go_is_context_done i s1) = Inr (n \<noteq> 0) \<and>
     regular_after_script w' i s1 = (Inr (if n = 0 then fire w' else w'), s2) \<and>
     slots_abs s2 = (slots_abs s)(i := None) \<and> fst (go_is_context_done i s2) = Inr True"
proof (cases n)
  case 0
  obtain s2 where "regular_after_script w' i s = (Inr (snd (close_context ctx w')), s2)"
    "slots_abs s2 = (slots_abs s)(i := None)" "\<not> holding_slot_lock s2"
    by (rule after_script_closes [OF assms(1,2)])
  with 0 assms close_fires [OF assms(3,4)] show ?thesis by (simp add: is_done_read)
next
  case (Suc m)
  obtain s1 where s1: "finish_times n w i s = (Inr (fire w), s1)"
    "slots_abs s1 = (slots_abs s)(i \<mapsto> fst (close_context ctx w))" "\<not> holding_slot_lock s1"
    unfolding Suc by (rule finish_first [OF assms])
  have d: "ctx_is_done (fst (close_context ctx w))" using close_fires [OF assms(3,4)] by blast
  have "slots_abs s1 i = Some (fst (close_context ctx w))" using s1(2) by simp
  from after_script_closes [OF s1(3) this, of w'] obtain s2 where
    "regular_after_script w' i s1 = (Inr w', s2)" "slots_abs s2 = (slots_abs s1)(i := None)" "\<not> holding_slot_lock s2"
    by (auto simp: close_done [OF d])
  with s1 Suc d show ?thesis by (simp add: is_done_read del: finish_times.simps)
qed

text \<open>A request on thread 0 whose signal releases waiter 3: finished twice, it releases it once.\<close>

definition waiting_request :: "(nat, nat) request_context" where
  "waiting_request =
     context_new [] None None (signal_new (\<lambda>w. w\<lparr>host_released := host_released w @ [3]\<rparr>))"

theorem completion_fires_once_witness:
  "let w = \<lparr>host_flags = (\<lambda>_. False), host_released = []\<rparr>;
       s = snd (slots_set 0 waiting_request slots_new)
   in \<exists>s1 s2. finish_times 2 w 0 s = (Inr (w\<lparr>host_released := [3]\<rparr>), s1) \<and>
      regular_after_script (w\<lparr>host_released := [3]\<rparr>) 0 s1 = (Inr (w\<lparr>host_released := [3]\<rparr>), s2) \<and>
      slots_abs s2 0 = None"
proof -
  let ?w = "\<lparr>host_flags = (\<lambda>_. False), host_released = []\<rparr>"
  let ?s = "snd (slots_set 0 waiting_request slots_new)"
  let ?fire = "\<lambda>w :: host. w\<lparr>host_released := host_released w @ [3]\<rparr>"
  have h: "\<not> holding_slot_lock ?s" "slots_abs ?s 0 = Some waiting_request" "\<not> ctx_is_done waiting_request"
    "ctx_completion_signal waiting_request = signal_new ?fire"
    by (simp_all add: slots_set_def guard_acquire_def slots_new_def Let_def waiting_request_def
        context_new_def)
  from completion_fires_once [OF h, of 2 ?w "?w\<lparr>host_released := [3]\<rparr>"] show ?thesis
    unfolding Let_def by auto
qed

end
