(* ===== verification/PoolInit.thy ===== *)
theory PoolInit
  imports ThreadPool
begin

section \<open>Starting and draining a generation of PHP threads\<close>

text \<open>
  \<^verbatim>\<open>init_php_threads\<close> and \<^verbatim>\<open>drain_php_threads\<close> of \<^verbatim>\<open>thread.rs\<close> as functions of the registry. What C and
  the operating system answer is an argument: the result of \<^verbatim>\<open>frankenphp_new_main_thread\<close>, the memory
  limit, the system's memory, and what booting each slot gives. What they do besides is the list of
  their calls into C and their waits, in order. \<^verbatim>\<open>Arc::ptr_eq\<close> compares the identities of main threads.
  The operations of a single slot are those of \<^verbatim>\<open>SlotProtocol\<close>, and \<^verbatim>\<open>ThreadPool\<close> interleaves the drain
  with the pthreads.
\<close>

datatype init_event =
    New_Main_Thread "32 word" | Wait_Main state | Set_Main state
  | Init_Metrics "32 word" | Destroy_Metrics | Boot nat | Drain_Slots nat

text \<open>The registry and the calls of \<^verbatim>\<open>drain_generation\<close>.\<close>

definition drain_events :: "nat \<Rightarrow> ('m, 't) registry \<Rightarrow> init_event list \<times> ('m, 't) registry" where
  "drain_events slot_count installed =
     ([Set_Main ShuttingDown, Drain_Slots slot_count, Set_Main Done, Wait_Main Reserved] @
      (if reg_metrics_initialized installed then [Destroy_Metrics] else []),
      installed\<lparr>reg_metrics_initialized := False\<rparr>)"

text \<open>Booting stops at the first error.\<close>

fun boot_all :: "(nat \<Rightarrow> thread_error option) \<Rightarrow> nat list \<Rightarrow> init_event list \<times> thread_error option" where
  "boot_all boot [] = ([], None)"
| "boot_all boot (i # is) =
     (case boot i of
        Some e \<Rightarrow> ([Boot i], Some e)
      | None \<Rightarrow> (case boot_all boot is of (ev, res) \<Rightarrow> (Boot i # ev, res)))"

definition init_php_threads ::
  "32 word \<Rightarrow> 64 word \<Rightarrow> 64 word \<Rightarrow> (nat \<Rightarrow> thread_error option) \<Rightarrow> 'm \<Rightarrow> (nat \<Rightarrow> 't) \<Rightarrow>
   64 word \<Rightarrow> max_threads \<Rightarrow> ini \<Rightarrow> ('m, 't) registry \<Rightarrow>
   (thread_error + php_main_thread) \<times> init_event list \<times> ('m, 't) registry"
where
  "init_php_threads main_result memory_limit system_memory boot this new_thread
      num_threads max_threads php_ini installed =
     (case validate_thread_counts num_threads max_threads of
        Inl e \<Rightarrow> (Inl e, [], installed)
      | Inr _ \<Rightarrow>
     (case install_initial this (new_thread 0) installed of
        Inl e \<Rightarrow> (Inl e, [], installed)
      | Inr installed \<Rightarrow>
     (let main = main_thread_new num_threads max_threads php_ini;
          start = New_Main_Thread (ucast num_threads)
      in if main_result \<noteq> 0 then
           (Inl (Main_Thread_Creation main_result),
            start # (if main_result \<noteq> -1
                     then [Wait_Main Ready, Set_Main Done, Wait_Main Reserved] else []),
            clear_registry this installed)
         else
           (let main = publish_ready memory_limit system_memory main;
                final_max_threads = mt_max_threads main;
                installed = install_threads (unat final_max_threads) new_thread (new_thread 0) installed;
                slot_count = length (reg_threads installed);
                before = [start, Wait_Main Ready, Init_Metrics (ucast final_max_threads)]
            in case boot_all boot (take (unat num_threads) [0..<slot_count]) of
                 (ev, None) \<Rightarrow> (Inr main, before @ ev, installed)
               | (ev, Some e) \<Rightarrow>
                   (case drain_events slot_count installed of
                      (drained, installed) \<Rightarrow>
                        (Inl e, before @ ev @ drained, clear_registry this installed))))))"

definition drain_php_threads :: "bool \<Rightarrow> ('m, 't) registry \<Rightarrow> init_event list \<times> ('m, 't) registry" where
  "drain_php_threads main_ready installed =
     (case reg_main installed of
        None \<Rightarrow> ([], installed)
      | Some main \<Rightarrow>
          (if \<not> main_ready then ([], installed)
           else case drain_events (length (reg_threads installed)) installed of
                  (ev, installed) \<Rightarrow> (ev, clear_registry main installed)))"

subsection \<open>What a start leaves behind\<close>

lemma boot_all_ok:
  "boot_all boot is = (ev, None) \<Longrightarrow> ev = map Boot is \<and> (\<forall>i\<in>set is. boot i = None)"
  by (induction "is" arbitrary: ev) (auto split: option.splits prod.splits)

lemma boot_all_failed:
  "boot_all boot is = (ev, Some e) \<Longrightarrow>
     \<exists>ok i rest. is = ok @ i # rest \<and> (\<forall>j\<in>set ok. boot j = None) \<and> boot i = Some e \<and> ev = map Boot (ok @ [i])"
proof (induction "is" arbitrary: ev)
  case (Cons j js)
  show ?case
  proof (cases "boot j")
    case None
    with Cons.prems obtain ev' where ev': "boot_all boot js = (ev', Some e)" "ev = Boot j # ev'"
      by (auto split: prod.splits)
    from Cons.IH [OF ev'(1)] obtain ok i rest where
      "js = ok @ i # rest" "\<forall>k\<in>set ok. boot k = None" "boot i = Some e" "ev' = map Boot (ok @ [i])" by blast
    with None ev' show ?thesis
      by (intro exI [of _ "j # ok"] exI [of _ i] exI [of _ rest]) auto
  next
    case (Some e')
    with Cons.prems show ?thesis by (intro exI [of _ "[]"] exI [of _ j] exI [of _ js]) auto
  qed
qed simp

definition empty_generation :: "('m, 't) registry \<Rightarrow> bool" where
  "empty_generation r = (reg_main r = None \<and> reg_threads r = [] \<and> \<not> reg_metrics_initialized r)"

lemma resolve_ge: "num \<le> resolve_max_threads num req limit mem"
  by (simp add: resolve_max_threads_def)

lemma slots_taken: "num \<le> final \<Longrightarrow> take (unat num) [0..<Suc (unat final - 1)] = [0..<unat (num :: 64 word)]"
  by (auto simp: take_upt min_def word_le_nat_alt simp del: upt_Suc)

lemma init_outcome:
  "(case init_php_threads main_result limit mem boot this new_thread num req php_ini r of
      (res, ev, r') \<Rightarrow>
        if validate_thread_counts num req \<noteq> Inr () then
          res = Inl (Invalid_Thread_Count num req) \<and> ev = [] \<and> r' = r
        else if reg_main r \<noteq> None then res = Inl Already_Initialized \<and> ev = [] \<and> r' = r
        else (case res of
            Inl e \<Rightarrow> empty_generation r' \<and>
              count_list ev Destroy_Metrics = length (filter (\<lambda>x. \<exists>n. x = Init_Metrics n) ev)
          | Inr main \<Rightarrow>
              reg_main r' = Some this \<and> reg_metrics_initialized r' \<and> mt_num_threads main = num \<and>
              num \<le> mt_max_threads main \<and>
              reg_threads r' = map new_thread [0..<max 1 (unat (mt_max_threads main))] \<and>
              ev = [New_Main_Thread (ucast num), Wait_Main Ready, Init_Metrics (ucast (mt_max_threads main))] @
                   map Boot [0..<unat num]))"
proof (cases "validate_thread_counts num req")
  case (Inl e)
  then show ?thesis
    by (auto simp: init_php_threads_def validate_thread_counts_def split: if_splits)
next
  case ok: (Inr u)
  define main where "main = publish_ready limit mem (main_thread_new num req php_ini)"
  define final where "final = mt_max_threads main"
  have final: "num \<le> final" "mt_num_threads main = num"
    by (auto simp: final_def main_def publish_ready_def Let_def finalize_max_threads_def main_thread_new_def resolve_ge split: max_threads.splits)
  have len: "length (new_thread 0 # map new_thread [1..<unat final]) = Suc (unat final - 1)" by simp
  have slots: "new_thread 0 # map new_thread [1..<unat final] = map new_thread [0..<max 1 (unat final)]"
    by (cases "unat final") (auto simp: upt_rec)
  show ?thesis
  proof (cases "reg_main r \<noteq> None \<or> main_result \<noteq> 0")
    case True
    with ok show ?thesis
      by (auto simp: init_php_threads_def install_initial_def clear_registry_def empty_generation_def Let_def)
  next
    case False
    obtain ev res where b: "boot_all boot [0..<unat num] = (ev, res)" by force
    have init: "init_php_threads main_result limit mem boot this new_thread num req php_ini r =
      (case (ev, res) of
         (ev, None) \<Rightarrow> (Inr main, [New_Main_Thread (ucast num), Wait_Main Ready, Init_Metrics (ucast final)] @ ev,
            install_threads (unat final) new_thread (new_thread 0)
              (r\<lparr>reg_main := Some this, reg_threads := [new_thread 0], reg_metrics_initialized := False\<rparr>))
       | (ev, Some e) \<Rightarrow> (Inl e, [New_Main_Thread (ucast num), Wait_Main Ready, Init_Metrics (ucast final)] @ ev @
            [Set_Main ShuttingDown, Drain_Slots (Suc (unat final - 1)), Set_Main Done, Wait_Main Reserved, Destroy_Metrics],
            r\<lparr>reg_main := None, reg_threads := [], reg_metrics_initialized := False\<rparr>))"
      using ok False b slots_taken [OF final(1)]
      by (auto simp: init_php_threads_def install_initial_def install_threads_def clear_registry_def
          drain_events_def Let_def main_def [symmetric] final_def [symmetric] simp del: upt_Suc split: option.splits)
    show ?thesis
    proof (cases res)
      case None
      with init ok False final slots boot_all_ok [of boot "[0..<unat num]" ev] b show ?thesis
        by (auto simp: install_threads_def final_def)
    next
      case (Some e)
      with boot_all_failed [of boot "[0..<unat num]" ev e] b obtain js where "ev = map Boot js" by blast
      then have "count_list ev Destroy_Metrics = 0" "filter (\<lambda>x. \<exists>n. x = Init_Metrics n) ev = []"
        by (auto simp: count_list_0_iff)
      with Some init ok False show ?thesis by (auto simp: empty_generation_def)
    qed
  qed
qed

text \<open>C20. Starting a generation succeeds as a whole or leaves nothing. Counts out of range and a second start
  change nothing and call nothing. Otherwise a failure, of the main pthread or of any slot, ends with
  an empty registry, so that a later start is possible, and with the metrics array freed exactly when
  it was made; a success has the main thread and all its slots installed and has booted exactly
  the slots below \<^verbatim>\<open>num_threads\<close>, in order, each after the metrics array was made, which was after the
  main thread was ready.\<close>

theorem init_php_threads_all_or_nothing:
  "(case init_php_threads main_result limit mem boot this new_thread num req php_ini r of
      (res, ev, r') \<Rightarrow>
        if validate_thread_counts num req \<noteq> Inr () then
          res = Inl (Invalid_Thread_Count num req) \<and> ev = [] \<and> r' = r
        else if reg_main r \<noteq> None then res = Inl Already_Initialized \<and> ev = [] \<and> r' = r
        else (case res of
            Inl e \<Rightarrow> empty_generation r' \<and>
              count_list ev Destroy_Metrics = length (filter (\<lambda>x. \<exists>n. x = Init_Metrics n) ev)
          | Inr main \<Rightarrow>
              reg_main r' = Some this \<and> reg_metrics_initialized r' \<and> mt_num_threads main = num \<and>
              num \<le> mt_max_threads main \<and>
              reg_threads r' = map new_thread [0..<max 1 (unat (mt_max_threads main))] \<and>
              ev = [New_Main_Thread (ucast num), Wait_Main Ready, Init_Metrics (ucast (mt_max_threads main))] @
                   map Boot [0..<unat num]))"
  by (rule init_outcome)

subsection \<open>The metrics array and the slots\<close>

lemma sint_ucast_covers:
  fixes final :: "64 word"
  shows "int (max 1 (unat final)) \<le> sint (ucast final :: 32 word) \<longleftrightarrow> final \<noteq> 0 \<and> unat final \<le> c_int_max"
proof (cases "unat final \<le> c_int_max")
  case True
  then have "unat final < 2 ^ 31" by (simp add: c_int_max_def)
  then have u: "unat (ucast final :: 32 word) = unat final"
    by (simp add: unsigned_ucast_eq take_bit_nat_eq_self)
  then have "uint (ucast final :: 32 word) < 2 ^ 31"
    using \<open>unat final < 2 ^ 31\<close> by (metis of_nat_less_iff of_nat_numeral of_nat_power uint_nat)
  then have "sint (ucast final :: 32 word) = uint (ucast final :: 32 word)"
  proof -
    have "signed_take_bit 31 (uint (ucast final :: 32 word)) = uint (ucast final :: 32 word)"
      by (rule signed_take_bit_int_eq_self [OF order_trans [of _ 0]]) (simp_all only: \<open>uint _ < _\<close>, simp_all)
    then show ?thesis by (simp add: sint_uint)
  qed
  then have "sint (ucast final :: 32 word) = int (unat final)" using u by (metis uint_nat)
  moreover have "final = 0 \<longleftrightarrow> unat final = 0" by (simp add: unat_eq_zero)
  ultimately show ?thesis using True by (simp only:) auto
next
  case False
  have "sint (ucast final :: 32 word) < 2 ^ 31"
    using sint_lt [of "ucast final :: 32 word"] by simp
  moreover have "int (2 ^ 31) \<le> int (unat final)"
    using False unfolding c_int_max_def of_nat_le_iff by simp
  ultimately have "\<not> int (max 1 (unat final)) \<le> sint (ucast final :: 32 word)"
    unfolding of_nat_power of_nat_numeral by linarith
  with False show ?thesis by (simp only:) simp
qed

text \<open>C27. After a successful start every installed slot has its entry in the metrics array, which a pthread writes
  without a check, if and only if the resolved limit is positive and fits a C integer. A limit given
  as fixed always is. With \<^verbatim>\<open>Auto\<close> and no threads to boot the array is empty, and there still is slot
  zero, which \<^verbatim>\<open>get_inactive_php_thread\<close> can boot.\<close>

theorem metrics_array_covers_slots:
  "(case init_php_threads 0 limit mem (\<lambda>_. None) this new_thread num req php_ini r of
      (Inr main, ev, r') \<Rightarrow>
        (\<exists>n. ev ! 2 = Init_Metrics n \<and>
          (int (length (reg_threads r')) \<le> sint n) =
            (mt_max_threads main \<noteq> 0 \<and> unat (mt_max_threads main) \<le> c_int_max)) \<and>
        (req \<noteq> Auto \<longrightarrow> mt_max_threads main \<noteq> 0 \<and> unat (mt_max_threads main) \<le> c_int_max)
    | _ \<Rightarrow> True) \<and>
   (case init_php_threads 0 (- 1) mem (\<lambda>_. None) this new_thread 0 Auto php_ini registry_default of
      (Inr main, ev, r') \<Rightarrow> ev ! 2 = Init_Metrics 0 \<and> reg_threads r' = [new_thread 0] \<and>
        get_inactive_php_thread [Reserved] = Some (0, True)
    | _ \<Rightarrow> False)"
proof (intro conjI)
  show "case init_php_threads 0 limit mem (\<lambda>_. None) this new_thread num req php_ini r of
      (Inr main, ev, r') \<Rightarrow>
        (\<exists>n. ev ! 2 = Init_Metrics n \<and>
          (int (length (reg_threads r')) \<le> sint n) =
            (mt_max_threads main \<noteq> 0 \<and> unat (mt_max_threads main) \<le> c_int_max)) \<and>
        (req \<noteq> Auto \<longrightarrow> mt_max_threads main \<noteq> 0 \<and> unat (mt_max_threads main) \<le> c_int_max)
    | _ \<Rightarrow> True"
  proof (cases "validate_thread_counts num req = Inr () \<and> reg_main r = None")
    case False
    then show ?thesis
      by (auto simp: init_php_threads_def install_initial_def Let_def split: sum.splits unit.splits)
  next
    case True
    define final where "final = mt_max_threads (publish_ready limit mem (main_thread_new num req php_ini))"
    have fixed: "req \<noteq> Auto \<longrightarrow> final \<noteq> 0 \<and> unat final \<le> c_int_max"
    proof (cases req)
      case (Fixed count)
      have "finalize_max_threads limit mem (main_thread_new num req php_ini) =
        (main_thread_new num req php_ini)\<lparr>mt_max_threads := max count num\<rparr>"
        by (simp add: Fixed finalize_max_threads_def main_thread_new_def resolve_max_threads_def)
      then have "final = max count num" by (simp add: final_def publish_ready_def Let_def)
      with True Fixed show ?thesis
        by (auto simp: validate_thread_counts_def fixed_count_out_of_range_def max_def not_le
            split: if_splits)
    qed simp
    have boots: "boot_all (\<lambda>_. None) is = (map Boot is, None)" for "is" by (induction "is") simp_all
    have len: "length (reg_threads (install_threads (unat final) new_thread (new_thread 0) r')) = max 1 (unat final)"
      for r' :: "('a, 'b) registry" by (simp add: install_threads_def)
    from True fixed len sint_ucast_covers [of final] show ?thesis
      by (auto simp: init_php_threads_def install_initial_def Let_def boots final_def [symmetric] simp del: upt_Suc)
  qed
  show "case init_php_threads 0 (- 1) mem (\<lambda>_. None) this new_thread 0 Auto php_ini registry_default of
      (Inr main, ev, r') \<Rightarrow> ev ! 2 = Init_Metrics 0 \<and> reg_threads r' = [new_thread 0] \<and>
        get_inactive_php_thread [Reserved] = Some (0, True)
    | _ \<Rightarrow> False"
    by (simp add: init_php_threads_def validate_thread_counts_def fixed_count_out_of_range_def
        install_initial_def registry_default_def main_thread_new_def publish_ready_def finalize_max_threads_def
        resolve_max_threads_def automatic_max_threads_def saturating_mul_def install_threads_def
        get_inactive_php_thread_def Let_def)
qed

text \<open>Two threads, with the limit given as two.\<close>

theorem metrics_array_covers_slots_witness:
  "\<exists>main ev r' n. init_php_threads 0 0 0 (\<lambda>_. None) (0 :: nat) id 2 (Fixed 2) [] registry_default = (Inr main, ev, r') \<and>
     ev ! 2 = Init_Metrics n \<and> int (length (reg_threads r')) \<le> sint n"
proof -
  have boots: "boot_all (\<lambda>_. None) is = (map Boot is, None)" for "is" by (induction "is") simp_all
  obtain main ev and r' :: "(nat, nat) registry" where
    "init_php_threads 0 0 0 (\<lambda>_. None) (0 :: nat) id 2 (Fixed 2) [] registry_default = (Inr main, ev, r')"
    by (simp add: init_php_threads_def validate_thread_counts_def fixed_count_out_of_range_def c_int_max_def
        install_initial_def registry_default_def boots Let_def)
  with conjunct1 [OF metrics_array_covers_slots [where limit = 0 and mem = 0 and this = "0 :: nat" and
      new_thread = id and num = 2 and req = "Fixed 2" and php_ini = "[]" and r = registry_default]]
  show ?thesis by auto
qed

text \<open>Draining a started generation gives back everything the start made: the metrics array is freed
  once, after the main thread is \<^verbatim>\<open>Reserved\<close> again, the registry is empty and the next start behaves as
  the first; a drain without a generation, or before the main thread is ready, does nothing.\<close>

theorem drain_ends_generation:
  "(case init_php_threads 0 limit mem (\<lambda>_. None) this new_thread num req php_ini r of
      (Inr main, _, r') \<Rightarrow>
        (case drain_php_threads True r' of
           (ev, r'') \<Rightarrow> ev = [Set_Main ShuttingDown, Drain_Slots (max 1 (unat (mt_max_threads main))),
               Set_Main Done, Wait_Main Reserved, Destroy_Metrics] \<and> empty_generation r'' \<and>
             drain_php_threads ready r'' = ([], r'')) \<and>
        drain_php_threads False r' = ([], r')
    | _ \<Rightarrow> True)"
proof -
  have "(case init_php_threads 0 limit mem (\<lambda>_. None) this new_thread num req php_ini r of
      (Inr main, _, r') \<Rightarrow> reg_main r' = Some this \<and> reg_metrics_initialized r' \<and>
         length (reg_threads r') = max 1 (unat (mt_max_threads main)) | _ \<Rightarrow> True)"
    by (auto simp: init_php_threads_def install_initial_def install_threads_def clear_registry_def
        drain_events_def Let_def split: sum.splits prod.splits option.splits)
  then show ?thesis
    by (auto simp: drain_php_threads_def drain_events_def clear_registry_def empty_generation_def
        split: sum.splits prod.splits)
qed

end
