(* ===== verification/PoolProgress.thy ===== *)
theory PoolProgress
  imports ThreadPool
begin

section \<open>The drain of the pool ends\<close>

text \<open>
  \<^verbatim>\<open>drain_generation\<close> of \<^verbatim>\<open>thread.rs\<close> waits in four places: for a slot that is between two handlers, for the
  grace period, for Done after the force kill, and for the main thread. The rank below counts the
  steps the drain has left: whole visits of slots in the five passes, the place within a visit, for the two
  unbounded waits the steps of the pthread that is waited for, and the last steps of the main thread.
  Pthreads the drain is not waiting for do not count: they may serve requests for as long as they like.
\<close>

subsection \<open>The places of a visit\<close>

fun stage :: "ctl_pc \<Rightarrow> nat" where
  "stage C_Idle = 0"
| "stage C_Shut = 1"
| "stage C_Shut_Retry = 1"
| "stage (C_Shut_Parked _) = 1"
| "stage C_Refused = 1"
| "stage C_Shut_Close = 1"
| "stage (C_Grace _) = 2"
| "stage (C_Graced _ _) = 3"
| "stage (C_Kill _) = 4"
| "stage (C_Done_Wait _) = 5"
| "stage (C_Done_Parked _ _) = 6"
| "stage (C_Finish _) = 7"
| "stage C_Reserve = 8"
| "stage _ = 9"

definition pass_stages :: "pool_pc \<Rightarrow> nat \<Rightarrow> nat set" where
  "pass_stages pc i =
     (case pc of
        D_Begin k \<Rightarrow> (if i < k then {0, 2} else {0})
      | D_Beginning k \<Rightarrow> (if i < k then {0, 2} else if i = k then {0, 1, 2} else {0})
      | D_Grace k \<Rightarrow> (if i < k then {0, 4, 7} else if i = k then {0, 2, 3, 4, 7} else {0, 2})
      | D_Arm k \<Rightarrow> (if i < k then {0, 5, 7} else if i = k then {0, 4, 5, 7} else {0, 4, 7})
      | D_Wait k \<Rightarrow> (if i < k then {0, 7} else if i = k then {0, 5, 6, 7} else {0, 5, 7})
      | D_Finish k \<Rightarrow> (if i < k then {0} else if i = k then {0, 7, 8} else {0, 7})
      | D_Free \<Rightarrow> UNIV
      | D_Op _ \<Rightarrow> UNIV
      | _ \<Rightarrow> {0})"

fun pc_bounded :: "nat \<Rightarrow> pool_pc \<Rightarrow> bool" where
  "pc_bounded n (D_Begin k) = (k < n)"
| "pc_bounded n (D_Beginning k) = (k < n)"
| "pc_bounded n (D_Grace k) = (k < n)"
| "pc_bounded n (D_Arm k) = (k < n)"
| "pc_bounded n (D_Wait k) = (k < n)"
| "pc_bounded n (D_Finish k) = (k \<le> n)"
| "pc_bounded n _ = True"

definition progress_inv :: "('s, 'k) pool \<Rightarrow> bool" where
  "progress_inv p =
     (0 < length (po_slots p) \<and> pc_bounded (length (po_slots p)) (po_pc p) \<and>
      (\<forall>i < length (po_slots p). stage (sl_ctl (po_slots p ! i)) \<in> pass_stages (po_pc p) i) \<and>
      (released (po_pc p) \<longrightarrow> ts_current (po_main p) = (if po_main_pc p = M_Gone then Reserved else Done)) \<and>
      (po_pc p = D_Clear \<or> po_pc p = D_Over \<longrightarrow> po_main_pc p = M_Gone))"

lemma wait_on_stage:
  assumes "\<And>c. stage (q c) \<in> A" "stage r \<in> A"
  shows "stage (fst (wait_on S q r t)) \<in> A"
  using wait_on_goes [of S q r t] assms by auto

lemma drain_step_stage:
  assumes "drain_step pc s s'" "drained_slot pc = Some k" "stage (sl_ctl s) \<in> pass_stages pc k"
    and inv: "slot_inv False s"
  shows "stage (sl_ctl s') \<in> pass_stages pc k"
  using assms
proof (induction rule: drain_step.induct)
  case (beginning s s' k')
  have "stage (sl_ctl s') \<in> {0, 1, 2}"
  proof (cases "sl_ctl s")
    case C_Shut_Retry
    with beginning(1) have "sl_ctl s' = fst (wait_on request_wait_states C_Shut_Parked C_Shut (sl_thread s))"
      by (auto simp: begin_shutdown_next_def Let_def ctl_goto_def)
    with wait_on_stage [of C_Shut_Parked "{1}" C_Shut] show ?thesis by simp
  next
    case C_Shut_Close
    then have "dg_sender (pt_drain (sl_thread s)) \<noteq> None"
      using beginning by (auto simp: slot_inv_def drain_ok_def)
    with C_Shut_Close beginning(1) show ?thesis
      by (auto simp: begin_shutdown_next_def Let_def ctl_goto_def close_drain_def drain_close_def
          split: prod.splits option.splits)
  qed (use beginning(1) in \<open>auto simp: begin_shutdown_next_def Let_def ctl_goto_def request_verdict_def
        split: if_splits prod.splits option.splits bool.splits\<close>)
  with beginning(2) show ?case by (simp add: pass_stages_def)
next
  case (grace s g c s' k')
  with wait_on_goes [of "[Done]" "C_Graced g" "C_Finish g" "sl_thread s"] show ?case
    by (auto simp: shutdown_next_def Let_def ctl_goto_def pass_stages_def split: if_splits)
next
  case (awaiting s g c s' k')
  with wait_on_goes [of "[Done]" "C_Done_Parked g" "C_Finish g" "sl_thread s"] show ?case
    by (auto simp: shutdown_next_def Let_def ctl_goto_def pass_stages_def split: if_splits)
next
  case (finish s s' k')
  then show ?case
    by (cases "sl_ctl s") (auto simp: finish_shutdown_next_def Let_def ctl_goto_def pass_stages_def)
qed (auto simp: shutdown_next_def Let_def ctl_goto_def pass_stages_def)

lemma pass_done_stage:
  assumes "drained_slot pc = Some k" "k < n" "pass_done pc (sl_ctl s)" "i < n"
    and "stage (sl_ctl (f i)) \<in> pass_stages pc i" "f k = s" "stage (sl_ctl s) \<in> pass_stages pc k"
  shows "stage (sl_ctl (f i)) \<in> pass_stages (next_slot n pc) i"
proof (cases "i = k")
  case True
  with assms show ?thesis
    by (cases pc; cases "sl_ctl s") (auto simp: pass_done_def pass_stages_def)
next
  case False
  with assms show ?thesis
    by (cases pc) (auto simp: pass_stages_def split: if_splits)
qed

lemma next_bounded: "drained_slot pc = Some k \<Longrightarrow> k < n \<Longrightarrow> pc_bounded n (next_slot n pc)"
  by (cases pc) auto

lemma progress_slot:
  assumes "progress_inv p"
    and "i < length (po_slots p) \<Longrightarrow> stage (sl_ctl s) \<in> pass_stages (po_pc p) i"
  shows "progress_inv (set_slot i s p)"
proof (cases "i < length (po_slots p)")
  case True
  with assms show ?thesis by (auto simp: progress_inv_def nth_list_update)
next
  case False
  with assms(1) show ?thesis by (simp add: progress_inv_def list_update_beyond)
qed

lemma progress_step:
  "pool_step (php_step False) p p' \<Longrightarrow> pool_inv False p \<Longrightarrow> progress_inv p \<Longrightarrow> progress_inv p'"
proof (induction rule: pool_step.induct)
  case (php i p s)
  then show ?case
    by (intro progress_slot) (auto simp: progress_inv_def php_step_ctl)
next
  case (attach i p s n)
  then show ?case by (intro progress_slot) (auto simp: progress_inv_def)
next
  case (op p i s)
  then show ?case by (intro progress_slot) (auto simp: pass_stages_def)
next
  case (drain p)
  then have "\<forall>i < length (po_slots p). sl_ctl (po_slots p ! i) = C_Idle"
    by (auto simp: pool_inv_def role_def)
  with drain show ?case by (auto simp: progress_inv_def pass_stages_def released_def)
next
  case (begin' p k s)
  have "pass_stages (D_Begin k) i \<subseteq> pass_stages (D_Beginning k) i" for i by (simp add: pass_stages_def)
  then have "stage (sl_ctl (po_slots p ! i)) \<in> pass_stages (D_Beginning k) i" if "i < length (po_slots p)" for i
    using begin'(1,4) that by (auto simp: progress_inv_def)
  then have "stage (sl_ctl ((po_slots p)[k := s\<lparr>sl_ctl := C_Shut\<rparr>] ! i)) \<in> pass_stages (D_Beginning k) i"
    if "i < length (po_slots p)" for i
    using that by (cases "i = k") (simp_all add: pass_stages_def [of _ k])
  with begin'(1,4) show ?case by (simp add: progress_inv_def set_slot_def released_def)
next
  case (drain_slot p k s)
  then show ?case
    by (intro progress_slot) (auto simp: progress_inv_def pool_inv_def intro: drain_step_stage)
next
  case (next' p k)
  have "released (next_slot (length (po_slots p)) (po_pc p)) = False"
    "next_slot (length (po_slots p)) (po_pc p) \<notin> {D_Clear, D_Over}"
    using next'(1) by (cases "po_pc p"; simp add: released_def)+
  moreover have "stage (sl_ctl (po_slots p ! i)) \<in> pass_stages (next_slot (length (po_slots p)) (po_pc p)) i"
    if "i < length (po_slots p)" for i
    using next' that by (intro pass_done_stage [where k = k and f = "(!) (po_slots p)"]) (auto simp: progress_inv_def)
  ultimately show ?case using next' next_bounded by (auto simp: progress_inv_def)
next
  case (release p)
  then have "\<forall>i < length (po_slots p). sl_ctl (po_slots p ! i) = C_Idle"
    by (auto simp: progress_inv_def pool_inv_def role_def quiet_def)
  moreover have "po_main_pc p = M_Wait" using release by (auto simp: pool_inv_def released_def)
  ultimately show ?case using release by (auto simp: progress_inv_def pass_stages_def released_def ts_set_def)
next
  case (main_wakes p)
  then show ?case by (auto simp: progress_inv_def pool_inv_def)
next
  case (main_exits p)
  then have "released (po_pc p)" by (auto simp: pool_inv_def)
  with main_exits have "ts_current (po_main p) = Done" by (auto simp: progress_inv_def)
  then have "ts_current (shutdown_main_state (po_main p)) = Reserved"
    by (simp add: shutdown_main_state_def compare_and_swap_def ts_set_def)
  with main_exits show ?case by (auto simp: progress_inv_def)
next
  case (main_reserved p)
  then have "po_main_pc p = M_Gone" by (auto simp: progress_inv_def released_def split: if_splits)
  with main_reserved show ?case by (auto simp: progress_inv_def pass_stages_def released_def)
next
  case (lock p i)
  then show ?case by (auto simp: progress_inv_def pass_stages_def released_def)
next
  case (unlock p i)
  then show ?case by (auto simp: progress_inv_def pass_stages_def released_def)
next
  case (cleared p)
  then show ?case by (auto simp: progress_inv_def pass_stages_def released_def)
qed

lemma progress_reachable: "pool_reachable False p \<Longrightarrow> progress_inv p"
proof (induction rule: pool_reachable.induct)
  case (new n w)
  show ?case
    by (auto simp: progress_inv_def pool_new_def pass_stages_def released_def)
qed (use pool_reachable_inv progress_step in blast)

subsection \<open>The rank\<close>

text \<open>A pthread that has been told its new handler and has not yet taken it up.\<close>

fun settle_rank :: "php_pc \<Rightarrow> nat" where
  "settle_rank P_Wait_Complete = 6"
| "settle_rank (P_Parked_Complete _) = 5"
| "settle_rank P_Reread = 4"
| "settle_rank (P_Loop _) = 3"
| "settle_rank _ = 2"

definition beginning_rank :: "('s, 'k) slot \<Rightarrow> nat" where
  "beginning_rank s =
     (if stage (sl_ctl s) \<noteq> 1 then 0
      else case sl_ctl s of
        C_Refused \<Rightarrow> 6
      | C_Shut_Close \<Rightarrow> 6
      | C_Shut \<Rightarrow> (if pt_current (sl_thread s) = TransitionComplete then 10 + settle_rank (sl_php s) else 7)
      | _ \<Rightarrow> (if pt_current (sl_thread s) = TransitionComplete then 10 + settle_rank (sl_php s) else 8))"

definition visit_rank :: "pool_pc \<Rightarrow> ('s, 'k) slot \<Rightarrow> nat" where
  "visit_rank pc s =
     (case pc of
        D_Beginning _ \<Rightarrow> beginning_rank s
      | D_Grace _ \<Rightarrow> (case sl_ctl s of C_Grace _ \<Rightarrow> 2 | C_Graced _ _ \<Rightarrow> 1 | _ \<Rightarrow> 0)
      | D_Arm _ \<Rightarrow> (case sl_ctl s of C_Kill _ \<Rightarrow> 1 | _ \<Rightarrow> 0)
      | D_Wait _ \<Rightarrow>
          (case sl_ctl s of C_Done_Wait _ \<Rightarrow> 13 | C_Done_Parked _ _ \<Rightarrow> 1 + handover_rank (sl_php s) | _ \<Rightarrow> 0)
      | D_Finish _ \<Rightarrow> (case sl_ctl s of C_Finish _ \<Rightarrow> 2 | C_Reserve \<Rightarrow> 1 | _ \<Rightarrow> 0)
      | _ \<Rightarrow> 0)"

fun visits_left :: "nat \<Rightarrow> pool_pc \<Rightarrow> nat" where
  "visits_left n (D_Begin k) = 5 * n - k"
| "visits_left n (D_Beginning k) = 5 * n - k"
| "visits_left n (D_Grace k) = 4 * n - k"
| "visits_left n (D_Arm k) = 3 * n - k"
| "visits_left n (D_Wait k) = 2 * n - k"
| "visits_left n (D_Finish k) = n - k"
| "visits_left n _ = 0"

definition main_rank :: "('s, 'k) pool \<Rightarrow> nat" where
  "main_rank p =
     (case po_pc p of
        D_Main_Wait \<Rightarrow> (case po_main_pc p of M_Wait \<Rightarrow> 4 | M_Teardown \<Rightarrow> 3 | M_Gone \<Rightarrow> 2)
      | D_Clear \<Rightarrow> 1
      | D_Over \<Rightarrow> 0
      | _ \<Rightarrow> 5)"

definition place_rank :: "('s, 'k) pool \<Rightarrow> nat" where
  "place_rank p =
     (case po_pc p of
        D_Begin _ \<Rightarrow> 19
      | pc \<Rightarrow> (case drained_slot pc of
                Some k \<Rightarrow> if k < length (po_slots p) then visit_rank pc (po_slots p ! k) else 0
              | None \<Rightarrow> 0))"

definition drain_rank :: "('s, 'k) pool \<Rightarrow> nat" where
  "drain_rank p = 20 * visits_left (length (po_slots p)) (po_pc p) + place_rank p + main_rank p"

definition draining :: "('s, 'k) pool \<Rightarrow> bool" where
  "draining p = (case po_pc p of D_Free \<Rightarrow> False | D_Op _ \<Rightarrow> False | _ \<Rightarrow> True)"

lemma handover_rank_le: "handover_rank pc \<le> 11"
  by (cases pc) auto

lemma settle_rank_le: "settle_rank pc \<le> 6"
  by (cases pc) auto

lemma beginning_rank_le: "beginning_rank s \<le> 16"
  using settle_rank_le [of "sl_php s"] by (simp add: beginning_rank_def split: ctl_pc.splits)

lemma visit_rank_le: "visit_rank pc s \<le> 16"
  using handover_rank_le [of "sl_php s"] beginning_rank_le [of s]
  by (simp add: visit_rank_def split: pool_pc.splits ctl_pc.splits)

subsection \<open>The pthread the drain waits for\<close>

lemma settling:
  assumes "slot_inv False s" "pt_current (sl_thread s) = TransitionComplete" "phase_of (sl_ctl s) = Stable"
  shows "\<exists>s'. php_own s s'"
    "php_step False s s' \<Longrightarrow> pt_current (sl_thread s') \<noteq> TransitionComplete \<or> settle_rank (sl_php s') < settle_rank (sl_php s)"
proof -
  have sta: "stable_at False (sl_ctl s) (sl_php s) TransitionComplete"
    and hnd: "handler_ok (sl_ctl s) (sl_php s) (pt_handler (sl_thread s))"
    and wait: "php_wait_ok (sl_php s) (sl_thread s)"
    using assms by (simp_all add: slot_inv_def php_ok_def)
  have wake: "sl_php s = P_Parked_Complete chan \<Longrightarrow> disconnected (pt_state (sl_thread s)) chan" for chan
    using wait assms(2) ctl_wake [OF assms(1), of chan "[TransitionComplete]"] by simp
  have through: "wait_on [TransitionComplete] P_Parked_Complete P_Reread (sl_thread s) = (P_Reread, sl_thread s)"
    using assms(2) by (simp add: wait_on_def subscribe_state_def subscribe_def)
  have "php_next 0 s \<noteq> None"
    using sta wake by (cases "sl_php s") (auto simp: php_next_def Let_def)
  then show "\<exists>s'. php_own s s'" by (auto intro: php_own.run)
  assume "php_step False s s'"
  moreover have "\<nexists>n dr. sl_php s = P_Select n dr" "\<nexists>n. sl_php s = P_Script n" using sta by auto
  ultimately obtain now where now: "php_next now s = Some s'" using php_step_deterministic by blast
  show "pt_current (sl_thread s') \<noteq> TransitionComplete \<or> settle_rank (sl_php s') < settle_rank (sl_php s)"
  proof (cases "sl_php s")
    case (P_Loop h)
    with now sta hnd assms(2) show ?thesis
      by (cases h) (auto simp: php_next_def Let_def php_goto_def ts_get_def inactive_arm_def regular_arm_def)
  next
    case P_Wait_Complete
    with now through show ?thesis by (auto simp: php_next_def Let_def php_goto_def)
  qed (use sta now hnd in \<open>auto simp: php_next_def Let_def php_goto_def park_simps split: if_splits\<close>)
qed

lemma wait_on_current: "pt_current (snd (wait_on S q r t)) = pt_current t"
  by (auto simp: wait_on_def subscribe_state_def subscribe_def split: prod.splits)

lemma php_step_not_settling:
  assumes "slot_inv False s" "php_step False s s'" "phase_of (sl_ctl s) = Stable"
    and "pt_current (sl_thread s) \<noteq> TransitionComplete"
  shows "pt_current (sl_thread s') \<noteq> TransitionComplete"
proof -
  have "stable_at False (sl_ctl s) (sl_php s) (pt_current (sl_thread s))"
    using assms by (simp add: slot_inv_def php_ok_def)
  with assms(2,4) show ?thesis
    by (cases "sl_php s")
      (auto elim!: php_stepE simp: php_next_def Let_def park_simps deliver_def after_script_def wait_on_current
        store_force_kill_slot_def clear_force_kill_slot_def publish_script_path_def release_script_path_def
        split: option.splits prod.splits if_splits)
qed

text \<open>While the drain waits without a timeout, every step of the pthread brings it nearer to its exit.\<close>

lemma stopping_step:
  assumes "slot_inv False s" "php_step False s s'" "phase_of (sl_ctl s) = Stopping"
  shows "handover_rank (sl_php s') < handover_rank (sl_php s)"
proof -
  have php: "php_ok False (sl_ctl s) (sl_php s) (pt_current (sl_thread s))"
    and hnd: "handler_ok (sl_ctl s) (sl_php s) (pt_handler (sl_thread s))"
    using assms(1) by (simp_all add: slot_inv_def)
  have "sl_php s \<noteq> P_Absent" using absent_no_php assms(2) by blast
  with php assms(3) have "(requested_at (sl_php s) \<or> leaving_at (sl_php s)) \<and> pt_current (sl_thread s) = ShuttingDown"
    by (auto simp: php_ok_def)
  moreover have "sl_php s = P_Enter \<Longrightarrow> pt_handler (sl_thread s) \<noteq> None"
    using hnd assms(3) by (auto split: if_splits)
  ultimately show ?thesis using handover_rank_decreases [OF assms(2)] by blast
qed

lemma php_visit_rank:
  assumes "slot_inv False s" "php_step False s s'"
  shows "visit_rank pc s' \<le> visit_rank pc s"
proof -
  have ctl: "sl_ctl s' = sl_ctl s" using php_step_ctl [OF assms(2)] .
  have "phase_of (sl_ctl s) = Stable \<Longrightarrow> beginning_rank s' \<le> beginning_rank s"
    using settling(2) [OF assms(1) _ _ assms(2)] php_step_not_settling [OF assms]
    by (auto simp: beginning_rank_def ctl split: ctl_pc.splits)
  moreover have "phase_of (sl_ctl s) \<noteq> Stable \<Longrightarrow> beginning_rank s' = beginning_rank s"
    by (auto simp: beginning_rank_def ctl split: ctl_pc.splits)
  moreover have "phase_of (sl_ctl s) = Stopping \<Longrightarrow> handover_rank (sl_php s') \<le> handover_rank (sl_php s)"
    using stopping_step [OF assms] by simp
  ultimately show ?thesis
    by (cases "phase_of (sl_ctl s) = Stable")
      (auto simp: visit_rank_def ctl split: pool_pc.splits ctl_pc.splits)
qed

lemma stable_states:
  "stable_at False c p st \<Longrightarrow> c \<noteq> C_Boot \<Longrightarrow> st \<in> {Reserved, TransitionComplete, Inactive, Ready}"
  by (cases "(False, c, p, st)" rule: stable_at.cases) auto

lemma begin_visit_rank:
  assumes "slot_inv False s" "begin_shutdown_next s = Some s'"
  shows "beginning_rank s' \<le> beginning_rank s"
    "pt_current (sl_thread s) \<noteq> TransitionComplete \<or> sl_ctl s \<in> {C_Refused, C_Shut_Close} \<Longrightarrow>
      beginning_rank s' < beginning_rank s"
proof -
  have sta: "phase_of (sl_ctl s) = Stable \<Longrightarrow> sl_ctl s \<noteq> C_Boot \<Longrightarrow>
      pt_current (sl_thread s) \<in> {Reserved, TransitionComplete, Inactive, Ready}"
    using assms(1) stable_states by (auto simp: slot_inv_def php_ok_def)
  have "beginning_rank s' \<le> beginning_rank s \<and>
    (pt_current (sl_thread s) \<noteq> TransitionComplete \<or> sl_ctl s \<in> {C_Refused, C_Shut_Close} \<longrightarrow>
      beginning_rank s' < beginning_rank s)"
  proof (cases "sl_ctl s")
    case C_Shut
    with assms(2) sta show ?thesis
      by (auto simp: begin_shutdown_next_def Let_def ctl_goto_def request_state_def request_pass_def
          request_verdict_def beginning_rank_def)
  next
    case C_Shut_Retry
    with assms(2) have s': "s' = ctl_goto (wait_on request_wait_states C_Shut_Parked C_Shut (sl_thread s)) s"
      by (auto simp: begin_shutdown_next_def Let_def)
    show ?thesis
    proof (cases "pt_current (sl_thread s) = TransitionComplete")
      case True
      with C_Shut_Retry wait_on_goes [of request_wait_states C_Shut_Parked C_Shut "sl_thread s"] show ?thesis
        by (auto simp: s' ctl_goto_def beginning_rank_def wait_on_current)
    next
      case False
      then have "wait_on request_wait_states C_Shut_Parked C_Shut (sl_thread s) = (C_Shut, sl_thread s)"
        using sta C_Shut_Retry by (auto simp: wait_on_def subscribe_state_def subscribe_def request_wait_states_def)
      with False C_Shut_Retry show ?thesis by (simp add: s' ctl_goto_def beginning_rank_def)
    qed
  next
    case (C_Shut_Parked chan)
    with assms(2) show ?thesis
      by (auto simp: begin_shutdown_next_def Let_def ctl_goto_def beginning_rank_def split: if_splits)
  next
    case C_Shut_Close
    then have "dg_sender (pt_drain (sl_thread s)) \<noteq> None"
      using assms(1) by (auto simp: slot_inv_def drain_ok_def)
    with C_Shut_Close assms(2) show ?thesis
      by (auto simp: begin_shutdown_next_def Let_def ctl_goto_def close_drain_def drain_close_def beginning_rank_def
          split: prod.splits option.splits)
  next
    case C_Refused
    with assms(2) show ?thesis
      by (auto simp: begin_shutdown_next_def Let_def ctl_goto_def beginning_rank_def split: prod.splits)
  qed (use assms(2) in \<open>simp_all add: begin_shutdown_next_def Let_def\<close>)
  then show "beginning_rank s' \<le> beginning_rank s"
    "pt_current (sl_thread s) \<noteq> TransitionComplete \<or> sl_ctl s \<in> {C_Refused, C_Shut_Close} \<Longrightarrow>
      beginning_rank s' < beginning_rank s" by blast+
qed

lemma begin_progress:
  assumes inv: "slot_inv False s" and "stage (sl_ctl s) = 1"
  shows "\<exists>s'. (begin_shutdown_next s = Some s' \<or> php_own s s') \<and> beginning_rank s' < beginning_rank s"
proof (cases "pt_current (sl_thread s) = TransitionComplete \<and> sl_ctl s \<notin> {C_Refused, C_Shut_Close}")
  case True
  with assms(2) have stable: "phase_of (sl_ctl s) = Stable" by (cases "sl_ctl s") auto
  obtain s' where own: "php_own s s'" using settling(1) [OF inv _ stable] True by blast
  then have step: "php_step False s s'" by (rule php_step.own)
  with settling(2) [OF inv _ stable step] php_step_ctl [OF step] True assms(2)
  have "beginning_rank s' < beginning_rank s" by (auto simp: beginning_rank_def split: ctl_pc.splits)
  with own show ?thesis by blast
next
  case False
  have "begin_shutdown_next s \<noteq> None"
  proof (cases "sl_ctl s")
    case (C_Shut_Parked chan)
    with False have "pt_current (sl_thread s) \<noteq> TransitionComplete" by simp
    with C_Shut_Parked inv stable_states have "pt_current (sl_thread s) \<in> set request_wait_states"
      by (fastforce simp: slot_inv_def php_ok_def request_wait_states_def)
    with C_Shut_Parked inv have "disconnected (pt_state (sl_thread s)) chan"
      by (auto simp: slot_inv_def intro: asks_wake)
    with C_Shut_Parked show ?thesis by (simp add: begin_shutdown_next_def Let_def)
  qed (use assms(2) in \<open>auto simp: begin_shutdown_next_def Let_def split: prod.splits option.splits\<close>)
  then obtain s' where "begin_shutdown_next s = Some s'" by blast
  with begin_visit_rank(2) [OF inv this] False show ?thesis by auto
qed

lemma waiting_progress:
  assumes inv: "slot_inv False s" and c: "sl_ctl s = C_Done_Parked g chan"
  shows "in_script (sl_php s) \<or> (\<exists>s'. php_own s s' \<and> handover_rank (sl_php s') < handover_rank (sl_php s)) \<or>
    shutdown_next s = Some (ctl_goto (C_Finish g, sl_thread s) s)"
proof (cases "pt_current (sl_thread s) = Done")
  case True
  with inv c have "disconnected (pt_state (sl_thread s)) chan"
    by (auto simp: ctl_wake [OF inv, of chan "[Done]"] slot_inv_def)
  with c show ?thesis by (simp add: shutdown_next_def Let_def)
next
  case False
  with inv c have "pt_current (sl_thread s) = ShuttingDown" "requested_at (sl_php s) \<or> leaving_at (sl_php s)"
    by (auto simp: slot_inv_def php_ok_def)
  then have "in_script (sl_php s) \<or> (\<exists>s'. php_own s s')" using handover_enabled [OF inv] c by auto
  with stopping_step [OF inv php_step.own] c show ?thesis by auto
qed

text \<open>The slot of a visit: it is done, or it or its pthread can go on, nearer to the end, or the controller waits
  for Done and the script still runs.\<close>

definition script_outlives_kill :: "pool_pc \<Rightarrow> ('s, 'k) slot \<Rightarrow> bool" where
  "script_outlives_kill pc s =
     (in_script (sl_php s) \<and> (case pc of D_Wait _ \<Rightarrow> True | _ \<Rightarrow> False) \<and>
      (case sl_ctl s of C_Done_Parked _ _ \<Rightarrow> signalled s | _ \<Rightarrow> False))"

lemma visit_progress:
  assumes inv: "slot_inv False s" and "stage (sl_ctl s) \<in> pass_stages pc k" "drained_slot pc = Some k"
    and sent: "signalled_ok s"
  shows "pass_done pc (sl_ctl s) \<or> script_outlives_kill pc s \<or>
    (\<exists>s'. (drain_step pc s s' \<or> php_own s s') \<and> visit_rank pc s' < visit_rank pc s)"
proof (cases pc)
  case (D_Beginning k')
  show ?thesis
  proof (cases "stage (sl_ctl s) = 1")
    case True
    with begin_progress [OF inv] D_Beginning show ?thesis
      by (auto simp: visit_rank_def intro: drain_step.beginning)
  next
    case False
    with assms(2,3) D_Beginning show ?thesis
      by (cases "sl_ctl s") (auto simp: pass_done_def pass_stages_def)
  qed
next
  case (D_Grace k')
  show ?thesis
  proof (cases "sl_ctl s")
    case (C_Grace g)
    define s' where "s' = ctl_goto (wait_on [Done] (C_Graced g) (C_Finish g) (sl_thread s)) s"
    have "shutdown_next s = Some s'" using C_Grace by (simp add: shutdown_next_def Let_def s'_def)
    then have "drain_step pc s s'"
      unfolding D_Grace using C_Grace by (intro drain_step.grace [where g = g]) simp_all
    moreover have "visit_rank pc s' < visit_rank pc s"
      using C_Grace D_Grace wait_on_goes [of "[Done]" "C_Graced g" "C_Finish g" "sl_thread s"]
      by (auto simp: visit_rank_def s'_def ctl_goto_def)
    ultimately show ?thesis by blast
  next
    case (C_Graced g c)
    from drain_step.expired [OF this, of k'] C_Graced D_Grace show ?thesis
      by (intro disjI2 exI [of _ "ctl_goto (C_Kill g, with_state (\<lambda>ts. unsubscribe ts c) (sl_thread s)) s"])
        (simp add: visit_rank_def ctl_goto_def)
  qed (use assms(2,3) D_Grace in \<open>auto simp: pass_done_def pass_stages_def\<close>)
next
  case (D_Arm k')
  show ?thesis
  proof (cases "sl_ctl s")
    case (C_Kill g)
    then obtain s' where "shutdown_next s = Some s'" "sl_ctl s' = C_Done_Wait g"
      by (auto simp: shutdown_next_def Let_def ctl_goto_def)
    with C_Kill D_Arm show ?thesis
      by (intro disjI2 exI [of _ s']) (auto simp: visit_rank_def intro: drain_step.arm)
  qed (use assms(2,3) D_Arm in \<open>auto simp: pass_done_def pass_stages_def\<close>)
next
  case (D_Wait k')
  show ?thesis
  proof (cases "sl_ctl s")
    case (C_Done_Wait g)
    define s' where "s' = ctl_goto (wait_on [Done] (C_Done_Parked g) (C_Finish g) (sl_thread s)) s"
    have "shutdown_next s = Some s'" using C_Done_Wait by (simp add: shutdown_next_def Let_def s'_def)
    then have "drain_step pc s s'"
      unfolding D_Wait using C_Done_Wait by (intro drain_step.awaiting [where g = g]) simp_all
    moreover have "visit_rank pc s' < visit_rank pc s"
      using C_Done_Wait D_Wait wait_on_goes [of "[Done]" "C_Done_Parked g" "C_Finish g" "sl_thread s"]
        handover_rank_le [of "sl_php s"]
      by (auto simp: visit_rank_def s'_def ctl_goto_def)
    ultimately show ?thesis by blast
  next
    case (C_Done_Parked g c)
    from waiting_progress [OF inv this] show ?thesis
    proof (elim disjE exE conjE)
      fix s' assume "php_own s s'" "handover_rank (sl_php s') < handover_rank (sl_php s)"
      with C_Done_Parked D_Wait php_step_ctl [OF php_step.own [of s s']] show ?thesis
        by (intro disjI2 exI [of _ s']) (simp add: visit_rank_def)
    next
      assume "in_script (sl_php s)"
      moreover from this have "may_run (sl_php s)" by (cases "sl_php s") simp_all
      ultimately have "script_outlives_kill pc s"
        using sent C_Done_Parked D_Wait by (simp add: script_outlives_kill_def signalled_ok_def)
      then show ?thesis by blast
    next
      assume n: "shutdown_next s = Some (ctl_goto (C_Finish g, sl_thread s) s)"
      have "drain_step pc s (ctl_goto (C_Finish g, sl_thread s) s)"
        unfolding D_Wait using C_Done_Parked n by (intro drain_step.awaiting [where g = g and c = c]) simp_all
      with C_Done_Parked D_Wait show ?thesis by (auto simp: visit_rank_def ctl_goto_def)
    qed
  qed (use assms(2,3) D_Wait in \<open>auto simp: pass_done_def pass_stages_def\<close>)
next
  case (D_Finish k')
  show ?thesis
  proof (cases "sl_ctl s")
    case (C_Finish g)
    then obtain s' where "finish_shutdown_next s = Some s'" "sl_ctl s' = C_Reserve"
      by (auto simp: finish_shutdown_next_def Let_def ctl_goto_def)
    with C_Finish D_Finish show ?thesis
      by (intro disjI2 exI [of _ s']) (auto simp: visit_rank_def intro: drain_step.finish)
  next
    case C_Reserve
    then obtain s' where "finish_shutdown_next s = Some s'" "sl_ctl s' = C_Idle"
      by (auto simp: finish_shutdown_next_def Let_def ctl_goto_def)
    with C_Reserve D_Finish show ?thesis
      by (intro disjI2 exI [of _ s']) (auto simp: visit_rank_def intro: drain_step.finish)
  qed (use assms(2,3) D_Finish in \<open>auto simp: pass_done_def pass_stages_def\<close>)
qed (use assms(3) in simp_all)

lemma drain_visit_rank:
  assumes "drain_step pc s s'" "slot_inv False s"
  shows "visit_rank pc s' \<le> visit_rank pc s"
  using assms
proof (induction rule: drain_step.induct)
  case (beginning s s' k)
  then show ?case using begin_visit_rank(1) by (simp add: visit_rank_def)
next
  case (grace s g c s' k)
  with wait_on_goes [of "[Done]" "C_Graced g" "C_Finish g" "sl_thread s"] show ?case
    by (auto simp: shutdown_next_def Let_def ctl_goto_def visit_rank_def split: if_splits)
next
  case (awaiting s g c s' k)
  with wait_on_goes [of "[Done]" "C_Done_Parked g" "C_Finish g" "sl_thread s"] handover_rank_le [of "sl_php s"]
  show ?case
    by (auto simp: shutdown_next_def Let_def ctl_goto_def visit_rank_def split: if_splits)
next
  case (finish s s' k)
  then show ?case
    by (cases "sl_ctl s") (auto simp: finish_shutdown_next_def Let_def ctl_goto_def visit_rank_def)
qed (auto simp: shutdown_next_def Let_def ctl_goto_def visit_rank_def)

subsection \<open>The pool\<close>

lemma place_rank_visit:
  "drained_slot (po_pc p) = Some k \<Longrightarrow>
     place_rank p = (if k < length (po_slots p) then visit_rank (po_pc p) (po_slots p ! k) else 0)"
  by (cases "po_pc p") (auto simp: place_rank_def)

lemma place_rank_other:
  "drained_slot (po_pc p) = None \<Longrightarrow> place_rank p = (case po_pc p of D_Begin _ \<Rightarrow> 19 | _ \<Rightarrow> 0)"
  by (cases "po_pc p") (auto simp: place_rank_def)

lemma place_rank_le: "place_rank p \<le> 19"
proof (cases "drained_slot (po_pc p)")
  case (Some k)
  then show ?thesis using visit_rank_le [of "po_pc p" "po_slots p ! k"] by (simp add: place_rank_visit)
qed (simp add: place_rank_other split: pool_pc.splits)

lemma main_rank_set_slot [simp]: "main_rank (set_slot i s p) = main_rank p"
  by (cases "po_pc p") (simp_all add: main_rank_def)

lemma main_rank_le: "main_rank p \<le> 5"
  by (simp add: main_rank_def split: pool_pc.splits main_pc.splits)

lemma visit_rank_same:
  "sl_ctl s' = sl_ctl s \<Longrightarrow> sl_php s' = sl_php s \<Longrightarrow> sl_thread s' = sl_thread s \<Longrightarrow>
     visit_rank pc s' = visit_rank pc s"
  by (cases pc; cases "sl_ctl s") (simp_all add: visit_rank_def beginning_rank_def)

lemma rank_of_slot:
  assumes "drained_slot (po_pc p) = Some i \<Longrightarrow> i < length (po_slots p) \<Longrightarrow>
      visit_rank (po_pc p) s \<le> visit_rank (po_pc p) (po_slots p ! i)"
  shows "drain_rank (set_slot i s p) \<le> drain_rank p"
proof -
  have "place_rank (set_slot i s p) \<le> place_rank p"
  proof (cases "drained_slot (po_pc p)")
    case (Some k)
    with assms show ?thesis by (cases "k = i") (simp_all add: place_rank_visit)
  qed (simp add: place_rank_other)
  then show ?thesis by (simp add: drain_rank_def)
qed

lemma rank_of_drained_slot:
  assumes "drained_slot (po_pc p) = Some i" "i < length (po_slots p)"
    and "visit_rank (po_pc p) s < visit_rank (po_pc p) (po_slots p ! i)"
  shows "drain_rank (set_slot i s p) < drain_rank p"
  using assms by (simp add: drain_rank_def place_rank_visit)

lemma drain_rank_le:
  assumes "progress_inv p"
  shows "drain_rank p \<le> 100 * length (po_slots p) + 24"
proof -
  have "visits_left n pc \<le> 5 * n" for n pc by (cases pc) auto
  from this [of "length (po_slots p)" "po_pc p"] show ?thesis
    using place_rank_le [of p] main_rank_le [of p] by (simp add: drain_rank_def)
qed

text \<open>Moving on to the next slot or pass is worth more than any visit.\<close>

lemma rank_next_slot:
  assumes "drained_slot (po_pc p) = Some k" "k < length (po_slots p)"
  shows "drain_rank (p\<lparr>po_pc := next_slot (length (po_slots p)) (po_pc p)\<rparr>) < drain_rank p"
proof -
  let ?n = "length (po_slots p)" and ?q = "p\<lparr>po_pc := next_slot (length (po_slots p)) (po_pc p)\<rparr>"
  have "visits_left ?n (next_slot ?n (po_pc p)) < visits_left ?n (po_pc p)"
    using assms by (cases "po_pc p") auto
  moreover have "main_rank ?q = main_rank p"
    using assms by (cases "po_pc p") (auto simp: main_rank_def)
  ultimately show ?thesis using place_rank_le [of ?q] by (simp add: drain_rank_def)
qed

lemma drain_rank_mono:
  "pool_step (php_step False) p p' \<Longrightarrow> pool_inv False p \<Longrightarrow> progress_inv p \<Longrightarrow> draining p \<Longrightarrow>
     draining p' \<and> drain_rank p' \<le> drain_rank p"
proof (induction rule: pool_step.induct)
  case (php i p s)
  then have "slot_inv False (po_slots p ! i)" by (simp add: pool_inv_def)
  with php php_visit_rank show ?case by (auto simp: draining_def intro!: rank_of_slot)
next
  case (attach i p s n)
  then have "visit_rank (po_pc p) (s\<lparr>sl_entries := es, sl_unattached := us\<rparr>) = visit_rank (po_pc p) (po_slots p ! i)"
    for es us by (intro visit_rank_same) simp_all
  with attach show ?case by (auto simp: draining_def intro!: rank_of_slot)
next
  case (begin' p k s)
  then have "k < length (po_slots p)" by (simp add: progress_inv_def)
  with begin' show ?case
    using visit_rank_le [of "D_Beginning k" "(po_slots p ! k)\<lparr>sl_ctl := C_Shut\<rparr>"]
    by (simp add: draining_def drain_rank_def place_rank_def main_rank_def)
next
  case (drain_slot p k s)
  then have "k < length (po_slots p) \<Longrightarrow> slot_inv False (po_slots p ! k)" by (simp add: pool_inv_def)
  with drain_slot drain_visit_rank show ?case by (auto simp: draining_def intro!: rank_of_slot)
next
  case (next' p k)
  then have "draining (p\<lparr>po_pc := next_slot (length (po_slots p)) (po_pc p)\<rparr>)"
    by (cases "po_pc p") (auto simp: draining_def)
  with rank_next_slot [OF next'(1,2)] show ?case by simp
next
  case (main_wakes p)
  then show ?case
    by (auto simp: draining_def drain_rank_def place_rank_def main_rank_def split: pool_pc.splits)
next
  case (main_exits p)
  then show ?case
    by (auto simp: draining_def drain_rank_def place_rank_def main_rank_def split: pool_pc.splits)
qed (auto simp: draining_def drain_rank_def place_rank_def main_rank_def split: main_pc.splits)

text \<open>The one wait the drain does not bound: for a script that goes on although its pthread was sent the kill
  signal.\<close>

definition waits_for_script :: "('s, 'k) pool \<Rightarrow> bool" where
  "waits_for_script p =
     (case drained_slot (po_pc p) of
        Some k \<Rightarrow> k < length (po_slots p) \<and> script_outlives_kill (po_pc p) (po_slots p ! k)
      | None \<Rightarrow> False)"

lemma drain_rank_progress:
  assumes pool: "pool_inv False p" and prog: "progress_inv p" and slots: "slots_reachable False p"
    and "draining p" "po_pc p \<noteq> D_Over"
  shows "waits_for_script p \<or> (\<exists>p'. pool_step php_own p p' \<and> drain_rank p' < drain_rank p)"
proof (cases "\<exists>k. drained_slot (po_pc p) = Some k \<and> k < length (po_slots p)")
  case True
  then obtain k where k: "drained_slot (po_pc p) = Some k" "k < length (po_slots p)" by blast
  have "slot_inv False (po_slots p ! k)" "stage (sl_ctl (po_slots p ! k)) \<in> pass_stages (po_pc p) k"
    using pool prog k(2) by (simp_all add: pool_inv_def progress_inv_def)
  moreover have "signalled_ok (po_slots p ! k)"
    using slots k(2) slot_reachable_signalled by (auto simp: slots_reachable_def)
  ultimately have "pass_done (po_pc p) (sl_ctl (po_slots p ! k)) \<or> script_outlives_kill (po_pc p) (po_slots p ! k) \<or>
      (\<exists>s'. (drain_step (po_pc p) (po_slots p ! k) s' \<or> php_own (po_slots p ! k) s') \<and>
        visit_rank (po_pc p) s' < visit_rank (po_pc p) (po_slots p ! k))"
    using k(1) visit_progress by blast
  then show ?thesis
  proof (elim disjE exE conjE)
    assume "pass_done (po_pc p) (sl_ctl (po_slots p ! k))"
    with pool_step.next' [OF k, of php_own] rank_next_slot [OF k] show ?thesis by blast
  next
    assume "script_outlives_kill (po_pc p) (po_slots p ! k)"
    with k show ?thesis by (simp add: waits_for_script_def)
  next
    fix s' assume "drain_step (po_pc p) (po_slots p ! k) s'"
      "visit_rank (po_pc p) s' < visit_rank (po_pc p) (po_slots p ! k)"
    with pool_step.drain_slot [OF k(1), of s' php_own] rank_of_drained_slot [OF k] show ?thesis by blast
  next
    fix s' assume "php_own (po_slots p ! k) s'"
      "visit_rank (po_pc p) s' < visit_rank (po_pc p) (po_slots p ! k)"
    with pool_step.php [OF k(2), of php_own s'] rank_of_drained_slot [OF k] show ?thesis by blast
  qed
next
  case False
  show ?thesis
  proof (cases "po_pc p")
    case (D_Begin k)
    then have "k < length (po_slots p)" using prog by (simp add: progress_inv_def)
    then have "drain_rank (set_slot k ((po_slots p ! k)\<lparr>sl_ctl := C_Shut\<rparr>) p\<lparr>po_pc := D_Beginning k\<rparr>) < drain_rank p"
      using D_Begin visit_rank_le [of "D_Beginning k" "(po_slots p ! k)\<lparr>sl_ctl := C_Shut\<rparr>"]
      by (simp add: drain_rank_def place_rank_def main_rank_def)
    with pool_step.begin' [OF D_Begin refl, of php_own] show ?thesis by blast
  next
    case (D_Finish k)
    with False prog have "po_pc p = D_Finish (length (po_slots p))" by (auto simp: progress_inv_def)
    moreover have "drain_rank (p\<lparr>po_main := ts_set (po_main p) Done, po_pc := D_Main_Wait\<rparr>) < drain_rank p"
      using D_Finish by (simp add: drain_rank_def place_rank_def main_rank_def split: main_pc.splits)
    ultimately show ?thesis using pool_step.release by blast
  next
    case D_Main_Wait
    show ?thesis
    proof (cases "po_main_pc p")
      case M_Wait
      with D_Main_Wait prog have "ts_current (po_main p) \<in> {Done, Rebooting}"
        by (auto simp: progress_inv_def released_def)
      from pool_step.main_wakes [OF M_Wait this, of php_own] show ?thesis
        by (intro disjI2 exI conjI, assumption)
          (use D_Main_Wait M_Wait in \<open>auto simp: drain_rank_def place_rank_def main_rank_def\<close>)
    next
      case M_Teardown
      from pool_step.main_exits [OF this, of php_own] show ?thesis
        by (intro disjI2 exI conjI, assumption)
          (use D_Main_Wait M_Teardown in \<open>auto simp: drain_rank_def place_rank_def main_rank_def\<close>)
    next
      case M_Gone
      with D_Main_Wait prog have "ts_current (po_main p) = Reserved" by (auto simp: progress_inv_def released_def)
      from pool_step.main_reserved [OF D_Main_Wait this, of php_own] show ?thesis
        by (intro disjI2 exI conjI, assumption)
          (use D_Main_Wait M_Gone in \<open>auto simp: drain_rank_def place_rank_def main_rank_def\<close>)
    qed
  next
    case D_Clear
    from pool_step.cleared [OF this, of php_own] show ?thesis
      by (intro disjI2 exI conjI, assumption) (use D_Clear in \<open>auto simp: drain_rank_def place_rank_def main_rank_def\<close>)
  qed (use False prog assms(4,5) in \<open>auto simp: draining_def progress_inv_def\<close>)
qed

lemma script_over_lowers:
  assumes "pool_inv False p" "waits_for_script p"
  shows "\<exists>p'. pool_step (php_step False) p p' \<and> drain_rank p' < drain_rank p"
proof -
  obtain k n g chan where k: "drained_slot (po_pc p) = Some k" "k < length (po_slots p)" "po_pc p = D_Wait k"
    and s: "sl_php (po_slots p ! k) = P_Script n" "sl_ctl (po_slots p ! k) = C_Done_Parked g chan"
  proof -
    from assms(2) obtain k where k: "drained_slot (po_pc p) = Some k" "k < length (po_slots p)"
      "script_outlives_kill (po_pc p) (po_slots p ! k)" by (auto simp: waits_for_script_def split: option.splits)
    moreover from k(1,3) have "po_pc p = D_Wait k" by (auto simp: script_outlives_kill_def split: pool_pc.splits)
    moreover obtain n where "sl_php (po_slots p ! k) = P_Script n"
      using k(3) by (cases "sl_php (po_slots p ! k)") (auto simp: script_outlives_kill_def)
    moreover obtain g chan where "sl_ctl (po_slots p ! k) = C_Done_Parked g chan"
      using k(3) by (auto simp: script_outlives_kill_def split: ctl_pc.splits)
    ultimately show thesis using that by blast
  qed
  let ?s' = "(after_script (po_slots p ! k))\<lparr>sl_php := P_Enter\<rparr>"
  have step: "php_step False (po_slots p ! k) ?s'" using s(1) by (rule php_step.script_end)
  have "visit_rank (po_pc p) ?s' < visit_rank (po_pc p) (po_slots p ! k)"
    using php_step_ctl [OF step] s by (simp add: visit_rank_def k(3))
  with pool_step.php [where pthread = "php_step False", OF k(2) step] rank_of_drained_slot [OF k(1,2)] show ?thesis by blast
qed

lemma drain_reaches_end:
  "pool_reachable False p \<Longrightarrow> draining p \<Longrightarrow>
     \<exists>p'. (pool_step (php_step False))\<^sup>*\<^sup>* p p' \<and> po_pc p' = D_Over \<and> po_main_pc p' = M_Gone"
proof (induction "drain_rank p" arbitrary: p rule: less_induct)
  case less
  have inv: "pool_inv False p" "progress_inv p" "slots_reachable False p"
    using less.prems(1) pool_reachable_inv progress_reachable pool_slots_reachable by blast+
  show ?case
  proof (cases "po_pc p = D_Over")
    case True
    with inv(2) show ?thesis by (intro exI [of _ p]) (simp add: progress_inv_def)
  next
    case False
    with drain_rank_progress [OF inv less.prems(2)] script_over_lowers [OF inv(1)] pool_step_own [of p _ False] obtain q where
      q: "pool_step (php_step False) p q" "drain_rank q < drain_rank p" by blast
    from less.hyps [OF q(2) pool_reachable.step [OF less.prems(1) q(1)]] drain_rank_mono [OF q(1) inv(1,2) less.prems(2)]
    show ?thesis using converse_rtranclp_into_rtranclp [where r = "pool_step (php_step False)", OF q(1)] by blast
  qed
qed

text \<open>C5. A drain ends, but for a script that outlives its kill signal. While a pool of any size is being drained,
  with its pthreads in any reachable state and the requests they serve taking any course, its rank, at most a hundred
  steps for each slot, never rises. Until the drain is over, a step that lowers it is possible that needs
  no caller and no script to do anything: of the controller, of the one pthread it waits for, be that parked or
  in its select, or of the main thread. The one exception is the wait the code leaves unbounded: the controller is
  parked until Done on a slot whose pthread is inside a script and has been sent the kill signal. If
  the scripts end, the drain can always reach its end, with the main pthread gone. This is for pools to which
  no context with an empty script filename is dispatched and whose pthreads C can create anew after a bailout.\<close>

theorem drain_completes:
  assumes "pool_reachable False p" "draining p"
  shows "drain_rank p \<le> 100 * length (po_slots p) + 24 \<and>
    (\<forall>p'. pool_step (php_step False) p p' \<longrightarrow> draining p' \<and> drain_rank p' \<le> drain_rank p) \<and>
    (po_pc p = D_Over \<or> (\<exists>p'. pool_step php_own p p' \<and> drain_rank p' < drain_rank p) \<or>
     (\<exists>k g chan. po_pc p = D_Wait k \<and> k < length (po_slots p) \<and> sl_ctl (po_slots p ! k) = C_Done_Parked g chan \<and>
        in_script (sl_php (po_slots p ! k)) \<and> signalled (po_slots p ! k))) \<and>
    (\<exists>p'. (pool_step (php_step False))\<^sup>*\<^sup>* p p' \<and> po_pc p' = D_Over \<and> po_main_pc p' = M_Gone)"
proof -
  have inv: "pool_inv False p" "progress_inv p" "slots_reachable False p"
    using assms(1) pool_reachable_inv progress_reachable pool_slots_reachable by blast+
  have "waits_for_script p \<Longrightarrow> \<exists>k g chan. po_pc p = D_Wait k \<and> k < length (po_slots p) \<and>
      sl_ctl (po_slots p ! k) = C_Done_Parked g chan \<and> in_script (sl_php (po_slots p ! k)) \<and> signalled (po_slots p ! k)"
    by (auto simp: waits_for_script_def script_outlives_kill_def split: option.splits pool_pc.splits ctl_pc.splits)
  with inv assms drain_rank_le drain_rank_mono drain_rank_progress drain_reaches_end show ?thesis by blast
qed

text \<open>Two slots, one booted, with the grace period of the first running.\<close>

lemma grace_run:
  "map_option (\<lambda>p. (po_pc p, length (po_slots p), map sl_ctl (po_slots p)))
     (run_all pool_move (take 23 drain_moves) (pool_new 2 quiet_host)) = Some (D_Grace 0, 2, [C_Graced 1 5, C_Idle])"
  by code_simp

theorem drain_completes_witness:
  "\<exists>p :: (unit, unit) pool. pool_reachable False p \<and> po_pc p = D_Grace 0 \<and> drain_rank p \<le> 224 \<and>
     (\<exists>p'. pool_step php_own p p' \<and> drain_rank p' < drain_rank p) \<and>
     (\<exists>p'. (pool_step (php_step False))\<^sup>*\<^sup>* p p' \<and> po_pc p' = D_Over \<and> po_main_pc p' = M_Gone)"
proof -
  obtain p where p: "run_all pool_move (take 23 drain_moves) (pool_new 2 quiet_host) = Some p"
    "po_pc p = D_Grace 0" "length (po_slots p) = 2"
    using grace_run by auto
  have r: "pool_reachable False p" by (rule pool_runs.run_kept [OF pool_reachable.new _ p(1)]) simp
  have "draining p" using p(2) by (simp add: draining_def)
  from drain_completes [OF r this] r p(2,3) show ?thesis by (intro exI [of _ p]) simp
qed

end
