(* ===== verification/GoLog.thy ===== *)
theory GoLog
  imports Log
begin

section \<open>PHP's error log: \<^verbatim>\<open>go_log\<close>\<close>

text \<open>
  The syslog levels of \<^verbatim>\<open>callbacks/log.rs\<close> and the callback behind PHP's \<^verbatim>\<open>log_message\<close> hook. The raw
  level is a C integer, the message a pointer: None for NULL, or the bytes C would read.
\<close>

datatype syslog_level = Emerg | Alert | Crit | Err | Warn | Notice | Info | Debug

definition syslog_from_raw :: "32 word \<Rightarrow> syslog_level" where
  "syslog_from_raw raw =
     (if raw = 0 then Emerg else if raw = 1 then Alert else if raw = 2 then Crit else if raw = 3 then Err
      else if raw = 4 then Warn else if raw = 5 then Notice else if raw = 6 then Info
      else if raw = 7 then Debug else Info)"

fun syslog_to_level :: "syslog_level \<Rightarrow> level" where
  "syslog_to_level Emerg = ERROR"
| "syslog_to_level Alert = ERROR"
| "syslog_to_level Crit = ERROR"
| "syslog_to_level Err = ERROR"
| "syslog_to_level Warn = WARN"
| "syslog_to_level Notice = INFO"
| "syslog_to_level Info = INFO"
| "syslog_to_level Debug = DEBUG"

fun syslog_name :: "syslog_level \<Rightarrow> string" where
  "syslog_name Emerg = ''emerg''"
| "syslog_name Alert = ''alert''"
| "syslog_name Crit = ''crit''"
| "syslog_name Err = ''err''"
| "syslog_name Warn = ''warning''"
| "syslog_name Notice = ''notice''"
| "syslog_name Info = ''info''"
| "syslog_name Debug = ''debug''"

definition go_log :: "bytes option \<Rightarrow> 32 word \<Rightarrow> log_record list" where
  "go_log message level =
     (let syslog_level = syslog_from_raw level
      in log (syslog_to_level syslog_level)
           (\<lambda>_. case message of None \<Rightarrow> [] | Some bs \<Rightarrow> takeWhile (\<lambda>b. b \<noteq> CHR 0x00) bs)
           (\<lambda>_. [\<lparr>attr_key = ''syslog_level'', attr_value = lit (syslog_name syslog_level)\<rparr>]))"

lemma syslog_enabled: "enabled (syslog_to_level l) = (l \<noteq> Debug)"
  by (cases l) (simp_all add: enabled_def MIN_LEVEL_def INFO_def ERROR_def WARN_def DEBUG_def less_eq_level_def)

lemma syslog_name_plain: "escape_for_log_line (str_bytes (lit (syslog_name l))) = lit (syslog_name l)"
  by (induct l) code_simp+

lemma syslog_name_inject: "syslog_name a = syslog_name b \<Longrightarrow> a = b"
  by (cases a; cases b) simp_all

text \<open>A PHP log message becomes exactly one line. Every level but debug is written, whatever integer PHP
  passes: an integer that is no syslog level counts as info, so it is never lost and never an
  error; the record keeps the syslog level apart from the four it is folded to, by its name at the
  end of the line; no byte of the message breaks the line; and a NULL message is an empty one.\<close>

theorem go_log_one_line:
  "(let records = go_log message level; l = syslog_from_raw level;
        text = (case message of None \<Rightarrow> [] | Some bs \<Rightarrow> takeWhile (\<lambda>b. b \<noteq> CHR 0x00) bs)
    in (records = [] \<longleftrightarrow> level = 7) \<and> length records \<le> 1 \<and>
       (\<forall>r \<in> set records. rec_message r = text \<and> rec_level r = syslog_to_level l \<and>
          stderr_line r = lit ''frankenrust['' @ level_debug (syslog_to_level l) @ lit '']: '' @
            escape_for_log_line text @ lit '' syslog_level='' @ lit (syslog_name l) \<and>
          list_all (\<lambda>c. 32 \<le> c \<and> c \<le> 126) (stderr_line r)) \<and>
       ((7 :: int) < uint level \<longrightarrow> l = Info))"
proof -
  have levels: "list_all (\<lambda>c. 32 \<le> c \<and> c \<le> 126) (level_debug (syslog_to_level l))" for l
    by (induct l) code_simp+
  have names: "list_all (\<lambda>c. 32 \<le> c \<and> c \<le> 126) (lit (syslog_name l))" for l
    by (induct l) code_simp+
  have "syslog_from_raw level = Debug \<longleftrightarrow> level = 7" by (auto simp: syslog_from_raw_def)
  moreover have "(7 :: int) < uint level \<Longrightarrow> syslog_from_raw level = Info"
    by (auto simp: syslog_from_raw_def)
  ultimately show ?thesis
    using escape_range names levels
    by (auto simp: go_log_def log_def syslog_enabled stderr_line_def syslog_name_plain Let_def)
qed

text \<open>A warning with a line break, and a level that does not exist.\<close>

theorem go_log_one_line_witness:
  "map rec_level (go_log (Some (''a'' @ [CHR 0x0A])) 42) = [INFO] \<and> syslog_from_raw 42 = Info"
  using go_log_one_line [of "Some (''a'' @ [CHR 0x0A])" 42]
  by (cases "go_log (Some (''a'' @ [CHR 0x0A])) 42") (auto simp: Let_def)

end
