(* ===== verification/HttpFront.thy ===== *)
theory HttpFront
  imports Output CgiPath
begin

section \<open>From a hyper request to a request context and back\<close>

text \<open>
  \<^verbatim>\<open>request.rs\<close>, \<^verbatim>\<open>response.rs\<close> and the request pipeline of \<^verbatim>\<open>server.rs\<close> in \<^verbatim>\<open>frankenrust-server\<close>. What
  hyper hands over is a record of the fields the source reads; a header map is the list of its
  names and values in iteration order. Three operations of the \<^verbatim>\<open>http\<close> crate are arguments where the
  code relies on them: \<open>to_str\<close> (\<^verbatim>\<open>HeaderValue::to_str\<close>), and in \<open>http_lib\<close> the conversions of a status,
  a header name and a header value, and whether the response builder accepts its parts. The PHP
  thread's run is an argument as well: what the sink holds when it is done.
\<close>

subsection \<open>Percent decoding\<close>

definition hex_digit :: "byte \<Rightarrow> nat option" where
  "hex_digit byte =
     (if 48 \<le> bval byte \<and> bval byte \<le> 57 then Some (bval byte - 48)
      else if 97 \<le> bval byte \<and> bval byte \<le> 102 then Some (bval byte - 97 + 10)
      else if 65 \<le> bval byte \<and> bval byte \<le> 70 then Some (bval byte - 65 + 10)
      else None)"

function percent_loop :: "bytes \<Rightarrow> nat \<Rightarrow> bytes \<Rightarrow> bytes" where
  "percent_loop input i out =
     (if i < length input then
        (if input ! i = CHR ''%'' \<and> i + 2 < length input then
           (case (hex_digit (input ! (i + 1)), hex_digit (input ! (i + 2))) of
              (Some hi, Some lo) \<Rightarrow> percent_loop input (i + 3) (out @ [char_of (hi * 16 + lo)])
            | _ \<Rightarrow> percent_loop input (i + 1) (out @ [input ! i]))
         else percent_loop input (i + 1) (out @ [input ! i]))
      else out)"
  by pat_completeness auto
termination by (relation "measure (\<lambda>(input, i, out). length input - i)") auto

declare percent_loop.simps [simp del]

definition percent_decode :: "bytes \<Rightarrow> bytes" where
  "percent_decode input = percent_loop input 0 []"

subsection \<open>Building the request\<close>

datatype http_version = HTTP_09 | HTTP_10 | HTTP_11 | Other_Version

record parts =
  pt_method :: bytes
  pt_path_and_query :: "bytes option"
  pt_path :: bytes
  pt_query :: "bytes option"
  pt_version :: http_version
  pt_headers :: "(bytes \<times> bytes) list"

text \<open>\<^verbatim>\<open>headers.get(HOST)\<close>: hyper's names are lower case, and the first value of a name is found.\<close>

definition host_value :: "(bytes \<Rightarrow> bytes option) \<Rightarrow> parts \<Rightarrow> bytes" where
  "host_value to_str parts =
     (case Option.bind (map_of (pt_headers parts) ''host'') to_str of Some h \<Rightarrow> h | None \<Rightarrow> [])"

definition proto_version :: "http_version \<Rightarrow> 16 word \<times> 16 word" where
  "proto_version v = (case v of HTTP_10 \<Rightarrow> (1, 0) | HTTP_09 \<Rightarrow> (0, 9) | _ \<Rightarrow> (1, 1))"

definition build_request ::
  "(bytes \<Rightarrow> bytes option) \<Rightarrow> nat \<Rightarrow> parts \<Rightarrow> bytes \<Rightarrow> bytes \<Rightarrow> cursor request"
where
  "build_request to_str fresh_flag parts body remote_addr =
     (let raw_target = (case pt_path_and_query parts of Some t \<Rightarrow> t | None \<Rightarrow> ''/'');
          path = percent_decode (pt_path parts);
          query = (case pt_query parts of Some q \<Rightarrow> q | None \<Rightarrow> []);
          host = host_value to_str parts;
          (proto_major, proto_minor) = proto_version (pt_version parts);
          request = request_new fresh_flag (pt_method parts) path;
          request = with_raw_target request raw_target;
          request = with_query request query;
          request = with_content_length request (word_of_nat (length body));
          request = with_host request host;
          request = with_remote_addr request remote_addr;
          request = with_proto request proto_major proto_minor;
          request = foldl (\<lambda>r (name, v). with_header r name v) request (pt_headers parts)
      in request\<lparr>req_body := body_new \<lparr>cur_data = body, cur_pos = 0\<rparr>\<rparr>)"

subsection \<open>The response\<close>

record http_lib =
  status_from_u16 :: "16 word \<Rightarrow> 16 word option"
  header_name_from_bytes :: "bytes \<Rightarrow> bytes option"
  header_value_from_bytes :: "bytes \<Rightarrow> bytes option"
  builder_accepts :: "16 word \<Rightarrow> (bytes \<times> bytes) list \<Rightarrow> bytes \<Rightarrow> bool"

record response =
  resp_status :: "16 word"
  resp_headers :: "(bytes \<times> bytes) list"
  resp_body :: bytes

definition internal_error_response :: response where
  "internal_error_response = \<lparr>resp_status = 500, resp_headers = [], resp_body = []\<rparr>"

text \<open>The headers of the response, in the order they are appended. \<^verbatim>\<open>HeaderMap\<close> belongs to the \<^verbatim>\<open>http\<close> crate; its
  \<^verbatim>\<open>append\<close> panics beyond the 32,768 entries it can hold, and the model speaks of responses that stay below.\<close>

fun append_values :: "http_lib \<Rightarrow> bytes \<Rightarrow> bytes list \<Rightarrow> (bytes \<times> bytes) list \<Rightarrow> (bytes \<times> bytes) list" where
  "append_values h name [] headers = headers"
| "append_values h name (v # vs) headers =
     (case header_value_from_bytes h v of
        None \<Rightarrow> append_values h name vs headers
      | Some header_value \<Rightarrow> append_values h name vs (headers @ [(name, header_value)]))"

fun append_headers :: "http_lib \<Rightarrow> (bytes \<times> bytes list) list \<Rightarrow> (bytes \<times> bytes) list \<Rightarrow> (bytes \<times> bytes) list" where
  "append_headers h [] headers = headers"
| "append_headers h ((name, vs) # rest) headers =
     (case header_name_from_bytes h name of
        None \<Rightarrow> append_headers h rest headers
      | Some header_name \<Rightarrow> append_headers h rest (append_values h header_name vs headers))"

definition builder_body :: "http_lib \<Rightarrow> 16 word \<Rightarrow> (bytes \<times> bytes) list \<Rightarrow> bytes \<Rightarrow> response" where
  "builder_body h status headers body =
     (if builder_accepts h status headers body
      then \<lparr>resp_status = status, resp_headers = headers, resp_body = body\<rparr>
      else internal_error_response)"

definition build_response :: "http_lib \<Rightarrow> shared_response_buffer \<Rightarrow> response" where
  "build_response h buffer =
     (let status = (case status_from_u16 h (srb_status buffer) of Some s \<Rightarrow> s | None \<Rightarrow> 200)
      in builder_body h status (append_headers h (headers_iter (srb_headers buffer)) []) (srb_body buffer))"

text \<open>The message of a rejection is text; the body is its UTF-8 bytes.\<close>

definition reject_response :: "http_lib \<Rightarrow> rejected_request \<Rightarrow> response" where
  "reject_response h rejected =
     (let status = (case status_from_u16 h (rej_status rejected) of Some s \<Rightarrow> s | None \<Rightarrow> 400)
      in builder_body h status [] (concat (map utf8_encode (rej_message rejected))))"

subsection \<open>The request pipeline\<close>

definition resolve_directory_index :: "bytes \<Rightarrow> bytes" where
  "resolve_directory_index path =
     (if ends_with path ''/'' \<and> split_pos path [''.php''] < 0 then path @ ''index.php'' else path)"

text \<open>The context \<^verbatim>\<open>handle\<close> builds, before validation.\<close>

definition handle_context ::
  "(bytes \<Rightarrow> bytes option) \<Rightarrow> nat \<Rightarrow> (host \<Rightarrow> host) \<Rightarrow> parts \<Rightarrow> bytes option \<Rightarrow> bytes \<Rightarrow> bytes \<Rightarrow>
   (cursor, shared_response_buffer) request_context"
where
  "handle_context to_str fresh_flag complete parts body document_root remote_addr =
     (let body_bytes = (case body of Some b \<Rightarrow> b | None \<Rightarrow> []);
          core_request = build_request to_str fresh_flag parts body_bytes remote_addr;
          core_request = core_request\<lparr>req_path := resolve_directory_index (req_path core_request)\<rparr>;
          paths = split_cgi_path document_root None (req_path core_request);
          ctx = context_new (from_utf8_lossy document_root) None (Some core_request) (signal_new complete)
      in ctx\<lparr>ctx_doc_uri := doc_uri paths, ctx_path_info := path_info paths,
             ctx_script_name := script_name paths, ctx_script_filename := script_filename paths\<rparr>)"

text \<open>The dispatched context, if any, and the response. \<open>served\<close> is what the shared buffer holds after the
  dispatched request has completed or was given up; None is a dispatch task that panicked.\<close>

definition handle ::
  "http_lib \<Rightarrow> (bytes \<Rightarrow> bytes option) \<Rightarrow> nat \<Rightarrow> (host \<Rightarrow> host) \<Rightarrow>
   ((cursor, shared_response_buffer) request_context \<Rightarrow> shared_response_buffer option) \<Rightarrow>
   parts \<Rightarrow> bytes option \<Rightarrow> bytes \<Rightarrow> bytes \<Rightarrow>
   (cursor, shared_response_buffer) request_context option \<times> response"
where
  "handle h to_str fresh_flag complete served parts body document_root remote_addr =
     (let ctx = handle_context to_str fresh_flag complete parts body document_root remote_addr
      in case context_validate ctx of
           Inl rejected \<Rightarrow> (None, reject_response h rejected)
         | Inr _ \<Rightarrow>
             (let ctx = ctx\<lparr>ctx_response_sink := Some shared_response_buffer_default\<rparr>
              in case served ctx of
                   None \<Rightarrow> (Some ctx, internal_error_response)
                 | Some buffer \<Rightarrow> (Some ctx, build_response h buffer)))"

subsection \<open>Percent decoding inverts every escaping\<close>

text \<open>The decoder on the list of bytes, without the index.\<close>

fun percent_ref :: "bytes \<Rightarrow> bytes" where
  "percent_ref (c # a # b # rest) =
     (if c = CHR ''%'' then
        (case (hex_digit a, hex_digit b) of
           (Some hi, Some lo) \<Rightarrow> char_of (hi * 16 + lo) # percent_ref rest
         | _ \<Rightarrow> c # percent_ref (a # b # rest))
      else c # percent_ref (a # b # rest))"
| "percent_ref bs = bs"

lemma percent_loop_ref: "percent_loop input i out = out @ percent_ref (drop i input)"
proof (induction input i out rule: percent_loop.induct)
  case (1 input i out)
  show ?case
  proof (cases "i + 2 < length input")
    case True
    then have d: "drop i input = input ! i # input ! (i + 1) # input ! (i + 2) # drop (i + 3) input"
      "drop (i + 1) input = input ! (i + 1) # input ! (i + 2) # drop (i + 3) input"
      by (simp_all add: Cons_nth_drop_Suc [symmetric] eval_nat_numeral)
    show ?thesis
      using True 1 d by (auto simp: percent_loop.simps [of input i out] split: option.splits)
  next
    case False
    then consider "drop i input = []" "length input \<le> i" | "drop i input = [input ! i]" "i < length input"
      "drop (i + 1) input = []"
      | "drop i input = [input ! i, input ! (i + 1)]" "i < length input" "drop (i + 1) input = [input ! (i + 1)]"
      by (cases "length input - i") (auto simp: Cons_nth_drop_Suc [symmetric] numeral_2_eq_2 less_Suc_eq
          not_less le_Suc_eq)
    then show ?thesis
      using False 1 by cases (auto simp: percent_loop.simps [of input i out])
  qed
qed

lemma percent_decode_ref: "percent_decode input = percent_ref input"
  by (simp add: percent_decode_def percent_loop_ref)

lemma percent_ref_plain: "c \<noteq> CHR ''%'' \<Longrightarrow> percent_ref (c # rest) = c # percent_ref rest"
  by (cases "c # rest" rule: percent_ref.cases) (auto split: option.splits)

text \<open>An escape, with digits of either case; a text with some of its bytes escaped.\<close>

definition hex_char :: "bool \<Rightarrow> nat \<Rightarrow> byte" where
  "hex_char upper d = char_of (if d < 10 then 48 + d else if upper then 55 + d else 87 + d)"

definition percent_escape :: "bool \<times> bool \<Rightarrow> byte \<Rightarrow> bytes" where
  "percent_escape cases' b =
     [CHR ''%'', hex_char (fst cases') (bval b div 16), hex_char (snd cases') (bval b mod 16)]"

definition percent_encode :: "((bool \<times> bool) option \<times> byte) list \<Rightarrow> bytes" where
  "percent_encode cs =
     concat (map (\<lambda>(esc, b). case esc of None \<Rightarrow> [b] | Some cases' \<Rightarrow> percent_escape cases' b) cs)"

lemma hex_digit_char: "d < 16 \<Longrightarrow> hex_digit (hex_char upper d) = Some d"
  by (auto simp: hex_digit_def hex_char_def byte_simps)

lemma percent_ref_escape: "percent_ref (percent_escape cases' b @ rest) = b # percent_ref rest"
proof -
  have "bval b < (256 :: nat)" by simp
  then have "bval b div 16 < (16 :: nat)" "bval b mod 16 < (16 :: nat)"
      "bval b div 16 * 16 + bval b mod 16 = (bval b :: nat)"
    by (simp_all add: less_mult_imp_div_less)
  then show ?thesis by (simp add: percent_escape_def hex_digit_char)
qed

text \<open>C33. Percent decoding inverts percent encoding: whatever bytes a client escapes, in whichever letter
  case of the digits, as long as it escapes the percent sign itself, the decoded path is the text
  it encoded; the decoder changes nothing in a path without a percent sign, and it is total: a
  truncated or malformed escape stays as it is.\<close>

theorem percent_decode_roundtrip:
  assumes "list_all (\<lambda>(esc, b). b = CHR ''%'' \<longrightarrow> esc \<noteq> None) cs"
  shows "percent_decode (percent_encode cs) = map snd cs"
  using assms
proof (induction cs)
  case (Cons c cs)
  then show ?case
    by (cases c) (auto simp: percent_decode_ref percent_encode_def percent_ref_plain percent_ref_escape
        split: option.splits)
qed (simp add: percent_decode_ref percent_encode_def)

text \<open>The path of a name with a space, a plus and a percent sign.\<close>

theorem percent_decode_roundtrip_witness:
  "percent_decode ''/a+b%20%2B%2f%25'' = ''/a+b +/%''"
proof -
  let ?cs = "[(None, CHR ''/''), (None, CHR ''a''), (None, CHR ''+''), (None, CHR ''b''),
    (Some (True, True), CHR '' ''), (Some (True, True), CHR ''+''), (Some (True, False), CHR ''/''),
    (Some (True, True), CHR ''%'')]"
  have enc: "percent_encode ?cs = ''/a+b%20%2B%2f%25''" by code_simp
  have "percent_decode (percent_encode ?cs) = map snd ?cs"
    by (rule percent_decode_roundtrip) auto
  then show ?thesis unfolding enc by simp
qed

text \<open>The decoder is the textbook one and never makes a path longer: it agrees with the reference that
  consumes the list from the front, in every position and on every malformed escape, and in
  particular leaves a path without a percent sign unchanged.\<close>

theorem percent_decode_refines:
  "percent_decode input = percent_ref input \<and> length (percent_decode input) \<le> length input \<and>
   (CHR ''%'' \<notin> set input \<longrightarrow> percent_decode input = input)"
proof -
  have "length (percent_ref bs) \<le> length bs" for bs
  proof (induction bs rule: length_induct)
    case IH: (1 bs)
    show ?case
    proof (cases bs rule: percent_ref.cases)
      case (1 c a b rest)
      have "length (percent_ref rest) \<le> length rest" using IH 1 by simp
      moreover have "length (percent_ref (a # b # rest)) \<le> length (a # b # rest)"
        by (rule IH [rule_format]) (simp add: 1)
      ultimately show ?thesis using 1 by (auto split: option.splits)
    qed auto
  qed
  moreover have "CHR ''%'' \<notin> set bs \<Longrightarrow> percent_ref bs = bs" for bs
    by (induction bs) (auto simp: percent_ref_plain)
  ultimately show ?thesis by (simp add: percent_decode_ref)
qed

text \<open>A malformed and a truncated escape.\<close>

theorem percent_decode_refines_witness:
  "percent_decode ''/plain'' = ''/plain'' \<and> percent_decode ''/a%zzb%2'' = ''/a%zzb%2''"
  using percent_decode_refines [of "''/plain''"] by (simp add: percent_decode_ref hex_digit_def)

subsection \<open>The directory index\<close>

lemma occurs_php:
  "occurs_at path ''.php'' k \<longleftrightarrow> k + 4 \<le> length path \<and> list_all is_ascii (take 4 (drop k path)) \<and>
     map to_ascii_lowercase (take 4 (drop k path)) = ''.php''"
proof -
  have four: "length ''.php'' = 4" by simp
  show ?thesis unfolding occurs_at_def four by simp
qed

lemma php_split:
  "(split_pos path [''.php''] < 0 \<longleftrightarrow> (\<forall>k. \<not> occurs_at path ''.php'' k)) \<and>
   (first_occurrence path ''.php'' i \<longrightarrow> split_pos path [''.php''] = int (i + 4))"
proof -
  have uniq: "first_occurrence path s i \<Longrightarrow> first_occurrence path s j \<Longrightarrow> i = j" for s i j
    by (cases i j rule: linorder_cases) (auto simp: first_occurrence_def list_all_iff)
  have "split_result path [''.php''] (split_pos path [''.php''])"
    using split_pos_loop_result [of path "[''.php'']"] by (simp only: split_pos_def list.distinct if_False)
  then consider "split_pos path [''.php''] = - 1" "\<forall>k. \<not> occurs_at path ''.php'' k"
    | j where "first_occurrence path ''.php'' j" "split_pos path [''.php''] = int (j + 4)"
    by (auto simp: split_result_def Cons_eq_append_conv)
  then show ?thesis
  proof cases
    case 1
    then show ?thesis by (auto simp: first_occurrence_def)
  next
    case (2 j)
    then have "occurs_at path ''.php'' j" by (simp add: first_occurrence_def)
    with 2 uniq show ?thesis by auto
  qed
qed

text \<open>The appended name holds the first occurrence: none is inside the path, none straddles the slash.\<close>

lemma index_occurrence:
  assumes "\<forall>k. \<not> occurs_at (p @ ''/'') ''.php'' k"
  shows "first_occurrence (p @ ''/index.php'') ''.php'' (length p + 6)"
proof -
  have "\<not> occurs_at (p @ ''/index.php'') ''.php'' k" if "k < length p + 6" for k
  proof
    assume occ: "occurs_at (p @ ''/index.php'') ''.php'' k"
    let ?w = "take 4 (drop k (p @ ''/index.php''))"
    have w: "map to_ascii_lowercase ?w = ''.php''"
      using occ by (simp only: occurs_php)
    consider "k + 4 \<le> length p + 1" | "k \<le> length p" "length p + 1 < k + 4" | "length p < k" by linarith
    then show False
    proof cases
      case 1
      then have "?w = take 4 (drop k (p @ ''/''))" by (simp add: take_Cons')
      with 1 occ have "occurs_at (p @ ''/'') ''.php'' k" unfolding occurs_php by simp
      with assms show False by blast
    next
      case 2
      then have j: "length p - k < 4" "?w ! (length p - k) = CHR ''/''" "length p - k < length ?w"
        by (auto simp: nth_append)
      then have "to_ascii_lowercase (CHR ''/'') = ''.php'' ! (length p - k)"
        using w by (metis nth_map)
      with j(1) show False by (auto simp: to_ascii_lowercase_def less_Suc_eq numeral_eq_Suc)
    next
      case 3
      with that have "k - length p \<in> {1, 2, 3, 4, 5}" by auto
      with w 3 show False by (auto simp: to_ascii_lowercase_def)
    qed
  qed
  moreover have "occurs_at (p @ ''/index.php'') ''.php'' (length p + 6)"
    by (simp add: occurs_php is_ascii_def to_ascii_lowercase_def)
  ultimately show ?thesis by (simp add: first_occurrence_def list_all_iff)
qed

text \<open>The directory index injects nothing: a path that ends in a slash and carries no split point gets
  the index file as its script, the whole rewritten path is the document URI and the path info
  stays empty, and rewriting again changes nothing; every other path, in particular one with a
  script and a trailing slash, is left as it is.\<close>

theorem directory_index_injects_nothing:
  "(let path' = resolve_directory_index path; r = split_cgi_path root None path'
    in (if ends_with path ''/'' \<and> split_pos path [''.php''] < 0
        then path' = path @ ''index.php'' \<and> doc_uri r = path' \<and> path_info r = [] \<and>
             script_name r = ensure_leading_slash path'
        else path' = path) \<and> resolve_directory_index path' = path')"
proof (cases "ends_with path ''/'' \<and> split_pos path [''.php''] < 0")
  case True
  then obtain p where p: "path = p @ ''/''" by (auto simp: ends_with_iff)
  have "split_pos (path @ ''index.php'') [''.php''] = int (length (path @ ''index.php''))"
    using True index_occurrence [of p] php_split [of path] php_split [of "path @ ''index.php''" "length p + 6"]
    by (simp add: p)
  then show ?thesis
    using True strip_suffix_append [of "path @ ''index.php''" "[]"]
    by (simp add: resolve_directory_index_def split_cgi_path_def Let_def)
next
  case False
  then have "resolve_directory_index path = path" by (simp add: resolve_directory_index_def)
  with False show ?thesis by (simp add: Let_def)
qed

end
