(* ===== verification/HttpServe.thy ===== *)
theory HttpServe
  imports HttpFront Callbacks
begin

section \<open>What a request becomes: the front end with the callbacks and the PHP thread\<close>

text \<open>
  Properties that span \<^verbatim>\<open>frankenrust-server\<close> and the callbacks: what PHP sees of a hyper request, that
  the file a PHP thread is asked to run is always one below the document root, and that the response
  on the wire is what the script wrote. \<open>http_lib_ok\<close> states the documented behaviour of the \<^verbatim>\<open>http\<close>
  crate that the code relies on: a status converts exactly in 100..=999, and the builder accepts
  parts that have been converted.
\<close>

definition http_lib_ok :: "http_lib \<Rightarrow> bool" where
  "http_lib_ok h =
     ((\<forall>s. status_from_u16 h s = (if 100 \<le> s \<and> s \<le> 999 then Some s else None)) \<and>
      (\<forall>s headers body. 100 \<le> s \<and> s \<le> 999 \<longrightarrow> builder_accepts h s headers body))"

subsection \<open>The request the code sees\<close>

lemma with_headers:
  "foldl (\<lambda>r p. with_header r (fst p) (snd p)) r ps =
     r\<lparr>req_headers := hdr.add_list (req_headers r) ps\<rparr>"
  by (induction ps arbitrary: r) (auto simp: hdr.add_list_def with_header_def split_def)

lemma build_request_eq:
  "build_request to_str flag parts body remote_addr =
     \<lparr>req_method = pt_method parts,
      req_raw_target = (case pt_path_and_query parts of Some t \<Rightarrow> t | None \<Rightarrow> ''/''),
      req_path = percent_decode (pt_path parts),
      req_query = (case pt_query parts of Some q \<Rightarrow> q | None \<Rightarrow> []),
      req_headers = headers_of_list (pt_headers parts), req_content_length = word_of_nat (length body),
      req_host = host_value to_str parts, req_remote_addr = remote_addr,
      req_proto_major = fst (proto_version (pt_version parts)),
      req_proto_minor = snd (proto_version (pt_version parts)), req_cancelled = flag,
      req_body = body_new \<lparr>cur_data = body, cur_pos = 0\<rparr>\<rparr>"
  by (simp add: build_request_def Let_def split_def with_headers request_new_def with_raw_target_def
      with_query_def with_content_length_def with_host_def with_remote_addr_def with_proto_def
      headers_of_list_add)

text \<open>What PHP can read of a request is what the client sent: looking a header up in any letter case
  gives all the values that came under it, in order, the length given to PHP is the length of the
  body that arrived and not that of a header, filling a buffer delivers the body from its start, and
  the path is the decoded one.\<close>

theorem build_request_readback:
  "(let r = build_request to_str flag parts body remote_addr;
        vs = map snd (filter (\<lambda>(n, v). canonical_header_name n = canonical_header_name m) (pt_headers parts));
        n = min (length buf) (length body)
    in headers_get_all (req_headers r) m = (if vs = [] then None else Some vs) \<and>
       unat (req_content_length r) = length body mod 2 ^ 64 \<and>
       req_path r = percent_ref (pt_path parts) \<and> req_method r = pt_method parts \<and>
       (\<exists>rest. body_fill cursor_read (req_body r) buf = Some (n, take n body @ drop n buf, rest)))"
proof -
  have "cursor_content \<lparr>cur_data = body, cur_pos = 0\<rparr> = body" by (simp add: cursor_content_def)
  then have "\<exists>rest. body_fill cursor_read (body_new \<lparr>cur_data = body, cur_pos = 0\<rparr>) buf =
      Some (min (length buf) (length body), take (min (length buf) (length body)) body @
        drop (min (length buf) (length body)) buf, rest)"
    using cur.body_fill_total [of buf "\<lparr>cur_data = body, cur_pos = 0\<rparr>"] by (auto simp: Let_def body_new_def)
  then show ?thesis
    using hdr.all_add_list [of headers_default "pt_headers parts" m]
    by (auto simp: build_request_eq Let_def percent_decode_ref headers_of_list_add hdr.inv_empty
        hdr.all_empty hdr.values_for_def unat_of_nat)
qed

subsection \<open>The file a thread is asked to run\<close>

lemma index_bytes: "set (resolve_directory_index p) \<subseteq> set p \<union> set ''index.php''"
  by (auto simp: resolve_directory_index_def)

lemma script_name_bytes: "set (script_name (split_cgi_path root None p)) \<subseteq> set p \<union> {CHR ''/''}"
proof -
  have "set (ensure_leading_slash q) \<subseteq> set q \<union> {CHR ''/''}" for q by (auto simp: ensure_leading_slash_def)
  moreover have "set (case strip_suffix p q of Some r \<Rightarrow> r | None \<Rightarrow> p) \<subseteq> set p" for q
    by (auto simp: strip_suffix_def dest: in_set_takeD)
  moreover obtain q where "script_name (split_cgi_path root None p) =
      ensure_leading_slash (case strip_suffix p q of Some r \<Rightarrow> r | None \<Rightarrow> p)"
    by (simp add: split_cgi_path_def Let_def split_def)
  ultimately show ?thesis by fastforce
qed

lemma script_filename_join:
  "script_filename (split_cgi_path root None p) =
     sanitized_path_join root (script_name (split_cgi_path root None p))"
  by (simp add: split_cgi_path_def Let_def split_def)

lemma handle_context_simps [simp]:
  "ctx_request (handle_context to_str flag complete parts body root remote) =
     Some ((build_request to_str flag parts (case body of Some b \<Rightarrow> b | None \<Rightarrow> []) remote)
       \<lparr>req_path := resolve_directory_index (percent_decode (pt_path parts))\<rparr>)"
  "ctx_script_filename (handle_context to_str flag complete parts body root remote) =
     script_filename (split_cgi_path root None (resolve_directory_index (percent_decode (pt_path parts))))"
  "ctx_request_uri (handle_context to_str flag complete parts body root remote) =
     (case pt_path_and_query parts of Some t \<Rightarrow> t | None \<Rightarrow> ''/'')"
  "\<not> ctx_is_done (handle_context to_str flag complete parts body root remote)"
  by (simp_all add: handle_context_def context_new_def Let_def build_request_eq)

lemma validated_no_nul: "validate_request r = Inr u \<Longrightarrow> CHR 0x00 \<notin> set (req_path r)"
  by (auto simp: validate_request_def split: if_splits)

text \<open>C1. Whatever a client requests, the file a PHP thread runs is below the document root. A request that
  is rejected is not dispatched and gets the rejection as its response. Every request that is
  dispatched has a script file name that the thread accepts, so that the slot never meets an empty
  one, that C reads to its end, no NUL cutting it short, and whose segments are those of the root
  followed by proper names; the request URI is the target on the wire, decoding and index
  rewriting do not show in it.\<close>

theorem dispatched_script_confined:
  assumes "CHR 0x00 \<notin> set root"
  shows "(case handle h to_str flag complete served parts body root remote of
     (None, resp) \<Rightarrow> (\<exists>rejected. context_validate (handle_context to_str flag complete parts body root remote)
        = Inl rejected \<and> resp = reject_response h rejected)
   | (Some ctx, resp) \<Rightarrow>
       (\<exists>block names. script_path_new (ctx_script_filename ctx) = Some block \<and>
          c_str block = ctx_script_filename ctx \<and>
          path_segs (c_str block) = path_segs (clean_path (root_or_dot root)) @ names \<and>
          list_all proper_seg names) \<and>
       ctx_request_uri ctx = (case pt_path_and_query parts of Some t \<Rightarrow> t | None \<Rightarrow> ''/'') \<and>
       \<not> ctx_is_done ctx)"
proof (cases "context_validate (handle_context to_str flag complete parts body root remote)")
  case (Inl rejected)
  then show ?thesis by (simp add: handle_def)
next
  case (Inr u)
  define p where "p = resolve_directory_index (percent_decode (pt_path parts))"
  define f where "f = script_filename (split_cgi_path root None p)"
  have "CHR 0x00 \<notin> set p"
    using validated_no_nul Inr by (fastforce simp: context_validate_def p_def)
  then have "CHR 0x00 \<notin> set (script_name (split_cgi_path root None p))"
    using script_name_bytes [of root p] by auto
  then have nul: "CHR 0x00 \<notin> set f"
    using assms sanitized_path_join_bytes [of root "script_name (split_cgi_path root None p)"]
    by (auto simp: f_def script_filename_join)
  have "f \<noteq> []" by (simp add: f_def script_filename_join sanitized_path_join_nonempty)
  then have "script_path_new f = Some (f @ [CHR 0x00])" by (simp add: script_path_new_def)
  moreover have "\<exists>names. path_segs f = path_segs (clean_path (root_or_dot root)) @ names \<and> list_all proper_seg names"
    using path_join_segs [of root "script_name (split_cgi_path root None p)"]
    by (auto simp: f_def script_filename_join)
  ultimately show ?thesis
    using Inr by (auto simp: handle_def Let_def p_def [symmetric] f_def [symmetric] c_str_nul [OF nul]
        split: option.splits)
qed

text \<open>A request for an encoded parent directory, below \<^verbatim>\<open>/srv\<close>, with the documented conversions.\<close>

definition plain_http :: http_lib where
  "plain_http = \<lparr>status_from_u16 = (\<lambda>s. if 100 \<le> s \<and> s \<le> 999 then Some s else None),
     header_name_from_bytes = (\<lambda>n. Some (map to_ascii_lowercase n)), header_value_from_bytes = Some,
     builder_accepts = (\<lambda>_ _ _. True)\<rparr>"

definition sample_parts :: parts where
  "sample_parts = \<lparr>pt_method = ''GET'', pt_path_and_query = Some ''/%2e%2e/docs/?q=1'', pt_path = ''/%2e%2e/docs/'',
     pt_query = Some ''q=1'', pt_version = HTTP_11, pt_headers = [(''host'', ''a.example'')]\<rparr>"

lemma sample_path: "percent_decode (pt_path sample_parts) = ''/../docs/''" by code_simp

lemma sample_file:
  "script_filename (split_cgi_path ''/srv'' None (resolve_directory_index ''/../docs/'')) = ''/srv/docs/index.php''"
  by code_simp

lemma sample_valid:
  "context_validate (handle_context Some 0 id sample_parts None ''/srv'' remote) = Inr ()"
proof -
  have "headers_get_first (headers_of_list (pt_headers sample_parts)) ''Content-Length'' = None" by code_simp
  moreover have "CHR 0x00 \<notin> set (resolve_directory_index ''/../docs/'')" by code_simp
  ultimately show ?thesis by (simp add: context_validate_def validate_request_def sample_path build_request_eq)
qed

theorem dispatched_script_confined_witness:
  "\<exists>ctx resp. handle plain_http Some 0 id (\<lambda>_. Some shared_response_buffer_default) sample_parts None
       ''/srv'' ''10.0.0.1:9'' = (Some ctx, resp) \<and>
     script_path_new (ctx_script_filename ctx) = Some (''/srv/docs/index.php'' @ [CHR 0x00])"
proof -
  obtain ctx resp where h: "handle plain_http Some 0 id (\<lambda>_. Some shared_response_buffer_default) sample_parts None
      ''/srv'' ''10.0.0.1:9'' = (Some ctx, resp)" "ctx_script_filename ctx = ''/srv/docs/index.php''"
    by (simp add: handle_def sample_valid sample_path sample_file Let_def)
  have "CHR 0x00 \<notin> set ''/srv''" by simp
  from dispatched_script_confined [OF this, where h = plain_http and to_str = Some and flag = 0 and complete = id and
      served = "\<lambda>_. Some shared_response_buffer_default"
      and parts = sample_parts and body = None and remote = "''10.0.0.1:9''"] h
  obtain block where "script_path_new (ctx_script_filename ctx) = Some block" by auto
  with h show ?thesis by (auto simp: script_path_new_def)
qed

subsection \<open>The response on the wire\<close>

text \<open>A script that sends its header lines and then its body: the context is installed in the slot of
  the thread, and what the sink holds afterwards is the shared buffer.\<close>

definition script_run ::
  "host \<Rightarrow> rstring \<Rightarrow> nat \<Rightarrow> 32 word \<Rightarrow> bytes list \<Rightarrow> bytes list \<Rightarrow> (cursor, shared_response_buffer) slots_table \<Rightarrow>
   (cursor, shared_response_buffer) request_context \<Rightarrow> shared_response_buffer option"
where
  "script_run w e i status lines chunks s ctx =
     (let s = snd (slots_set i ctx s);
          s = snd (go_write_headers buffered_sink i status lines s);
          s = snd (ub_writes buffered_sink w e i chunks s)
      in Option.bind (slots_abs s i) ctx_response_sink)"

lemma append_values_eq:
  "append_values h name vs headers = headers @ map (Pair name) (List.map_filter (header_value_from_bytes h) vs)"
  by (induction vs arbitrary: headers) (auto simp: List.map_filter_simps split: option.splits)

lemma append_headers_eq:
  "append_headers h es headers = headers @ concat (map (\<lambda>(name, vs).
     case header_name_from_bytes h name of None \<Rightarrow> []
     | Some n \<Rightarrow> map (Pair n) (List.map_filter (header_value_from_bytes h) vs)) es)"
  by (induction es arbitrary: headers) (auto simp: append_values_eq split: option.splits)

lemma script_run_buffer:
  assumes "\<not> holding_slot_lock s" "\<not> ctx_is_done ctx" "ctx_response_sink ctx = Some shared_response_buffer_default"
  shows "script_run w e i status lines chunks s ctx =
    Some \<lparr>srb_status = fst (clamp_status status),
      srb_headers = (if uint (fst (clamp_status status)) < 200 then headers_default
                     else headers_of_list (header_pairs lines)),
      srb_body = concat chunks\<rparr>"
proof -
  obtain s1 where s1: "slots_set i ctx s = (Inr (), s1)" "slots_abs s1 i = Some ctx" "\<not> holding_slot_lock s1"
    using assms(1) by (simp add: slots_set_def guard_acquire_def Let_def)
  have "srb_headers shared_response_buffer_default = headers_default"
    by (simp add: shared_response_buffer_default_def)
  from write_headers_live [OF s1(3,2) assms(2,3) this, of status lines]
  obtain s2 logs ctx2 b2 where s2: "go_write_headers buffered_sink i status lines s1 = (Inr (True, logs), s2)"
    "slots_abs s2 i = Some ctx2" "\<not> ctx_is_done ctx2" "ctx_response_sink ctx2 = Some b2" "\<not> holding_slot_lock s2"
    "b2 = \<lparr>srb_status = fst (clamp_status status), srb_headers = (if uint (fst (clamp_status status)) < 200
      then headers_default else headers_of_list (header_pairs lines)), srb_body = []\<rparr>"
    using assms(2) by (auto simp: shared_response_buffer_default_def)
  from ub_writes_live [OF s2(5,2,3,4), of w e chunks] s1 s2 show ?thesis
    by (auto simp: script_run_def Let_def)
qed

text \<open>C7. The response on the wire is what the script produced: for a valid request, the status is the one the
  script sent, clamped to a status HTTP has, the headers are its well-formed lines in order of first
  appearance, less those whose name or value HTTP does not allow, and none for an informational
  status, and the body is the concatenation of its writes.\<close>

theorem http_response_end_to_end:
  assumes "http_lib_ok h" "\<not> holding_slot_lock s"
    and "context_validate (handle_context to_str flag complete parts body root remote) = Inr ()"
  shows "snd (handle h to_str flag complete (script_run w e i status lines chunks s) parts body root remote) =
    \<lparr>resp_status = fst (clamp_status status),
     resp_headers = (if uint (fst (clamp_status status)) < 200 then []
       else concat (map (\<lambda>(name, vs). case header_name_from_bytes h name of None \<Rightarrow> []
              | Some n \<Rightarrow> map (Pair n) (List.map_filter (header_value_from_bytes h) vs))
            (headers_iter (headers_of_list (header_pairs lines))))),
     resp_body = concat chunks\<rparr>"
proof -
  let ?ctx = "handle_context to_str flag complete parts body root remote\<lparr>ctx_response_sink := Some shared_response_buffer_default\<rparr>"
  have "uint (fst (clamp_status status)) \<in> {100..999}"
    using clamp_status_range [of status] by (auto simp: split_def Let_def)
  then have ok: "100 \<le> fst (clamp_status status) \<and> fst (clamp_status status) \<le> 999"
    by (simp add: word_le_def)
  have "script_run w e i status lines chunks s ?ctx = Some \<lparr>srb_status = fst (clamp_status status),
      srb_headers = (if uint (fst (clamp_status status)) < 200 then headers_default
                     else headers_of_list (header_pairs lines)), srb_body = concat chunks\<rparr>"
    by (rule script_run_buffer) (use assms(2) in simp_all)
  moreover have "headers_iter headers_default = []" by (simp add: headers_iter_def headers_default_def)
  ultimately show ?thesis
    using assms(1,3) ok
    by (auto simp: handle_def build_response_def builder_body_def http_lib_ok_def append_headers_eq Let_def)
qed

text \<open>The sample request, answered with a header and two writes.\<close>

theorem http_response_end_to_end_witness:
  "snd (handle plain_http Some 0 id (script_run quiet_host [] 0 404 [''X-A: 1''] [''not '', ''here''] slots_new)
     sample_parts None ''/srv'' ''10.0.0.1:9'') =
   \<lparr>resp_status = 404, resp_headers = [(''x-a'', ''1'')], resp_body = ''not here''\<rparr>"
proof -
  have ok: "http_lib_ok plain_http" by (simp add: http_lib_ok_def plain_http_def)
  have free: "\<not> holding_slot_lock (slots_new :: (cursor, shared_response_buffer) slots_table)"
    by (simp add: slots_new_def)
  have c: "fst (clamp_status 404) = 404" by (simp add: clamp_status_def)
  have it: "headers_iter (headers_of_list (header_pairs [''X-A: 1''])) = [(''X-A'', [''1''])]" by code_simp
  have low: "char_of (120 :: nat) = CHR ''x''" "char_of (97 :: nat) = CHR ''a''" by code_simp+
  show ?thesis
    unfolding http_response_end_to_end [OF ok free sample_valid] c it
    by (simp add: plain_http_def List.map_filter_simps to_ascii_lowercase_def low)
qed

end
