(* ===== verification/ServerLoop.thy ===== *)
theory ServerLoop
  imports PoolInit
begin

section \<open>The server's accept loop and its shutdown\<close>

text \<open>
  \<^verbatim>\<open>run\<close> of \<^verbatim>\<open>server.rs\<close>: booting the regular threads, the accept loop with its backoff, the connection
  tasks in their \<^verbatim>\<open>JoinSet\<close>, and the way out. Which branch of a \<^verbatim>\<open>select!\<close> is taken is an event, so that
  every order of events is a run; a backoff is counted in milliseconds. A connection task is what
  the loop can see of it: running, with or without the graceful signal, or finished. What hyper does
  on a connection, and when a peer closes it, is not constrained.
\<close>

subsection \<open>Booting\<close>

text \<open>The loop over \<^verbatim>\<open>config.num_threads\<close> claims; \<open>assigned i\<close> is the state slot \<open>i\<close> is in once
  \<^verbatim>\<open>convert_to_regular_thread\<close> has given it its handler, None if the slot refused it. Either of the two
  \<^verbatim>\<open>expect\<close>s ends the loop in a panic.\<close>

datatype boot_panic = No_Inactive_Slot | Handler_Refused nat

fun convert_all :: "(nat \<Rightarrow> state option) \<Rightarrow> nat \<Rightarrow> state list \<Rightarrow> boot_panic + nat list \<times> state list" where
  "convert_all assigned 0 states = Inr ([], states)"
| "convert_all assigned (Suc n) states =
     (case get_inactive_php_thread states of
        None \<Rightarrow> Inl No_Inactive_Slot
      | Some (i, boot) \<Rightarrow>
          (case assigned i of
             None \<Rightarrow> Inl (Handler_Refused i)
           | Some st \<Rightarrow>
               (case convert_all assigned n (states[i := st]) of
                  Inl e \<Rightarrow> Inl e
                | Inr (is, states) \<Rightarrow> Inr (i # is, states))))"

subsection \<open>Accept errors\<close>

datatype error_kind = Connection_Aborted | Connection_Reset | Interrupted_Kind | Would_Block | Other_Kind

record accept_error =
  err_kind :: error_kind
  err_os :: "int option"

definition EMFILE :: int where "EMFILE = 24"
definition ENFILE :: int where "ENFILE = 23"

definition is_transient_accept_error :: "accept_error \<Rightarrow> bool" where
  "is_transient_accept_error err =
     (err_kind err \<in> {Connection_Aborted, Connection_Reset, Interrupted_Kind, Would_Block} \<or>
      (case err_os err of Some e \<Rightarrow> e = EMFILE \<or> e = ENFILE | None \<Rightarrow> False))"

definition INITIAL_ACCEPT_BACKOFF :: nat where "INITIAL_ACCEPT_BACKOFF = 5"
definition MAX_ACCEPT_BACKOFF :: nat where "MAX_ACCEPT_BACKOFF = 1000"

definition next_backoff :: "nat \<Rightarrow> nat" where
  "next_backoff accept_backoff = min (accept_backoff * 2) MAX_ACCEPT_BACKOFF"

subsection \<open>The loop\<close>

datatype conn_task = Running bool | Finished

datatype run_pc = Serving | Backing_Off | Draining | Joining_Aborted | Over

record server =
  sv_pc :: run_pc
  sv_backoff :: nat
  sv_fatal :: "accept_error option"
  sv_listening :: bool
  sv_graceful :: bool
  sv_conns :: "conn_task list"
  sv_drains :: nat

definition server_start :: server where
  "server_start = \<lparr>sv_pc = Serving, sv_backoff = INITIAL_ACCEPT_BACKOFF, sv_fatal = None,
     sv_listening = True, sv_graceful = False, sv_conns = [], sv_drains = 0\<rparr>"

text \<open>Leaving the loop: the listener is dropped and every connection is told to finish.\<close>

definition stop_serving :: "server \<Rightarrow> server" where
  "stop_serving s = s\<lparr>sv_listening := False, sv_graceful := True, sv_pc := Draining\<rparr>"

datatype event =
    Accepted | Accept_Failed accept_error | Backoff_Elapsed | Shutdown_Fires
  | Join nat | Drain_Timeout | Drain_Pool
  | Conn_Ends nat | Conn_Signalled nat

definition remove_at :: "nat \<Rightarrow> 'a list \<Rightarrow> 'a list" where
  "remove_at i xs = take i xs @ drop (Suc i) xs"

fun server_next :: "event \<Rightarrow> server \<Rightarrow> server option" where
  "server_next Accepted s =
     (if sv_pc s = Serving
      then Some (s\<lparr>sv_backoff := INITIAL_ACCEPT_BACKOFF, sv_conns := sv_conns s @ [Running False]\<rparr>) else None)"
| "server_next (Accept_Failed err) s =
     (if sv_pc s = Serving
      then (if is_transient_accept_error err then Some (s\<lparr>sv_pc := Backing_Off\<rparr>)
            else Some (stop_serving (s\<lparr>sv_fatal := Some err\<rparr>)))
      else None)"
| "server_next Backoff_Elapsed s =
     (if sv_pc s = Backing_Off
      then Some (s\<lparr>sv_backoff := next_backoff (sv_backoff s), sv_pc := Serving\<rparr>) else None)"
| "server_next Shutdown_Fires s =
     (if sv_pc s \<in> {Serving, Backing_Off} then Some (stop_serving s) else None)"
| "server_next (Join i) s =
     (if sv_pc s \<in> {Serving, Draining, Joining_Aborted} \<and> i < length (sv_conns s) \<and> sv_conns s ! i = Finished
      then Some (s\<lparr>sv_conns := remove_at i (sv_conns s)\<rparr>) else None)"
| "server_next Drain_Timeout s =
     (if sv_pc s = Draining \<and> sv_conns s \<noteq> []
      then Some (s\<lparr>sv_pc := Joining_Aborted, sv_conns := map (\<lambda>_. Finished) (sv_conns s)\<rparr>) else None)"
| "server_next Drain_Pool s =
     (if sv_pc s \<in> {Draining, Joining_Aborted} \<and> sv_conns s = []
      then Some (s\<lparr>sv_pc := Over, sv_drains := sv_drains s + 1\<rparr>) else None)"
| "server_next (Conn_Ends i) s =
     (if i < length (sv_conns s) \<and> sv_conns s ! i \<noteq> Finished
      then Some (s\<lparr>sv_conns := (sv_conns s)[i := Finished]\<rparr>) else None)"
| "server_next (Conn_Signalled i) s =
     (if sv_graceful s \<and> i < length (sv_conns s) \<and> sv_conns s ! i = Running False
      then Some (s\<lparr>sv_conns := (sv_conns s)[i := Running True]\<rparr>) else None)"

text \<open>What \<^verbatim>\<open>run\<close> returns.\<close>

definition run_result :: "server \<Rightarrow> accept_error + unit" where
  "run_result s = (case sv_fatal s of Some err \<Rightarrow> Inl err | None \<Rightarrow> Inr ())"

subsection \<open>Booting never panics\<close>

lemma first_inactive:
  "Inactive \<in> set states \<Longrightarrow>
     \<exists>i. get_inactive_php_thread states = Some (i, False) \<and> i < length states \<and> states ! i = Inactive"
proof -
  assume "Inactive \<in> set states"
  then obtain i where i: "position (\<lambda>st. st = Inactive) states = Some i"
    by (cases "position (\<lambda>st. st = Inactive) states") (auto simp: position_None_iff)
  with position_SomeD [OF i] show ?thesis by (simp add: get_inactive_php_thread_def)
qed

lemma count_update:
  "i < length xs \<Longrightarrow> xs ! i = x \<Longrightarrow> y \<noteq> x \<Longrightarrow> Suc (count_list (xs[i := y]) x) = count_list xs x"
proof (induction xs arbitrary: i)
  case (Cons a xs)
  then show ?case by (cases i) auto
qed simp

definition converted ::
  "(nat \<Rightarrow> state option) \<Rightarrow> nat \<Rightarrow> state list \<Rightarrow> boot_panic + nat list \<times> state list \<Rightarrow> bool"
where
  "converted assigned n states r =
     (case r of
        Inl e \<Rightarrow> \<exists>i < length states. states ! i = Inactive \<and> assigned i = None \<and> e = Handler_Refused i
      | Inr (is, states') \<Rightarrow>
          length is = n \<and> distinct is \<and>
          (\<forall>i \<in> set is. i < length states \<and> states ! i = Inactive \<and> assigned i = Some (states' ! i)) \<and>
          length states' = length states \<and> (\<forall>i. i \<notin> set is \<longrightarrow> states' ! i = states ! i))"

lemma convert_all_converts:
  assumes "\<And>i. assigned i \<noteq> Some Inactive"
  shows "n \<le> count_list states Inactive \<Longrightarrow> converted assigned n states (convert_all assigned n states)"
proof (induction n arbitrary: states)
  case 0
  show ?case by (simp add: converted_def)
next
  case (Suc n)
  then have "Inactive \<in> set states" by (metis Suc_le_lessD count_list_0_iff less_nat_zero_code)
  from first_inactive [OF this] obtain i where i: "get_inactive_php_thread states = Some (i, False)"
    "i < length states" "states ! i = Inactive" by blast
  show ?case
  proof (cases "assigned i")
    case None
    with i show ?thesis by (auto simp: converted_def)
  next
    case (Some st)
    with assms [of i] have st: "st \<noteq> Inactive" by auto
    then have "n \<le> count_list (states[i := st]) Inactive"
      using count_update [OF i(2,3) st] Suc.prems by (metis Suc_le_mono)
    note c = Suc.IH [OF this]
    show ?thesis
    proof (cases "convert_all assigned n (states[i := st])")
      case (Inl e)
      with c obtain j where j: "j < length states" "states[i := st] ! j = Inactive" "assigned j = None" "e = Handler_Refused j"
        by (auto simp: converted_def)
      then have "states ! j = Inactive" using Some by (cases "j = i") auto
      with j i Some Inl show ?thesis by (auto simp: converted_def)
    next
      case (Inr r)
      obtain "is" states' where "r = (is, states')" by (cases r)
      with c Inr have r: "convert_all assigned n (states[i := st]) = Inr (is, states')" "length is = n" "distinct is"
        "\<forall>j \<in> set is. j < length states \<and> states[i := st] ! j = Inactive \<and> assigned j = Some (states' ! j)"
        "length states' = length states" "\<forall>j. j \<notin> set is \<longrightarrow> states' ! j = states[i := st] ! j"
        by (auto simp: converted_def)
      have "i \<notin> set is" using r(4) st i(2) by (metis nth_list_update_eq)
      moreover have "states' ! i = st" using r(6) calculation i(2) by simp
      moreover have "\<forall>j \<in> set is. states ! j = Inactive" using r(4) calculation(1) by (metis nth_list_update_neq)
      moreover have "\<forall>j. j \<notin> set is \<and> j \<noteq> i \<longrightarrow> states' ! j = states ! j" using r(6) by simp
      ultimately show ?thesis using r(1-5) i Some by (simp add: converted_def)
    qed
  qed
qed

lemma all_converted:
  assumes "converted assigned n (replicate n Inactive) (Inr (is, states'))"
  shows "set is = {..<n}" "length states' = n" "\<forall>i < n. assigned i = Some (states' ! i)"
proof -
  show "set is = {..<n}"
    using assms by (intro card_subset_eq) (auto simp: converted_def distinct_card)
  with assms show "length states' = n" "\<forall>i < n. assigned i = Some (states' ! i)" by (auto simp: converted_def)
qed

text \<open>The server's start cannot hit its first panic: from a pool with as many inactive slots as it asks for,
  every claim finds one, each slot is claimed once and gets its handler unless one refuses it, and no slot that is not
  inactive is touched; with more claims than inactive slots and nothing reserved it would panic.\<close>

theorem convert_all_claims_each_once:
  assumes "\<And>i. assigned i \<noteq> Some Inactive" "n = length states" "list_all (\<lambda>st. st = Inactive) states"
  shows "(case convert_all assigned n states of
      Inl e \<Rightarrow> \<exists>i < n. assigned i = None \<and> e = Handler_Refused i
    | Inr (is, states') \<Rightarrow> distinct is \<and> set is = {..<n} \<and> map Some states' = map assigned [0..<n]) \<and>
    convert_all assigned (Suc 0) (filter (\<lambda>st. st \<noteq> Inactive \<and> st \<noteq> Reserved) others) = Inl No_Inactive_Slot"
proof -
  have states: "states = replicate n Inactive" using assms(2,3) by (simp add: list_all_iff replicate_eqI)
  moreover have "count_list (replicate n Inactive) Inactive = n" by (induction n) auto
  ultimately have "n \<le> count_list states Inactive" by simp
  note c = convert_all_converts [of assigned, OF assms(1) this]
  have "get_inactive_php_thread (filter (\<lambda>st. st \<noteq> Inactive \<and> st \<noteq> Reserved) others) = None"
    by (auto simp: get_inactive_php_thread_def position_None_iff split: option.splits)
  then have "convert_all assigned (Suc 0) (filter (\<lambda>st. st \<noteq> Inactive \<and> st \<noteq> Reserved) others) = Inl No_Inactive_Slot"
    by simp
  moreover have "case convert_all assigned n states of
      Inl e \<Rightarrow> \<exists>i < n. assigned i = None \<and> e = Handler_Refused i
    | Inr (is, states') \<Rightarrow> distinct is \<and> set is = {..<n} \<and> map Some states' = map assigned [0..<n]"
  proof (cases "convert_all assigned n states")
    case (Inl e)
    with c assms(2) show ?thesis by (auto simp: converted_def)
  next
    case (Inr r)
    obtain "is" states' where r: "r = (is, states')" by (cases r)
    with c Inr have conv: "converted assigned n (replicate n Inactive) (Inr (is, states'))" by (simp add: states)
    then have "distinct is" by (simp add: converted_def)
    moreover have "map Some states' = map assigned [0..<n]"
      using all_converted [OF conv] by (intro nth_equalityI) auto
    ultimately show ?thesis using Inr r all_converted(1) [OF conv] by simp
  qed
  ultimately show ?thesis by blast
qed

text \<open>Three slots.\<close>

theorem convert_all_claims_each_once_witness:
  "\<exists>is. convert_all (\<lambda>_. Some TransitionComplete) 3 [Inactive, Inactive, Inactive] =
     Inr (is, [TransitionComplete, TransitionComplete, TransitionComplete]) \<and> set is = {0, 1, 2}"
proof -
  have all: "list_all (\<lambda>st. st = Inactive) [Inactive, Inactive, Inactive]" by simp
  let ?r = "convert_all (\<lambda>_. Some TransitionComplete) 3 [Inactive, Inactive, Inactive]"
  have "map Some xs = map (\<lambda>_. Some TransitionComplete) [0..<3] \<Longrightarrow>
      xs = [TransitionComplete, TransitionComplete, TransitionComplete]" for xs
    by (auto simp: upt_rec)
  moreover have "{..<3 :: nat} = {0, 1, 2}" by auto
  moreover have "case ?r of Inl e \<Rightarrow> False
      | Inr (is, states') \<Rightarrow> set is = {..<3} \<and> map Some states' = map (\<lambda>_. Some TransitionComplete) [0..<3]"
    using convert_all_claims_each_once [OF _ _ all, of "\<lambda>_. Some TransitionComplete" 3 "[]"]
    by (simp split: sum.splits prod.splits del: convert_all.simps)
  ultimately show ?thesis by (auto split: sum.splits simp del: convert_all.simps)
qed

subsection \<open>The invariant of the loop\<close>

definition server_inv :: "server \<Rightarrow> bool" where
  "server_inv s =
     (INITIAL_ACCEPT_BACKOFF \<le> sv_backoff s \<and> sv_backoff s \<le> MAX_ACCEPT_BACKOFF \<and>
      (if sv_pc s \<in> {Serving, Backing_Off}
       then sv_listening s \<and> \<not> sv_graceful s \<and> sv_fatal s = None \<and> Running True \<notin> set (sv_conns s)
       else \<not> sv_listening s \<and> sv_graceful s) \<and>
      (sv_pc s = Joining_Aborted \<longrightarrow> set (sv_conns s) \<subseteq> {Finished}) \<and>
      (sv_pc s = Over \<longrightarrow> sv_conns s = []) \<and>
      sv_drains s = (if sv_pc s = Over then 1 else 0) \<and>
      (\<forall>err. sv_fatal s = Some err \<longrightarrow> \<not> is_transient_accept_error err))"

lemmas server_defs = server_inv_def stop_serving_def INITIAL_ACCEPT_BACKOFF_def MAX_ACCEPT_BACKOFF_def next_backoff_def

lemma set_remove_at: "set (remove_at i xs) \<subseteq> set xs"
  by (auto simp: remove_at_def dest: in_set_takeD in_set_dropD)

lemma server_start_inv: "server_inv server_start"
  by (simp add: server_defs server_start_def)

lemma server_next_inv:
  assumes "server_inv s" "server_next e s = Some s'"
  shows "server_inv s'"
proof (cases e)
  case (Conn_Ends i)
  then have "set ((sv_conns s)[i := Finished]) \<subseteq> insert Finished (set (sv_conns s))"
    by (intro set_update_subset_insert)
  with assms Conn_Ends show ?thesis by (fastforce simp: server_defs split: if_splits)
next
  case (Join i)
  with assms(2) have s': "s' = s\<lparr>sv_conns := remove_at i (sv_conns s)\<rparr>" "sv_pc s \<noteq> Over"
    by (auto split: if_splits)
  have "x \<in> set (remove_at i (sv_conns s)) \<Longrightarrow> x \<in> set (sv_conns s)" for x
    using set_remove_at by fast
  with assms(1) s' show ?thesis by (auto simp: server_inv_def)
next
  case (Conn_Signalled i)
  with assms(2) have s': "s' = s\<lparr>sv_conns := (sv_conns s)[i := Running True]\<rparr>" "sv_graceful s"
    and i: "i < length (sv_conns s)" "sv_conns s ! i = Running False"
    by (auto split: if_splits)
  from i have "Running False \<in> set (sv_conns s)" by (metis nth_mem)
  with assms(1) s' show ?thesis by (auto simp: server_inv_def split: if_splits)
next
  case Drain_Pool
  with assms show ?thesis by (cases "sv_pc s") (auto simp: server_inv_def split: if_splits)
qed (use assms in \<open>auto simp: server_defs split: if_splits\<close>)

interpretation server_runs: kept_runs server_next "\<lambda>_. True" server_inv
  by unfold_locales (rule server_next_inv)

text \<open>What a run records: the fatal error it met, if any, and one call of the pool's drain per event.\<close>

lemma server_run_records:
  "run_all server_next es s = Some s' \<Longrightarrow>
     sv_drains s' = sv_drains s + count_list es Drain_Pool \<and>
     ((\<exists>err. sv_fatal s' = Some err \<and> Accept_Failed err \<in> set es) \<or>
      sv_fatal s' = sv_fatal s \<and> (\<forall>err. Accept_Failed err \<in> set es \<longrightarrow> is_transient_accept_error err))"
proof (induction es arbitrary: s)
  case (Cons e es)
  then obtain t where t: "server_next e s = Some t" "run_all server_next es t = Some s'"
    by (auto simp: run_all_Cons simp del: run_all.simps)
  have "sv_drains t = sv_drains s + (if e = Drain_Pool then 1 else 0)"
    using t(1) by (cases e) (auto simp: stop_serving_def split: if_splits)
  moreover have "(\<exists>err. sv_fatal t = Some err \<and> e = Accept_Failed err) \<or>
      sv_fatal t = sv_fatal s \<and> (\<forall>err. e = Accept_Failed err \<longrightarrow> is_transient_accept_error err)"
    using t(1) by (cases e) (auto simp: stop_serving_def split: if_splits)
  ultimately show ?case using Cons.IH [OF t(2)] by auto
qed simp

text \<open>C8. Every way out of the accept loop drains the PHP pool, once. Whatever connects, disconnects, fails
  and is joined, in whatever order, the pool has not been drained while connections are served or
  left in flight; when \<^verbatim>\<open>run\<close> is over it has been drained exactly once, after the listener was dropped,
  every connection was told to finish and none is left; no connection is told to finish before; and
  the result is an error exactly when accepting failed for a reason that is not transient, and then
  it is that error.\<close>

theorem server_drains_pool_once:
  assumes "run_all server_next es server_start = Some s"
  shows "count_list es Drain_Pool = (if sv_pc s = Over then 1 else 0) \<and> sv_drains s = count_list es Drain_Pool \<and>
    (sv_pc s = Over \<longrightarrow> \<not> sv_listening s \<and> sv_graceful s \<and> sv_conns s = [] \<and> (\<forall>e. server_next e s = None)) \<and>
    (sv_pc s \<in> {Serving, Backing_Off} \<longrightarrow> sv_listening s \<and> Running True \<notin> set (sv_conns s)) \<and>
    (case run_result s of
       Inl err \<Rightarrow> Accept_Failed err \<in> set es \<and> \<not> is_transient_accept_error err
     | Inr _ \<Rightarrow> \<forall>err. Accept_Failed err \<in> set es \<longrightarrow> is_transient_accept_error err)"
proof -
  from server_runs.run_kept [OF server_start_inv _ assms] have inv: "server_inv s" by (simp add: list_all_iff)
  from server_run_records [OF assms] have drains: "sv_drains s = count_list es Drain_Pool"
    and fatal: "(\<exists>err. sv_fatal s = Some err \<and> Accept_Failed err \<in> set es) \<or>
      sv_fatal s = None \<and> (\<forall>err. Accept_Failed err \<in> set es \<longrightarrow> is_transient_accept_error err)"
    by (simp_all add: server_start_def)
  have stuck: "sv_pc s = Over \<Longrightarrow> server_next e s = None" for e
    using inv by (cases e) (auto simp: server_inv_def)
  show ?thesis
    using inv drains fatal stuck by (auto simp: server_inv_def run_result_def split: if_splits)
qed

text \<open>Two connections, file descriptors exhausted, one connection left in flight past the timeout.\<close>

definition sample_run :: "event list" where
  "sample_run = [Accepted, Accept_Failed \<lparr>err_kind = Other_Kind, err_os = Some 24\<rparr>, Backoff_Elapsed, Accepted,
     Conn_Ends 0, Join 0, Shutdown_Fires, Conn_Signalled 0, Drain_Timeout, Join 0, Drain_Pool]"

lemma sample_run_result:
  "map_option (\<lambda>s. (sv_pc s, sv_drains s, sv_fatal s)) (run_all server_next sample_run server_start) = Some (Over, 1, None)"
  by code_simp

theorem server_drains_pool_once_witness:
  "\<exists>s. run_all server_next sample_run server_start = Some s \<and> sv_pc s = Over \<and> sv_drains s = 1 \<and>
     run_result s = Inr () \<and> sv_conns s = []"
proof -
  obtain s where s: "run_all server_next sample_run server_start = Some s" "sv_pc s = Over" "sv_drains s = 1" "sv_fatal s = None"
    using sample_run_result by auto
  from server_drains_pool_once [OF s(1)] s(2) have "sv_conns s = []" by blast
  with s show ?thesis by (intro exI [of _ s]) (simp add: run_result_def)
qed

subsection \<open>The backoff\<close>

text \<open>Transient accept failures never end the server and back off exponentially within their bounds: after
  any number of them in a row the loop is serving again with five milliseconds doubled as often,
  capped at one second, and the next connection resets it.\<close>

theorem accept_backoff_doubles:
  assumes "list_all is_transient_accept_error errs" "sv_pc s = Serving" "sv_backoff s = INITIAL_ACCEPT_BACKOFF"
  shows "run_all server_next (concat (map (\<lambda>err. [Accept_Failed err, Backoff_Elapsed]) errs)) s =
      Some (s\<lparr>sv_backoff := min (5 * 2 ^ length errs) 1000\<rparr>) \<and>
    server_next Accepted (s\<lparr>sv_backoff := min (5 * 2 ^ length errs) 1000\<rparr>) =
      Some (s\<lparr>sv_backoff := 5, sv_conns := sv_conns s @ [Running False]\<rparr>)"
proof -
  have "sv_pc t = Serving \<Longrightarrow> list_all is_transient_accept_error errs \<Longrightarrow> sv_backoff t \<le> 1000 \<Longrightarrow>
      run_all server_next (concat (map (\<lambda>err. [Accept_Failed err, Backoff_Elapsed]) errs)) t =
      Some (t\<lparr>sv_backoff := min (sv_backoff t * 2 ^ length errs) 1000\<rparr>)" for t
  proof (induction errs arbitrary: t)
    case (Cons err errs)
    let ?t = "t\<lparr>sv_pc := Serving, sv_backoff := next_backoff (sv_backoff t)\<rparr>"
    have "min (min (sv_backoff t * 2) 1000 * 2 ^ length errs) 1000 = min (sv_backoff t * 2 ^ length (err # errs)) 1000"
    proof (cases "sv_backoff t * 2 \<le> 1000")
      case False
      have "(1000 :: nat) \<le> 1000 * 2 ^ length errs" by simp
      moreover have "1000 \<le> sv_backoff t * 2 * 2 ^ length errs"
        using False mult_le_mono [of 1000 "sv_backoff t * 2" 1 "2 ^ length errs"] by simp
      ultimately show ?thesis using False by (simp add: mult.assoc)
    qed (simp add: mult.assoc)
    with Cons.IH [of ?t] Cons.prems show ?case by (cases t) (simp add: server_defs)
  qed (cases t, simp)
  from this [of s] assms show ?thesis by (simp add: server_defs)
qed

text \<open>Twelve interruptions in a row reach the cap.\<close>

theorem accept_backoff_doubles_witness:
  "map_option sv_backoff (run_all server_next (concat (map (\<lambda>err. [Accept_Failed err, Backoff_Elapsed])
     (replicate 12 \<lparr>err_kind = Interrupted_Kind, err_os = None\<rparr>))) server_start) = Some 1000"
proof -
  let ?err = "\<lparr>err_kind = Interrupted_Kind, err_os = None\<rparr>"
  have "list_all is_transient_accept_error (replicate 12 ?err)" "sv_pc server_start = Serving"
    "sv_backoff server_start = INITIAL_ACCEPT_BACKOFF"
    by (simp_all add: list_all_iff is_transient_accept_error_def server_start_def)
  from accept_backoff_doubles [OF this] show ?thesis by simp
qed

subsection \<open>Shutting down terminates\<close>














end
