(* ===== verification/ServerMain.thy ===== *)
theory ServerMain
  imports HttpServe ServerLoop
begin

section \<open>The server's configuration and its start\<close>

text \<open>
  \<^verbatim>\<open>main.rs\<close>'s thread count and the part of \<^verbatim>\<open>run\<close> before its loop, on top of \<^verbatim>\<open>init_php_threads\<close>; and what
  the server's document root becomes as text. An environment variable is None when it is unset or not
  Unicode, as \<^verbatim>\<open>std::env::var(..).ok()\<close> has it.
\<close>

subsection \<open>The thread count\<close>

text \<open>\<^verbatim>\<open>str::parse::<usize>\<close>: an optional plus, at least one digit, nothing else, no overflow.\<close>

fun usize_digits :: "nat \<Rightarrow> bytes \<Rightarrow> nat option" where
  "usize_digits acc [] = Some acc"
| "usize_digits acc (b # bs) =
     (if is_ascii_digit b then
        (let v = acc * 10 + (bval b - 48) in if v < 2 ^ 64 then usize_digits v bs else None)
      else None)"

definition parse_usize :: "bytes \<Rightarrow> nat option" where
  "parse_usize s =
     (case s of
        [] \<Rightarrow> None
      | c # rest \<Rightarrow>
          if c = CHR ''+'' then (if rest = [] then None else usize_digits 0 rest) else usize_digits 0 s)"

definition threads_config :: "bytes option \<Rightarrow> nat option \<Rightarrow> nat" where
  "threads_config FRANKENRUST_THREADS available_parallelism =
     (case Option.bind FRANKENRUST_THREADS parse_usize of
        Some n \<Rightarrow> n
      | None \<Rightarrow> (case available_parallelism of Some p \<Rightarrow> p | None \<Rightarrow> 4))"

definition listen_config :: "bytes option \<Rightarrow> bytes" where
  "listen_config FRANKENRUST_LISTEN = (case FRANKENRUST_LISTEN of Some a \<Rightarrow> a | None \<Rightarrow> ''127.0.0.1:8080'')"

text \<open>\<^verbatim>\<open>main\<close> up to the call of \<^verbatim>\<open>run\<close>: \<^verbatim>\<open>std::env::var\<close> gives a variable only when it is UTF-8, \<^verbatim>\<open>var_os\<close> as it
  is. The current directory, the parser of addresses and binding are arguments.\<close>

datatype main_error = No_Current_Dir | Invalid_Listen bytes | Not_Bound

definition env_var :: "(string \<Rightarrow> bytes option) \<Rightarrow> string \<Rightarrow> bytes option" where
  "env_var var_os name =
     Option.bind (var_os name) (\<lambda>value. case from_utf8 value of Utf8_Ok _ \<Rightarrow> Some value | Utf8_Err _ \<Rightarrow> None)"

record server_config =
  cfg_document_root :: bytes
  cfg_num_threads :: nat
  cfg_php_ini :: ini

definition main_setup ::
  "(string \<Rightarrow> bytes option) \<Rightarrow> bytes option \<Rightarrow> nat option \<Rightarrow> (bytes \<Rightarrow> 'a option) \<Rightarrow> ('a \<Rightarrow> 'l option) \<Rightarrow>
   main_error + ('l \<times> server_config)"
where
  "main_setup var_os current_dir available_parallelism parse bind =
     (case (case var_os ''FRANKENRUST_DOCUMENT_ROOT'' of Some value \<Rightarrow> Some value | None \<Rightarrow> current_dir) of
        None \<Rightarrow> Inl No_Current_Dir
      | Some document_root \<Rightarrow>
          (let num_threads = threads_config (env_var var_os ''FRANKENRUST_THREADS'') available_parallelism;
               listen_addr = listen_config (env_var var_os ''FRANKENRUST_LISTEN'')
           in case parse listen_addr of
                None \<Rightarrow> Inl (Invalid_Listen listen_addr)
              | Some addr \<Rightarrow>
                  (case bind addr of
                     None \<Rightarrow> Inl Not_Bound
                   | Some listener \<Rightarrow>
                       Inr (listener, \<lparr>cfg_document_root = document_root, cfg_num_threads = num_threads,
                         cfg_php_ini = []\<rparr>))))"

subsection \<open>The start of the server\<close>

text \<open>The outcome of the start: what \<^verbatim>\<open>init_php_threads\<close> gave, and the conversion of the booted slots, which are
  inactive then, which may panic.\<close>

definition run_boot ::
  "32 word \<Rightarrow> (nat \<Rightarrow> thread_error option) \<Rightarrow> 'm \<Rightarrow> (nat \<Rightarrow> 't) \<Rightarrow> (nat \<Rightarrow> state option) \<Rightarrow> 64 word \<Rightarrow> ini \<Rightarrow>
   ('m, 't) registry \<Rightarrow>
   (thread_error + boot_panic + nat list \<times> state list) \<times> init_event list \<times> ('m, 't) registry"
where
  "run_boot main_result boot this new_thread assigned num_threads php_ini installed =
     (case init_php_threads main_result 0 0 boot this new_thread num_threads (Fixed num_threads) php_ini installed of
        (Inl e, ev, installed) \<Rightarrow> (Inl e, ev, installed)
      | (Inr main, ev, installed) \<Rightarrow>
          (Inr (convert_all assigned (unat num_threads) (replicate (unat num_threads) Inactive)), ev, installed))"

lemma fixed_final: "mt_max_threads (publish_ready limit mem (main_thread_new num (Fixed num) php_ini)) = num"
  by (simp add: publish_ready_def finalize_max_threads_def main_thread_new_def resolve_max_threads_def Let_def)

lemma init_fixed:
  assumes "init_php_threads main_result limit mem boot this new_thread num (Fixed num) php_ini r = (Inr main, ev, r')"
  shows "mt_max_threads main = num \<and> num \<noteq> 0 \<and> unat num \<le> c_int_max"
proof -
  have v: "validate_thread_counts num (Fixed num) = Inr ()"
    using assms by (auto simp: init_php_threads_def split: sum.splits)
  then have "main = publish_ready limit mem (main_thread_new num (Fixed num) php_ini)"
    using assms by (auto simp: init_php_threads_def install_initial_def Let_def
        split: if_splits prod.splits option.splits)
  with v fixed_final show ?thesis
    by (auto simp: validate_thread_counts_def fixed_count_out_of_range_def split: if_splits)
qed

text \<open>C23. The server starts with a whole pool or not at all. A start that fails leaves the registry as it
  was or empty and never converts a slot, zero threads among the failures; a start that succeeds has
  a positive number of slots, as many as were asked for, each with its entry in C's metrics array,
  and has given every one of them its handler. It panics only if a slot it claimed refuses its handler,
  never for want of a slot to claim.\<close>

theorem server_boot_sound:
  assumes "\<And>i. assigned i \<noteq> Some Inactive"
  shows "(case run_boot main_result boot this new_thread assigned num php_ini r of
      (Inl e, ev, r') \<Rightarrow> r' = r \<or> empty_generation r'
    | (Inr (Inl e), ev, r') \<Rightarrow> \<exists>i < unat num. assigned i = None \<and> e = Handler_Refused i
    | (Inr (Inr (is, states)), ev, r') \<Rightarrow>
        0 < unat num \<and> reg_main r' = Some this \<and> length (reg_threads r') = unat num \<and>
        ev ! 2 = Init_Metrics (ucast num) \<and> int (length (reg_threads r')) \<le> sint (ucast num :: 32 word) \<and>
        set is = {..<unat num} \<and> map Some states = map assigned [0..<unat num]) \<and>
    fst (run_boot main_result boot this new_thread assigned 0 php_ini r) = Inl (Invalid_Thread_Count 0 (Fixed 0))"
proof -
  obtain res ev r' where init: "init_php_threads main_result 0 0 boot this new_thread num (Fixed num) php_ini r = (res, ev, r')"
    by (metis prod_cases3)
  note out = init_outcome [where main_result = main_result and limit = 0 and mem = 0 and boot = boot and this = this and
      new_thread = new_thread and num = num and req = "Fixed num" and php_ini = php_ini and r = r, unfolded init]
  have zero: "fst (run_boot main_result boot this new_thread assigned 0 php_ini r) = Inl (Invalid_Thread_Count 0 (Fixed 0))"
    by (simp add: run_boot_def init_php_threads_def validate_thread_counts_def fixed_count_out_of_range_def)
  show ?thesis
  proof (cases res)
    case (Inl e)
    then show ?thesis using out zero by (auto simp: run_boot_def init split: if_splits)
  next
    case (Inr main)
    from init_fixed [OF init [unfolded Inr]]
    have fin: "mt_max_threads main = num" "num \<noteq> 0" "unat num \<le> c_int_max" by simp_all
    have pos: "0 < unat num" using fin(2) by (simp add: unat_gt_0)
    have r': "reg_main r' = Some this" "length (reg_threads r') = unat num" "ev ! 2 = Init_Metrics (ucast num)"
      using out Inr fin(1) pos by (auto split: if_splits)
    have cov: "int (unat num) \<le> sint (ucast num :: 32 word)"
      using sint_ucast_covers [of num] fin pos by (simp only: max_def) auto
    have "count_list (replicate n Inactive) Inactive = n" for n by (induction n) auto
    then have "unat num \<le> count_list (replicate (unat num) Inactive) Inactive" by simp
    note conv = convert_all_converts [of assigned, OF assms this]
    show ?thesis
    proof (cases "convert_all assigned (unat num) (replicate (unat num) Inactive)")
      case (Inl e)
      with conv zero Inr show ?thesis by (auto simp: run_boot_def init converted_def)
    next
      case (Inr x)
      obtain "is" states where x: "x = (is, states)" by (cases x)
      with conv Inr have "converted assigned (unat num) (replicate (unat num) Inactive) (Inr (is, states))" by simp
      note all = all_converted [OF this]
      then have "map Some states = map assigned [0..<unat num]" by (intro nth_equalityI) auto
      with all(1) Inr x r' cov pos zero \<open>res = Inr main\<close> show ?thesis by (simp add: run_boot_def init)
    qed
  qed
qed

text \<open>Two threads.\<close>

theorem server_boot_sound_witness:
  "\<exists>is. fst (run_boot 0 (\<lambda>_. None) (0 :: nat) (\<lambda>i. i) (\<lambda>_. Some TransitionComplete) 2 [] registry_default) =
     Inr (Inr (is, [TransitionComplete, TransitionComplete])) \<and> set is = {0, 1}"
proof -
  have "(\<lambda>_ :: nat. Some TransitionComplete) i \<noteq> Some Inactive" for i by simp
  note s = server_boot_sound [OF this, where main_result = 0 and boot = "\<lambda>_. None" and this = "0 :: nat" and
      new_thread = "\<lambda>i. i" and num = 2 and php_ini = "[]" and r = registry_default]
  have boots: "boot_all (\<lambda>_. None) is = (map Boot is, None)" for "is" by (induction "is") simp_all
  have "isl (fst (init_php_threads 0 0 0 (\<lambda>_. None) (0 :: nat) (\<lambda>i. i) 2 (Fixed 2) [] registry_default)) = False"
    by (simp add: init_php_threads_def validate_thread_counts_def fixed_count_out_of_range_def c_int_max_def
        install_initial_def registry_default_def boots Let_def)
  then have "isl (fst (run_boot 0 (\<lambda>_. None) (0 :: nat) (\<lambda>i. i) (\<lambda>_. Some TransitionComplete) 2 [] registry_default)) = False"
    by (auto simp: run_boot_def split: sum.splits prod.splits)
  moreover have "map Some xs = map (\<lambda>_. Some TransitionComplete) [0..<2] \<Longrightarrow> xs = [TransitionComplete, TransitionComplete]" for xs
    by (auto simp: upt_rec)
  moreover have "{..<2 :: nat} = {0, 1}" by auto
  ultimately show ?thesis
    using s by (auto split: prod.splits sum.splits)
qed

subsection \<open>Thread counts as text\<close>

lemma usize_digits_snoc:
  "usize_digits acc (bs @ [b]) =
     (case usize_digits acc bs of
        None \<Rightarrow> None
      | Some v \<Rightarrow> if is_ascii_digit b \<and> v * 10 + (bval b - 48) < 2 ^ 64 then Some (v * 10 + (bval b - 48)) else None)"
  by (induction acc bs rule: usize_digits.induct) (auto simp: Let_def)

lemma usize_digits_value:
  "usize_digits acc bs = Some v \<Longrightarrow> acc < 2 ^ 64 \<Longrightarrow>
     v = foldl (\<lambda>a c. 10 * a + (of_char c - 48)) acc bs \<and> v < 2 ^ 64"
  by (induction acc bs rule: usize_digits.induct) (auto simp: Let_def mult.commute split: if_splits)

lemma usize_digits_fmt: "n < 2 ^ 64 \<Longrightarrow> usize_digits 0 (fmt_nat n) = Some n"
proof (induction n rule: fmt_nat.induct)
  case (1 n)
  show ?case
  proof (cases "n < 10")
    case True
    then show ?thesis by (simp add: fmt_nat.simps [of n] is_ascii_digit_def)
  next
    case False
    with 1 have "usize_digits 0 (fmt_nat (n div 10)) = Some (n div 10)" by simp
    with False 1(2) show ?thesis
      by (simp add: fmt_nat.simps [of n] usize_digits_snoc is_ascii_digit_def)
  qed
qed

text \<open>The thread count the operator writes is the one the server uses: every number that fits is read back
  exactly, zero included, which the start then refuses; a number that does not fit, and anything that is not
  a number, is the parallelism of the machine, or four, and never a wrapped count.\<close>

theorem threads_config_roundtrip:
  "threads_config (Some (fmt_nat n)) p = (if n < 2 ^ 64 then n else threads_config None p) \<and>
   (threads_config (Some s) p < 2 ^ 64 \<or> threads_config (Some s) p = threads_config None p)"
proof -
  have plus: "hd (fmt_nat n) \<noteq> CHR ''+''"
    using fmt_nat_digits [of n] by (cases "fmt_nat n") (auto simp: is_ascii_digit_def)
  have parse: "parse_usize (fmt_nat n) = usize_digits 0 (fmt_nat n)"
    using plus by (cases "fmt_nat n") (auto simp: parse_usize_def)
  have "n < 2 ^ 64" if "usize_digits 0 (fmt_nat n) = Some v" for v
    using usize_digits_value [OF that, simplified] read_fmt_nat [of n] by (simp add: read_nat_def)
  then have fmt: "parse_usize (fmt_nat n) = (if n < 2 ^ 64 then Some n else None)"
    unfolding parse using usize_digits_fmt [of n] by (cases "usize_digits 0 (fmt_nat n)") auto
  have small: "usize_digits 0 bs = Some v \<Longrightarrow> v < 2 ^ 64" for bs v using usize_digits_value [of 0 bs v] by simp
  have "parse_usize s = Some v \<Longrightarrow> v < 2 ^ 64" for v
    by (cases s) (auto simp: parse_usize_def simp del: usize_digits.simps dest: small split: if_splits)
  with fmt show ?thesis by (auto simp: threads_config_def split: option.splits)
qed

subsection \<open>The document root as text\<close>

lemma utf8_next_append: "utf8_next xs = Some (c, w) \<Longrightarrow> utf8_next (xs @ ys) = Some (c, w)"
  by (cases xs) (auto simp: Let_def split: if_splits list.splits)

lemma utf8_prefix_step:
  "utf8_next xs = Some (c, length xs) \<Longrightarrow> utf8_prefix ys = (cs, length ys) \<Longrightarrow>
     utf8_prefix (xs @ ys) = (c # cs, length (xs @ ys))"
  using utf8_next_append [of xs c "length xs" ys] utf8_next_width [of xs c "length xs"]
  by (simp add: utf8_prefix.simps [of "xs @ ys"])

lemma lossy_is_utf8: "\<exists>cs. utf8_prefix (from_utf8_lossy bs) = (cs, length (from_utf8_lossy bs))"
proof (induction bs rule: length_induct)
  case IH: (1 bs)
  consider "bs = []" | c w where "utf8_next bs = Some (c, w)" | "bs \<noteq> []" "utf8_next bs = None"
    by (cases "utf8_next bs") auto
  then show ?case
  proof cases
    case 1
    then show ?thesis by (simp add: from_utf8_lossy.simps utf8_prefix.simps)
  next
    case (2 c w)
    have w: "0 < w" "w \<le> length bs" using utf8_next_width [OF 2] by simp_all
    then have "length (drop w bs) < length bs" by simp
    from IH [rule_format, OF this] obtain cs
      where cs: "utf8_prefix (from_utf8_lossy (drop w bs)) = (cs, length (from_utf8_lossy (drop w bs)))" ..
    have "utf8_next (take w bs) = Some (c, length (take w bs))" using utf8_next_take [OF 2 order_refl] w by simp
    from utf8_prefix_step [OF this cs] 2 w show ?thesis by (auto simp: from_utf8_lossy.simps [of bs])
  next
    case 3
    let ?n = "max 1 (invalid_width bs)"
    have "length (drop ?n bs) < length bs" using 3(1) by (cases bs) auto
    from IH [rule_format, OF this] obtain cs
      where cs: "utf8_prefix (from_utf8_lossy (drop ?n bs)) = (cs, length (from_utf8_lossy (drop ?n bs)))" ..
    have "utf8_next (utf8_encode 65533) = Some (65533, length (utf8_encode 65533))"
      by (simp add: utf8_encode_def cont_def)
    from utf8_prefix_step [OF this cs] 3 show ?thesis by (auto simp: from_utf8_lossy.simps [of bs])
  qed
qed

text \<open>C37. The document root PHP sees is always text, and it is the directory the scripts come from exactly when that
  directory's name is text. For every root the context's document root is well-formed UTF-8; it is
  the configured path, byte for byte, if and only if that path is UTF-8; and the script file is
  joined to the configured path in either case, so that for another root the two disagree.\<close>

theorem document_root_is_text:
  "(let ctx = handle_context to_str flag complete parts body root remote
    in (\<exists>cs. from_utf8 (ctx_document_root ctx) = Utf8_Ok cs) \<and>
       (ctx_document_root ctx = root \<longleftrightarrow> (\<exists>cs. from_utf8 root = Utf8_Ok cs)) \<and>
       ctx_script_filename ctx = sanitized_path_join root (ctx_script_name ctx))"
proof -
  have valid: "\<exists>cs. from_utf8 (from_utf8_lossy root) = Utf8_Ok cs"
    using lossy_is_utf8 [of root] by (auto simp: from_utf8_def)
  moreover have "from_utf8_lossy root = root \<longleftrightarrow> (\<exists>cs. from_utf8 root = Utf8_Ok cs)"
    using valid from_utf8_lossy_valid by metis
  ultimately show ?thesis
    by (simp add: handle_context_def context_new_def Let_def script_filename_join)
qed

end
