(* ===== verification/Serving.thy ===== *)
theory Serving
  imports PoolProgress Dispatch "HOL-Library.Multiset"
begin

section \<open>Requests through the whole pool: the dispatch, the slots and the drain together\<close>

text \<open>
  The pool of \<open>ThreadPool\<close> and the dispatch of \<open>Dispatch\<close> as one system. They share the events at which
  the code couples them: a handler that parks in its select is a receiver that can be sent to; a send that
  succeeds is a delivery to exactly that slot; a handler's attaching and detaching change the
  dispatch registry. Every other step is private to its side. A request carries the number of its
  caller, and its completion signal releases that caller, as the channel of \<^verbatim>\<open>handle\<close> in
  \<^verbatim>\<open>server.rs\<close> does; what has been answered is read off the hosts, so nothing is recorded beside the state.
\<close>

subsection \<open>What is owed to a caller\<close>

definition release_signal :: "nat \<Rightarrow> completion_signal" where
  "release_signal p = signal_new (\<lambda>w. w\<lparr>host_released := host_released w @ [p]\<rparr>)"

definition request_of :: "nat \<Rightarrow> ('s, 'k) request_context \<Rightarrow> bool" where
  "request_of p ctx = (\<not> ctx_is_done ctx \<and> ctx_completion_signal ctx = release_signal p \<and> ctx_script_filename ctx \<noteq> [])"

definition owed :: "('s, 'k) request_context \<Rightarrow> nat list" where
  "owed ctx = (if ctx_is_done ctx then []
     else host_released (snd (signal_fire (ctx_completion_signal ctx) quiet_host)))"

definition pending :: "('s, 'k) slot \<Rightarrow> nat list" where
  "pending s = (case sl_context s of None \<Rightarrow> [] | Some ctx \<Rightarrow> owed ctx)"

definition answered :: "('s, 'k) slot \<Rightarrow> nat list" where
  "answered s = host_released (sl_host s)"

subsection \<open>The names of the handlers' channels\<close>

fun php_names :: "php_pc \<Rightarrow> nat list" where
  "php_names (P_Loop h) = handler_names h"
| "php_names (P_Odd h) = handler_names h"
| "php_names (P_Parked_Odd h _) = handler_names h"
| "php_names (P_Revive h) = handler_names h"
| "php_names (P_Set_Ready n) = [n]"
| "php_names (P_Fetch n) = [n]"
| "php_names (P_Select n _) = [n]"
| "php_names (P_Script n) = [n]"
| "php_names _ = []"

definition names :: "('s, 'k) slot \<Rightarrow> nat list" where
  "names s = (case pt_handler (sl_thread s) of None \<Rightarrow> [] | Some h \<Rightarrow> handler_names h) @
     php_names (sl_php s) @ ctl_names (sl_ctl s)"

fun selecting_at :: "php_pc \<Rightarrow> nat option" where
  "selecting_at (P_Select n _) = Some n"
| "selecting_at _ = None"

abbreviation selecting :: "('s, 'k) slot \<Rightarrow> nat option" where
  "selecting s \<equiv> selecting_at (sl_php s)"

subsection \<open>The system\<close>

record ('s, 'k) serving =
  sg_pool :: "('s, 'k) pool"
  sg_dispatch :: dispatch
  sg_fresh :: nat

abbreviation sg_slots :: "('s, 'k) serving \<Rightarrow> ('s, 'k) slot list" where
  "sg_slots g \<equiv> po_slots (sg_pool g)"

definition serving_new :: "nat \<Rightarrow> ('s, 'k) serving" where
  "serving_new n = \<lparr>sg_pool = pool_new n quiet_host, sg_dispatch = dispatch_new, sg_fresh = 0\<rparr>"

definition put_slot :: "nat \<Rightarrow> ('s, 'k) slot \<Rightarrow> ('s, 'k) serving \<Rightarrow> ('s, 'k) serving" where
  "put_slot i s g = g\<lparr>sg_pool := set_slot i s (sg_pool g)\<rparr>"

definition put_dispatch :: "dispatch \<Rightarrow> ('s, 'k) serving \<Rightarrow> ('s, 'k) serving" where
  "put_dispatch d g = g\<lparr>sg_dispatch := d\<rparr>"

text \<open>A step of the pool is private to it when no slot enters, leaves or serves a select, changes
  its entries or takes up a name it did not have.\<close>

fun public :: "php_pc \<Rightarrow> bool" where
  "public (P_Fetch _) = True"
| "public (P_Select _ _) = True"
| "public (P_Script _) = True"
| "public P_Detach_Transition = True"
| "public P_Detach_Leave = True"
| "public _ = False"

definition private_move :: "('s, 'k) slot \<Rightarrow> ('s, 'k) slot \<Rightarrow> bool" where
  "private_move s s' = ((sl_php s' = sl_php s \<or> \<not> public (sl_php s)) \<and> sl_entries s' = sl_entries s \<and>
     set (names s') \<subseteq> set (names s))"

text \<open>\<^verbatim>\<open>go_frankenphp_finish_php_request\<close> closes the request while its script runs; other callbacks change the
  context but neither its script nor its completion.\<close>

definition finish_early :: "('s, 'k) slot \<Rightarrow> ('s, 'k) slot" where
  "finish_early s =
     (case sl_context s of
        None \<Rightarrow> s
      | Some ctx \<Rightarrow> (case close_context ctx (sl_host s) of (ctx, w) \<Rightarrow> s\<lparr>sl_context := Some ctx, sl_host := w\<rparr>))"

definition same_request :: "('s, 'k) request_context \<Rightarrow> ('s, 'k) request_context \<Rightarrow> bool" where
  "same_request ctx ctx' =
     (ctx_script_filename ctx' = ctx_script_filename ctx \<and> ctx_is_done ctx' = ctx_is_done ctx \<and>
      ctx_completion_signal ctx' = ctx_completion_signal ctx)"

inductive serving_step :: "('s, 'k) serving \<Rightarrow> ('s, 'k) serving \<Rightarrow> bool" where
  pool: "pool_step (php_step False) (sg_pool g) p \<Longrightarrow> list_all2 private_move (sg_slots g) (po_slots p) \<Longrightarrow>
    serving_step g (g\<lparr>sg_pool := p\<rparr>)"
| convert: "po_pc (sg_pool g) = D_Op i \<Longrightarrow> i < length (sg_slots g) \<Longrightarrow> s = sg_slots g ! i \<Longrightarrow> sl_ctl s = C_Idle \<Longrightarrow>
    serving_step g (put_slot i (s\<lparr>sl_ctl := C_Set (Regular_Thread (sg_fresh g))\<rparr>) g\<lparr>sg_fresh := sg_fresh g + 1\<rparr>)"
| attach: "i < length (sg_slots g) \<Longrightarrow> s = sg_slots g ! i \<Longrightarrow> n \<in> set (sl_unattached s) \<Longrightarrow>
    \<not> scanning (sg_dispatch g) \<Longrightarrow>
    serving_step g (put_slot i (s\<lparr>sl_entries := sl_entries s @ [n], sl_unattached := remove1 n (sl_unattached s)\<rparr>)
      (put_dispatch ((sg_dispatch g)\<lparr>ds_entries := attach_regular_thread i n (ds_entries (sg_dispatch g))\<rparr>) g))"
| detach: "i < length (sg_slots g) \<Longrightarrow> s = sg_slots g ! i \<Longrightarrow> sl_php s \<in> {P_Detach_Transition, P_Detach_Leave} \<Longrightarrow>
    php_next now s = Some s' \<Longrightarrow>
    \<not> scanning (sg_dispatch g) \<Longrightarrow>
    serving_step g (put_slot i s'
      (put_dispatch ((sg_dispatch g)\<lparr>ds_entries := detach_regular_thread i (ds_entries (sg_dispatch g))\<rparr>) g))"
| park: "i < length (sg_slots g) \<Longrightarrow> s = sg_slots g ! i \<Longrightarrow> sl_php s = P_Fetch n \<Longrightarrow> php_next now s = Some s' \<Longrightarrow>
    serving_step g (put_slot i s' (put_dispatch (set_receiver n R_Parked (sg_dispatch g)) g))"
| wake: "i < length (sg_slots g) \<Longrightarrow> s = sg_slots g ! i \<Longrightarrow> sl_php s = P_Select n dr \<Longrightarrow> php_own s s' \<Longrightarrow>
    serving_step g (put_slot i s' (put_dispatch (set_receiver n R_Busy (sg_dispatch g)) g))"
| deliver: "i < length (sg_slots g) \<Longrightarrow> s = sg_slots g ! i \<Longrightarrow> sl_php s = P_Select n dr \<Longrightarrow>
    dispatch_next n p (sg_dispatch g) = Some d \<Longrightarrow> ds_delivered d = ds_delivered (sg_dispatch g) @ [(n, p)] \<Longrightarrow>
    request_of p ctx \<Longrightarrow> serving_step g (put_slot i (deliver ctx now n s) (put_dispatch d g))"
| call: "ds_callers (sg_dispatch g) p = Q_Idle \<Longrightarrow> serving_step g (put_dispatch (goto p Q_Start (sg_dispatch g)) g)"
| caller: "dispatch_next n p (sg_dispatch g) = Some d \<Longrightarrow> ds_delivered d = ds_delivered (sg_dispatch g) \<Longrightarrow>
    serving_step g (put_dispatch d g)"
| callback: "i < length (sg_slots g) \<Longrightarrow> s = sg_slots g ! i \<Longrightarrow> sl_php s = P_Script n \<Longrightarrow> sl_context s = Some ctx \<Longrightarrow>
    same_request ctx ctx' \<Longrightarrow> serving_step g (put_slot i (s\<lparr>sl_context := Some ctx'\<rparr>) g)"
| finish: "i < length (sg_slots g) \<Longrightarrow> s = sg_slots g ! i \<Longrightarrow> sl_php s = P_Script n \<Longrightarrow>
    serving_step g (put_slot i (finish_early s) g)"
| script_over: "i < length (sg_slots g) \<Longrightarrow> s = sg_slots g ! i \<Longrightarrow> sl_php s = P_Script n \<Longrightarrow> q \<in> {P_Enter, P_Unhealthy} \<Longrightarrow>
    serving_step g (put_slot i ((after_script s)\<lparr>sl_php := q\<rparr>) g)"
| cancelled: "i < length (sg_slots g) \<Longrightarrow> s = sg_slots g ! i \<Longrightarrow>
    serving_step g (put_slot i (s\<lparr>sl_host := (sl_host s)\<lparr>host_flags := f\<rparr>\<rparr>) g)"
| dropped: "(\<forall>s \<in> set (sg_slots g). n \<notin> set (names s)) \<Longrightarrow>
    serving_step g (put_dispatch (set_receiver n R_Dropped (sg_dispatch g)) g)"

inductive serving_reachable :: "('s, 'k) serving \<Rightarrow> bool" where
  new: "serving_reachable (serving_new n)"
| step: "serving_reachable g \<Longrightarrow> serving_step g g' \<Longrightarrow> serving_reachable g'"

subsection \<open>The steps of a slot\<close>

lemma put_slot_simps [simp]:
  "sg_slots (put_slot i s g) = (sg_slots g)[i := s]" "sg_dispatch (put_slot i s g) = sg_dispatch g"
  "sg_fresh (put_slot i s g) = sg_fresh g" "sg_pool (put_slot i s g) = set_slot i s (sg_pool g)"
  by (simp_all add: put_slot_def)

lemma put_dispatch_simps [simp]:
  "sg_pool (put_dispatch d g) = sg_pool g" "sg_dispatch (put_dispatch d g) = d"
  "sg_fresh (put_dispatch d g) = sg_fresh g"
  by (simp_all add: put_dispatch_def)

text \<open>What a slot shows to the rest of the system.\<close>

definition view :: "('s, 'k) slot \<Rightarrow> ('s, 'k) request_context option \<times> host \<times> nat option" where
  "view s = (sl_context s, sl_host s, selecting s)"

lemma wait_on_not_selecting:
  "(\<And>c. selecting_at (q c) = None) \<Longrightarrow> selecting_at r = None \<Longrightarrow> selecting_at (fst (wait_on S q r t)) = None"
  using wait_on_goes [of S q r t] by auto

lemma arm_not_selecting: "selecting_at (handler_arm h st) = None"
  by (cases h) (auto simp: inactive_arm_def regular_arm_def split: state.splits)

lemma php_step_view: "php_step e s s' \<Longrightarrow> \<not> public (sl_php s) \<Longrightarrow> view s' = view s"
  by (erule php_stepE)
    (auto simp: view_def php_next_def Let_def php_goto_def wait_on_not_selecting arm_not_selecting
      split: php_pc.splits if_splits option.splits)

lemma php_step_moves: "php_step e s s' \<Longrightarrow> public (sl_php s) \<Longrightarrow> sl_php s' \<noteq> sl_php s"
  by (erule php_stepE)
    (auto simp: php_next_def Let_def php_goto_def deliver_def split: php_pc.splits if_splits option.splits)

lemma ctl_goto_view [simp]: "view (ctl_goto r s) = view s"
  by (simp add: view_def ctl_goto_def)

lemma boot_view: "boot_next s = Some s' \<Longrightarrow> view s' = view s"
  by (cases "sl_ctl s") (auto simp: boot_next_def Let_def split: prod.splits bool.splits if_splits)

lemma set_handler_view: "set_handler_next s = Some s' \<Longrightarrow> view s' = view s"
  by (cases "sl_ctl s")
    (auto simp: set_handler_next_def Let_def view_def ctl_goto_def split: prod.splits option.splits if_splits thread_handler.splits)

lemma begin_view: "begin_shutdown_next s = Some s' \<Longrightarrow> view s' = view s"
  by (cases "sl_ctl s") (auto simp: begin_shutdown_next_def Let_def split: prod.splits option.splits if_splits)

lemma shutdown_view: "shutdown_next s = Some s' \<Longrightarrow> view s' = view s"
  by (cases "sl_ctl s") (auto simp: shutdown_next_def Let_def view_def ctl_goto_def split: if_splits)

lemma finish_view: "finish_shutdown_next s = Some s' \<Longrightarrow> view s' = view s"
  by (cases "sl_ctl s") (auto simp: finish_shutdown_next_def Let_def)

lemmas ctl_views = boot_view set_handler_view begin_view shutdown_view finish_view

lemma ctl_step_view: "ctl_step s s' \<Longrightarrow> slot_inv e s \<Longrightarrow> view s' = view s"
proof (induction rule: ctl_step.induct)
  case (launched s)
  then have "sl_php s = P_Absent" by (simp add: slot_inv_def php_ok_def)
  then show ?case by (simp add: view_def)
qed (auto simp: view_def dest: ctl_views [unfolded view_def] simp: ctl_goto_def)

lemma drain_step_view: "drain_step pc s s' \<Longrightarrow> view s' = view s"
  by (induction rule: drain_step.induct) (auto dest: ctl_views)

lemma set_slot_views:
  "(i < length (po_slots p) \<Longrightarrow> view s = view (po_slots p ! i)) \<Longrightarrow>
     map view (po_slots (set_slot i s p)) = map view (po_slots p)"
  by (cases "i < length (po_slots p)") (auto simp: map_update list_update_same_conv list_update_beyond)

lemma pool_step_views:
  "pool_step (php_step e) p p' \<Longrightarrow> pool_inv e p \<Longrightarrow> list_all2 private_move (po_slots p) (po_slots p') \<Longrightarrow>
     map view (po_slots p') = map view (po_slots p)"
proof (induction rule: pool_step.induct)
  case (php i p s)
  then have "private_move (po_slots p ! i) s" by (auto simp: list_all2_conv_all_nth)
  then have "\<not> public (sl_php (po_slots p ! i))" using php_step_moves [OF php(2)] by (auto simp: private_move_def)
  with php_step_view [OF php(2)] show ?case by (intro set_slot_views) simp
next
  case (op p i s)
  then show ?case using ctl_step_view by (intro set_slot_views) (auto simp: pool_inv_def)
next
  case (drain_slot p k s)
  then show ?case using drain_step_view by (intro set_slot_views) auto
next
  case (begin' p k s)
  then have "map view (po_slots (set_slot k (s\<lparr>sl_ctl := C_Shut\<rparr>) p)) = map view (po_slots p)"
    by (intro set_slot_views) (simp add: view_def)
  then show ?case by simp
next
  case (attach i p s n)
  then show ?case by (intro set_slot_views) (simp add: view_def)
qed simp_all

subsection \<open>The invariant\<close>

definition in_progress :: "('s, 'k) slot list \<Rightarrow> nat list" where
  "in_progress ss = concat (map pending ss)"

definition answers :: "('s, 'k) slot list \<Rightarrow> nat list" where
  "answers ss = concat (map answered ss)"

definition signals_ok :: "('s, 'k) slot \<Rightarrow> bool" where
  "signals_ok s = (\<forall>ctx. sl_context s = Some ctx \<longrightarrow>
     ctx_is_done ctx \<or> (\<exists>p. ctx_completion_signal ctx = release_signal p))"

text \<open>Every delivered request is owed or answered, a receiver is parked exactly while its slot is in its select, no
  two slots share a handler's name, and the registry's entries are those of the slots.\<close>

definition conserved :: "('s, 'k) slot list \<Rightarrow> dispatch \<Rightarrow> bool" where
  "conserved ss d = (mset (in_progress ss) + mset (answers ss) = mset (map snd (ds_delivered d)))"

definition parks_ok :: "('s, 'k) slot list \<Rightarrow> dispatch \<Rightarrow> bool" where
  "parks_ok ss d = (\<forall>n. ds_receivers d n = R_Parked \<longleftrightarrow> Some n \<in> set (map selecting ss))"

definition names_ok :: "('s, 'k) slot list \<Rightarrow> nat \<Rightarrow> bool" where
  "names_ok ss fresh = (\<forall>i < length ss. \<forall>n \<in> set (names (ss ! i)). n < fresh \<and>
     (\<forall>j < length ss. n \<in> set (names (ss ! j)) \<longrightarrow> j = i))"

definition entries_ok :: "('s, 'k) slot list \<Rightarrow> dispatch \<Rightarrow> bool" where
  "entries_ok ss d = (\<forall>i < length ss.
     sl_entries (ss ! i) = map entry_sender (filter (\<lambda>e. entry_thread e = i) (ds_entries d)))"

definition serving_inv :: "('s, 'k) serving \<Rightarrow> bool" where
  "serving_inv g =
     (pool_inv False (sg_pool g) \<and> dispatch_inv (sg_dispatch g) \<and> conserved (sg_slots g) (sg_dispatch g) \<and>
      list_all signals_ok (sg_slots g) \<and> parks_ok (sg_slots g) (sg_dispatch g) \<and> names_ok (sg_slots g) (sg_fresh g) \<and>
      entries_ok (sg_slots g) (sg_dispatch g))"

lemma selecting_named: "selecting s = Some n \<Longrightarrow> n \<in> set (names s)"
  by (cases "sl_php s") (auto simp: names_def)

subsection \<open>What a change of one slot does to it\<close>

lemma in_progress_update:
  "i < length ss \<Longrightarrow> mset (in_progress (ss[i := s])) + mset (pending (ss ! i)) = mset (in_progress ss) + mset (pending s)"
proof (induction ss arbitrary: i)
  case (Cons a ss)
  then show ?case by (cases i) (auto simp: in_progress_def ac_simps)
qed simp

lemma answers_update:
  "i < length ss \<Longrightarrow> mset (answers (ss[i := s])) + mset (answered (ss ! i)) = mset (answers ss) + mset (answered s)"
proof (induction ss arbitrary: i)
  case (Cons a ss)
  then show ?case by (cases i) (auto simp: answers_def ac_simps)
qed simp

lemma conserved_update:
  assumes "conserved ss d" "i < length ss"
    and "mset (pending s) + mset (answered s) + mset (map snd (ds_delivered d)) =
      mset (pending (ss ! i)) + mset (answered (ss ! i)) + mset (map snd (ds_delivered d'))"
  shows "conserved (ss[i := s]) d'"
proof -
  have "(mset (in_progress (ss[i := s])) + mset (answers (ss[i := s]))) + (mset (pending (ss ! i)) + mset (answered (ss ! i)))
      = (mset (in_progress (ss[i := s])) + mset (pending (ss ! i))) + (mset (answers (ss[i := s])) + mset (answered (ss ! i)))"
    by (simp only: ac_simps)
  also have "\<dots> = (mset (in_progress ss) + mset (answers ss)) + (mset (pending s) + mset (answered s))"
    unfolding in_progress_update [OF assms(2)] answers_update [OF assms(2)] by (simp only: ac_simps)
  also have "\<dots> = mset (map snd (ds_delivered d')) + (mset (pending (ss ! i)) + mset (answered (ss ! i)))"
    using assms(1,3) unfolding conserved_def by (simp only: ac_simps)
  finally show ?thesis unfolding conserved_def by (simp only: add_right_cancel)
qed

lemma ex_update:
  "i < length ss \<Longrightarrow> (\<exists>j < length ss. P (ss[i := s] ! j)) \<longleftrightarrow> P s \<or> (\<exists>j < length ss. j \<noteq> i \<and> P (ss ! j))"
  by (metis nth_list_update)

lemma selecting_nth: "Some n \<in> set (map selecting ss) \<longleftrightarrow> (\<exists>j < length ss. selecting (ss ! j) = Some n)"
proof -
  have "Some n \<in> set (map selecting ss) \<longleftrightarrow> (\<exists>j < length (map selecting ss). map selecting ss ! j = Some n)"
    by (simp only: in_set_conv_nth)
  then show ?thesis by (metis length_map nth_map)
qed

lemma parks_same:
  assumes "parks_ok ss d" "i < length ss" "selecting s = selecting (ss ! i)" "ds_receivers d' = ds_receivers d"
  shows "parks_ok (ss[i := s]) d'"
proof -
  have "map selecting (ss[i := s]) = map selecting ss"
    using assms(2,3) by (simp add: map_update list_update_same_conv)
  with assms(1,4) show ?thesis by (simp add: parks_ok_def)
qed

lemma parks_enter:
  assumes "parks_ok ss d" "i < length ss" "selecting (ss ! i) = None" "selecting s = Some n"
    and "ds_receivers d' = (ds_receivers d)(n := R_Parked)"
  shows "parks_ok (ss[i := s]) d'"
proof -
  have "(\<exists>j < length ss. j \<noteq> i \<and> selecting (ss ! j) = Some m) \<longleftrightarrow> (\<exists>j < length ss. selecting (ss ! j) = Some m)" for m
    using assms(3) by force
  then have "Some m \<in> set (map selecting (ss[i := s])) \<longleftrightarrow> m = n \<or> Some m \<in> set (map selecting ss)" for m
    using ex_update [OF assms(2), of "\<lambda>t. selecting t = Some m" s] assms(4)
    unfolding selecting_nth length_list_update by auto
  with assms(1,5) show ?thesis by (simp add: parks_ok_def)
qed

lemma parks_leave:
  assumes "parks_ok ss d" "names_ok ss fresh" "i < length ss" "selecting (ss ! i) = Some n" "selecting s = None"
    and "ds_receivers d' = (ds_receivers d)(n := r)" "r \<noteq> R_Parked"
  shows "parks_ok (ss[i := s]) d'"
proof -
  have "j = i" if "j < length ss" "selecting (ss ! j) = Some n" for j
    using selecting_named [OF assms(4)] selecting_named [OF that(2)] assms(2,3) that(1) unfolding names_ok_def by blast
  then have "(\<exists>j < length ss. j \<noteq> i \<and> selecting (ss ! j) = Some m) \<longleftrightarrow>
      m \<noteq> n \<and> (\<exists>j < length ss. selecting (ss ! j) = Some m)" for m
    using assms(4) by force
  then have "Some m \<in> set (map selecting (ss[i := s])) \<longleftrightarrow> m \<noteq> n \<and> Some m \<in> set (map selecting ss)" for m
    using ex_update [OF assms(3), of "\<lambda>t. selecting t = Some m" s] assms(5)
    unfolding selecting_nth length_list_update by auto
  with assms(1,6,7) show ?thesis by (simp add: parks_ok_def)
qed

lemma names_mono:
  assumes ok: "names_ok ss fresh" and len: "length ss' = length ss"
    and sub: "\<And>j. j < length ss \<Longrightarrow> set (names (ss' ! j)) \<subseteq> set (names (ss ! j))"
  shows "names_ok ss' fresh"
  unfolding names_ok_def len
proof (intro allI impI ballI conjI)
  fix i n assume i: "i < length ss" "n \<in> set (names (ss' ! i))"
  then have n: "n \<in> set (names (ss ! i))" using sub by blast
  with ok i(1) show "n < fresh" by (simp add: names_ok_def)
  fix j assume "j < length ss" "n \<in> set (names (ss' ! j))"
  with ok i(1) n sub show "j = i" unfolding names_ok_def by blast
qed

lemma names_update:
  assumes "names_ok ss fresh" "set (names s) \<subseteq> set (names (ss ! i))"
  shows "names_ok (ss[i := s]) fresh"
proof (rule names_mono [OF assms(1)])
  show "set (names (ss[i := s] ! j)) \<subseteq> set (names (ss ! j))" if "j < length ss" for j
    using assms(2) that by (cases "i = j") auto
qed simp

lemma entries_update:
  assumes "entries_ok ss d" "sl_entries s = sl_entries (ss ! i)"
  shows "entries_ok (ss[i := s]) d"
  using assms by (cases "i < length ss") (auto simp: entries_ok_def nth_list_update list_update_beyond)

lemma signals_update: "list_all signals_ok ss \<Longrightarrow> signals_ok s \<Longrightarrow> list_all signals_ok (ss[i := s])"
  using set_update_subset_insert [of ss i s] by (auto simp: list_all_iff)

text \<open>What depends on the views only.\<close>

lemma map_views:
  assumes views: "map view ss' = map view ss" and f: "\<And>s t. view s = view t \<Longrightarrow> f s = f t"
  shows "map f ss' = map f ss"
proof (rule nth_equalityI)
  have len: "length ss' = length ss" using views by (metis length_map)
  then show "length (map f ss') = length (map f ss)" by simp
  fix i assume "i < length (map f ss')"
  then have "i < length ss'" "i < length ss" using len by simp_all
  moreover have "f (ss' ! i) = f (ss ! i)" by (rule f) (use calculation views in \<open>metis nth_map\<close>)
  ultimately show "map f ss' ! i = map f ss ! i" by simp
qed

lemma view_parts:
  "view s = view t \<Longrightarrow> pending s = pending t" "view s = view t \<Longrightarrow> answered s = answered t"
  "view s = view t \<Longrightarrow> signals_ok s = signals_ok t" "view s = view t \<Longrightarrow> selecting s = selecting t"
  by (simp_all add: view_def pending_def answered_def signals_ok_def)

lemma private_names: "names_ok ss fresh \<Longrightarrow> list_all2 private_move ss ss' \<Longrightarrow> names_ok ss' fresh"
  by (erule names_mono) (auto simp: list_all2_conv_all_nth private_move_def)

lemma private_entries: "entries_ok ss d \<Longrightarrow> list_all2 private_move ss ss' \<Longrightarrow> entries_ok ss' d"
  by (auto simp: entries_ok_def list_all2_conv_all_nth private_move_def)

subsection \<open>Every step keeps the invariant\<close>

lemma owed_request: "request_of p ctx \<Longrightarrow> owed ctx = [p]"
  by (simp add: owed_def request_of_def release_signal_def signal_new_def signal_fire_def quiet_host_def)

lemma close_owed:
  assumes "ctx_is_done ctx \<or> (\<exists>p. ctx_completion_signal ctx = release_signal p)"
  shows "host_released (snd (close_context ctx w)) = host_released w @ owed ctx"
    "owed (fst (close_context ctx w)) = []" "ctx_is_done (fst (close_context ctx w))"
    "ctx_script_filename (fst (close_context ctx w)) = ctx_script_filename ctx"
  using assms
  by (auto simp: close_context_def owed_def signal_fire_def release_signal_def signal_new_def quiet_host_def Let_def split_def)

lemma script_slot:
  assumes "slot_inv False s" "sl_php s = P_Script n"
  obtains ctx where "sl_context s = Some ctx" "ctx_script_filename ctx \<noteq> []"
    "pt_script_path (sl_thread s) = script_path_new (ctx_script_filename ctx)"
  using assms by (auto simp: slot_inv_def content_ok_def script_path_new_def split: if_splits)

lemma select_slot: "slot_inv False s \<Longrightarrow> sl_php s = P_Select n dr \<Longrightarrow> sl_context s = None"
  by (simp add: slot_inv_def content_ok_def)

text \<open>The context and the host may change while the script and its path stay.\<close>

lemma slot_inv_context:
  "slot_inv e s \<Longrightarrow> sl_php s = P_Script n \<Longrightarrow> sl_context s = Some ctx \<Longrightarrow>
     ctx_script_filename ctx' = ctx_script_filename ctx \<Longrightarrow> slot_inv e (s\<lparr>sl_context := Some ctx', sl_host := w\<rparr>)"
  by (cases "script_path_new (ctx_script_filename ctx)") (auto simp: slot_inv_def content_ok_def)

lemma role_context: "role pc i (s\<lparr>sl_context := c, sl_host := w\<rparr>) = role pc i s"
  by (cases pc) (simp_all add: role_def quiet_def stopping_def beginning_def)

lemma pool_context:
  assumes "pool_inv e p" "i < length (po_slots p)" "slot_inv e ((po_slots p ! i)\<lparr>sl_context := c, sl_host := w\<rparr>)"
  shows "pool_inv e (set_slot i ((po_slots p ! i)\<lparr>sl_context := c, sl_host := w\<rparr>) p)"
  using assms by (intro pool_slot) (auto simp: role_context pool_inv_def)

lemma pool_host:
  assumes "pool_inv e p" "i < length (po_slots p)" "slot_inv e ((po_slots p ! i)\<lparr>sl_host := w\<rparr>)"
  shows "pool_inv e (set_slot i ((po_slots p ! i)\<lparr>sl_host := w\<rparr>) p)"
  using assms role_context [where s = "po_slots p ! i" and c = "sl_context (po_slots p ! i)" and w = w]
  by (intro pool_slot) (auto simp: pool_inv_def)

lemma pool_php:
  "pool_inv False p \<Longrightarrow> i < length (po_slots p) \<Longrightarrow> php_step False (po_slots p ! i) s \<Longrightarrow> pool_inv False (set_slot i s p)"
  using pool_step_inv pool_step.php by blast

lemma deliver_slot:
  assumes "request_of p ctx"
  shows "sl_context (deliver ctx now n s) = Some ctx" "sl_host (deliver ctx now n s) = sl_host s"
    "sl_php (deliver ctx now n s) = P_Script n" "sl_entries (deliver ctx now n s) = sl_entries s"
    "sl_ctl (deliver ctx now n s) = sl_ctl s" "pt_handler (sl_thread (deliver ctx now n s)) = pt_handler (sl_thread s)"
  using assms by (auto simp: request_of_def deliver_def Let_def php_goto_def script_path_new_def publish_script_path_def park_simps)

lemma after_script_slot:
  assumes "sl_context s = Some ctx"
  shows "after_script s = s\<lparr>sl_host := snd (close_context ctx (sl_host s)), sl_context := None,
      sl_thread := release_script_path (sl_thread s)\<rparr>"
  using assms by (simp add: after_script_def Let_def split_def)

lemma dispatch_receivers:
  assumes "dispatch_next n p d = Some d'"
  shows "ds_delivered d' = ds_delivered d @ [(n, p)] \<Longrightarrow> ds_receivers d' = (ds_receivers d)(n := R_Busy)"
    "ds_delivered d' = ds_delivered d \<Longrightarrow> ds_receivers d' = ds_receivers d" "ds_entries d' = ds_entries d"
  using assms
  by (auto simp: dispatch_next_def receive_def split: dispatch_pc.splits list.splits send_result.splits if_splits)

lemma set_receiver_simps [simp]:
  "ds_receivers (set_receiver n r d) = (ds_receivers d)(n := r)" "ds_delivered (set_receiver n r d) = ds_delivered d"
  "ds_entries (set_receiver n r d) = ds_entries d"
  by (simp_all add: set_receiver_def)

lemma receiver_inv: "dispatch_inv d \<Longrightarrow> dispatch_inv (set_receiver n r d)"
  by (auto simp: dispatch_inv_def queued_callers_def set_receiver_def)

lemma registry_inv: "dispatch_inv d \<Longrightarrow> \<not> scanning d \<Longrightarrow> dispatch_inv (d\<lparr>ds_entries := es\<rparr>)"
  by (auto simp: dispatch_inv_def queued_callers_def scanning_def)

lemma conserved_same: "conserved ss d \<Longrightarrow> ds_delivered d' = ds_delivered d \<Longrightarrow> conserved ss d'"
  by (simp add: conserved_def)

lemma entries_same: "entries_ok ss d \<Longrightarrow> ds_entries d' = ds_entries d \<Longrightarrow> entries_ok ss d'"
  by (simp add: entries_ok_def)

lemma entries_attach:
  assumes "entries_ok ss d" "i < length ss" "sl_entries s = sl_entries (ss ! i) @ [n]"
  shows "entries_ok (ss[i := s]) (d\<lparr>ds_entries := attach_regular_thread i n (ds_entries d)\<rparr>)"
  using assms by (auto simp: entries_ok_def attach_regular_thread_def nth_list_update)

lemma entries_detach:
  assumes "entries_ok ss d" "i < length ss" "sl_entries s = []"
  shows "entries_ok (ss[i := s]) (d\<lparr>ds_entries := detach_regular_thread i (ds_entries d)\<rparr>)"
  using assms by (auto simp: entries_ok_def detach_regular_thread_def nth_list_update filter_filter conj_commute intro!: arg_cong [of _ _ "map entry_sender"] filter_cong)

text \<open>A slot changes, and with it the dispatch.\<close>

lemma serving_update:
  assumes inv: "serving_inv g" and i: "i < length (sg_slots g)"
    and pool: "pool_inv False (set_slot i s (sg_pool g))" and disp: "dispatch_inv d"
    and cons: "mset (pending s) + mset (answered s) + mset (map snd (ds_delivered (sg_dispatch g))) =
      mset (pending (sg_slots g ! i)) + mset (answered (sg_slots g ! i)) + mset (map snd (ds_delivered d))"
    and sig: "signals_ok s" and parks: "parks_ok ((sg_slots g)[i := s]) d"
    and names': "set (names s) \<subseteq> set (names (sg_slots g ! i))" and ents: "entries_ok ((sg_slots g)[i := s]) d"
  shows "serving_inv (put_slot i s (put_dispatch d g))"
  using assms conserved_update [of "sg_slots g" "sg_dispatch g" i s d] names_update [of "sg_slots g" "sg_fresh g" s i]
      signals_update [of "sg_slots g" s i]
  by (simp add: serving_inv_def)

text \<open>The slot changes alone.\<close>

lemma serving_slot:
  assumes inv: "serving_inv g" and i: "i < length (sg_slots g)"
    and pool: "pool_inv False (set_slot i s (sg_pool g))"
    and cons: "mset (pending s) + mset (answered s) = mset (pending (sg_slots g ! i)) + mset (answered (sg_slots g ! i))"
    and sig: "signals_ok s" and sel: "selecting s = selecting (sg_slots g ! i)"
    and names': "set (names s) \<subseteq> set (names (sg_slots g ! i))" and ents: "sl_entries s = sl_entries (sg_slots g ! i)"
  shows "serving_inv (put_slot i s g)"
proof -
  have "serving_inv (put_slot i s (put_dispatch (sg_dispatch g) g))"
    using assms parks_same [of "sg_slots g" "sg_dispatch g" i s "sg_dispatch g"]
      entries_update [of "sg_slots g" "sg_dispatch g" s i]
    by (intro serving_update) (auto simp: serving_inv_def)
  then show ?thesis by (simp add: put_dispatch_def)
qed

lemma serving_slot_inv: "serving_inv g \<Longrightarrow> i < length (sg_slots g) \<Longrightarrow> slot_inv False (sg_slots g ! i) \<and> signals_ok (sg_slots g ! i)"
  by (simp add: serving_inv_def pool_inv_def list_all_length)

lemma serving_dispatch:
  assumes "serving_inv g" "dispatch_inv d" "ds_delivered d = ds_delivered (sg_dispatch g)"
    and "ds_entries d = ds_entries (sg_dispatch g)" "parks_ok (sg_slots g) d"
  shows "serving_inv (put_dispatch d g)"
  using assms conserved_same entries_same by (auto simp: serving_inv_def)

lemma pool_case:
  assumes inv: "serving_inv g" and step: "pool_step (php_step False) (sg_pool g) p" and priv: "list_all2 private_move (sg_slots g) (po_slots p)"
  shows "serving_inv (g\<lparr>sg_pool := p\<rparr>)"
proof -
  have pool: "pool_inv False (sg_pool g)" using inv by (simp add: serving_inv_def)
  note views = pool_step_views [OF step pool priv]
  have "map pending (po_slots p) = map pending (sg_slots g)" "map answered (po_slots p) = map answered (sg_slots g)"
    "map selecting (po_slots p) = map selecting (sg_slots g)" "map signals_ok (po_slots p) = map signals_ok (sg_slots g)"
    by (rule map_views [OF views], erule view_parts)+
  moreover have "list_all signals_ok ss = list_all (\<lambda>b. b) (map signals_ok ss)" for ss :: "('a, 'b) slot list"
    by (simp add: list_all_iff)
  with calculation(4) have "list_all signals_ok (po_slots p) = list_all signals_ok (sg_slots g)" by simp
  ultimately show ?thesis
    using inv pool_step_inv [OF step] private_names [OF _ priv] private_entries [OF _ priv]
    by (auto simp: serving_inv_def conserved_def in_progress_def answers_def parks_ok_def)
qed

lemma convert_case:
  assumes inv: "serving_inv g" and op: "po_pc (sg_pool g) = D_Op i" and i: "i < length (sg_slots g)"
    and idle: "sl_ctl (sg_slots g ! i) = C_Idle"
  shows "serving_inv (put_slot i ((sg_slots g ! i)\<lparr>sl_ctl := C_Set (Regular_Thread (sg_fresh g))\<rparr>) g\<lparr>sg_fresh := sg_fresh g + 1\<rparr>)"
proof -
  let ?s = "(sg_slots g ! i)\<lparr>sl_ctl := C_Set (Regular_Thread (sg_fresh g))\<rparr>" and ?ss = "sg_slots g"
  have ok: "names_ok ?ss (sg_fresh g)" using inv by (simp add: serving_inv_def)
  have set': "set (names ?s) = insert (sg_fresh g) (set (names (?ss ! i)))"
    using idle by (auto simp: names_def)
  have fresh: "sg_fresh g \<notin> set (names (?ss ! j))" if "j < length ?ss" for j
    using ok that by (auto simp: names_ok_def)
  have "names_ok (?ss[i := ?s]) (sg_fresh g + 1)"
    unfolding names_ok_def length_list_update
  proof (intro allI impI ballI conjI)
    fix j n assume j: "j < length ?ss" "n \<in> set (names (?ss[i := ?s] ! j))"
    then show "n < sg_fresh g + 1"
      using ok set' i by (cases "j = i") (auto simp: names_ok_def less_Suc_eq)
    fix k assume k: "k < length ?ss" "n \<in> set (names (?ss[i := ?s] ! k))"
    have split: "n \<in> set (names (?ss[i := ?s] ! l)) \<Longrightarrow> l = i \<and> n = sg_fresh g \<or> n \<in> set (names (?ss ! l))"
      if "l < length ?ss" for l using that set' by (cases "l = i") auto
    from split [OF j] split [OF k] fresh j(1) k(1) ok show "k = j" unfolding names_ok_def by blast
  qed
  moreover have "pool_inv False (set_slot i ?s (sg_pool g))"
    using inv op idle pool_step_inv [OF pool_step.op [OF op ctl_step.start_set]] by (simp add: serving_inv_def)
  moreover have "view ?s = view (?ss ! i)" by (simp add: view_def)
  ultimately show ?thesis
    using inv i conserved_update [of ?ss "sg_dispatch g" i ?s "sg_dispatch g"] parks_same [of ?ss "sg_dispatch g" i ?s "sg_dispatch g"]
      entries_update [of ?ss "sg_dispatch g" ?s i] signals_update [of ?ss ?s i] serving_slot_inv [OF inv i] view_parts [of ?s "?ss ! i"]
    by (simp add: serving_inv_def)
qed

lemma select_case:
  assumes inv: "serving_inv g" and i: "i < length (sg_slots g)"
    and php: "php_step False (sg_slots g ! i) s" and d: "dispatch_inv d" "ds_entries d = ds_entries (sg_dispatch g)"
    and cons: "mset (pending s) + mset (answered s) + mset (map snd (ds_delivered (sg_dispatch g))) =
      mset (pending (sg_slots g ! i)) + mset (answered (sg_slots g ! i)) + mset (map snd (ds_delivered d))"
    and sig: "signals_ok s" and names': "set (names s) \<subseteq> set (names (sg_slots g ! i))"
    and ents: "sl_entries s = sl_entries (sg_slots g ! i)"
    and sel: "selecting (sg_slots g ! i) = None \<and> selecting s = Some n \<and> ds_receivers d = (ds_receivers (sg_dispatch g))(n := R_Parked) \<or>
      selecting (sg_slots g ! i) = Some n \<and> selecting s = None \<and> ds_receivers d = (ds_receivers (sg_dispatch g))(n := R_Busy)"
  shows "serving_inv (put_slot i s (put_dispatch d g))"
proof (rule serving_update [OF inv i _ d(1) cons sig _ names'])
  show "pool_inv False (set_slot i s (sg_pool g))" using inv i php by (intro pool_php) (simp_all add: serving_inv_def)
  have ok: "parks_ok (sg_slots g) (sg_dispatch g)" "names_ok (sg_slots g) (sg_fresh g)" "entries_ok (sg_slots g) (sg_dispatch g)"
    using inv by (simp_all add: serving_inv_def)
  show "parks_ok ((sg_slots g)[i := s]) d"
    using sel parks_enter [OF ok(1) i] parks_leave [OF ok(1,2) i] by auto
  show "entries_ok ((sg_slots g)[i := s]) d"
    using entries_same [OF entries_update [OF ok(3) ents] d(2)] .
qed

lemma detach_case:
  assumes inv: "serving_inv g" and i: "i < length (sg_slots g)" and s: "s = sg_slots g ! i"
    and det: "sl_php s \<in> {P_Detach_Transition, P_Detach_Leave}" and next': "php_next now s = Some s'"
    and free: "\<not> scanning (sg_dispatch g)"
  shows "serving_inv (put_slot i s'
    (put_dispatch ((sg_dispatch g)\<lparr>ds_entries := detach_regular_thread i (ds_entries (sg_dispatch g))\<rparr>) g))"
proof -
  obtain q where s': "s' = php_goto (q, sl_thread s) (s\<lparr>sl_entries := []\<rparr>)" and q: "q \<in> {P_Transition, P_Leave}"
    using next' det by (auto simp: php_next_def Let_def)
  have ok: "parks_ok (sg_slots g) (sg_dispatch g)" "entries_ok (sg_slots g) (sg_dispatch g)" "dispatch_inv (sg_dispatch g)"
    using inv by (simp_all add: serving_inv_def)
  show ?thesis
  proof (rule serving_update [OF inv i])
    show "pool_inv False (set_slot i s' (sg_pool g))"
      using inv i s php_run [OF next'] by (intro pool_php) (simp_all add: serving_inv_def)
    show "dispatch_inv ((sg_dispatch g)\<lparr>ds_entries := detach_regular_thread i (ds_entries (sg_dispatch g))\<rparr>)"
      using registry_inv [OF ok(3) free] .
    show "parks_ok ((sg_slots g)[i := s']) ((sg_dispatch g)\<lparr>ds_entries := detach_regular_thread i (ds_entries (sg_dispatch g))\<rparr>)"
      using s det q s' by (intro parks_same [OF ok(1) i]) (auto simp: php_goto_def)
    show "entries_ok ((sg_slots g)[i := s']) ((sg_dispatch g)\<lparr>ds_entries := detach_regular_thread i (ds_entries (sg_dispatch g))\<rparr>)"
      by (rule entries_detach [OF ok(2) i]) (simp add: s' php_goto_def)
  qed (use s s' det q serving_slot_inv [OF inv i] in
      \<open>auto simp: php_goto_def pending_def answered_def signals_ok_def names_def\<close>)
qed

lemma deliver_case:
  assumes inv: "serving_inv g" and i: "i < length (sg_slots g)" and s: "s = sg_slots g ! i" "sl_php s = P_Select n dr"
    and next': "dispatch_next n p (sg_dispatch g) = Some d" and del: "ds_delivered d = ds_delivered (sg_dispatch g) @ [(n, p)]"
    and req: "request_of p ctx"
  shows "serving_inv (put_slot i (deliver ctx now n s) (put_dispatch d g))"
proof (rule select_case [OF inv i])
  have si: "slot_inv False s" "dispatch_inv (sg_dispatch g)" using serving_slot_inv [OF inv i] s(1) inv by (simp_all add: serving_inv_def)
  have none: "sl_context s = None" using select_slot [OF si(1) s(2)] .
  show "php_step False (sg_slots g ! i) (deliver ctx now n s)"
    using php_step.delivered [OF s(2)] req s(1) by (simp add: request_of_def)
  show "dispatch_inv d" using dispatch_next_inv [OF si(2) next'] .
  show "ds_entries d = ds_entries (sg_dispatch g)" using dispatch_receivers(3) [OF next'] .
  show "mset (pending (deliver ctx now n s)) + mset (answered (deliver ctx now n s)) + mset (map snd (ds_delivered (sg_dispatch g))) =
      mset (pending (sg_slots g ! i)) + mset (answered (sg_slots g ! i)) + mset (map snd (ds_delivered d))"
    using none s(1) del owed_request [OF req] deliver_slot [OF req, of now n s] by (simp add: pending_def answered_def)
  show "signals_ok (deliver ctx now n s)"
    using req deliver_slot [OF req] by (auto simp: signals_ok_def request_of_def)
  show "set (names (deliver ctx now n s)) \<subseteq> set (names (sg_slots g ! i))"
    using s deliver_slot [OF req] by (auto simp: names_def)
  show "sl_entries (deliver ctx now n s) = sl_entries (sg_slots g ! i)" using s(1) deliver_slot [OF req] by simp
  show "selecting (sg_slots g ! i) = None \<and> selecting (deliver ctx now n s) = Some n \<and> ds_receivers d = (ds_receivers (sg_dispatch g))(n := R_Parked) \<or>
      selecting (sg_slots g ! i) = Some n \<and> selecting (deliver ctx now n s) = None \<and> ds_receivers d = (ds_receivers (sg_dispatch g))(n := R_Busy)"
    using s deliver_slot [OF req, of now n s] dispatch_receivers(1) [OF next' del] by simp
qed

lemma context_case:
  assumes inv: "serving_inv g" and i: "i < length (sg_slots g)" and s: "s = sg_slots g ! i" "sl_php s = P_Script n"
    and c: "sl_context s = Some ctx" "ctx_script_filename ctx' = ctx_script_filename ctx"
    and cons: "mset (owed ctx') + mset (host_released w) = mset (owed ctx) + mset (host_released (sl_host s))"
    and sig: "ctx_is_done ctx' \<or> (\<exists>p. ctx_completion_signal ctx' = release_signal p)"
  shows "serving_inv (put_slot i (s\<lparr>sl_context := Some ctx', sl_host := w\<rparr>) g)"
proof (rule serving_slot [OF inv i])
  have "slot_inv False (s\<lparr>sl_context := Some ctx', sl_host := w\<rparr>)"
    using slot_inv_context [OF _ s(2) c] serving_slot_inv [OF inv i] s(1) by simp
  with inv i s(1) show "pool_inv False (set_slot i (s\<lparr>sl_context := Some ctx', sl_host := w\<rparr>) (sg_pool g))"
    by (simp add: pool_context serving_inv_def)
qed (use s c cons sig in \<open>auto simp: pending_def answered_def signals_ok_def names_def\<close>)

lemma script_over_case:
  assumes inv: "serving_inv g" and i: "i < length (sg_slots g)" and s: "s = sg_slots g ! i" "sl_php s = P_Script n"
    and q: "q \<in> {P_Enter, P_Unhealthy}"
  shows "serving_inv (put_slot i ((after_script s)\<lparr>sl_php := q\<rparr>) g)"
proof (rule serving_slot [OF inv i])
  have si: "slot_inv False s" "signals_ok s" using serving_slot_inv [OF inv i] s(1) by simp_all
  obtain ctx where ctx: "sl_context s = Some ctx" using script_slot [OF si(1) s(2)] by blast
  note after = after_script_slot [OF ctx]
  have "php_step False s ((after_script s)\<lparr>sl_php := q\<rparr>)"
    using q php_step.script_end [OF s(2)] php_step.script_bailout [OF s(2)] by auto
  with inv i s(1) show "pool_inv False (set_slot i ((after_script s)\<lparr>sl_php := q\<rparr>) (sg_pool g))"
    by (intro pool_php) (simp_all add: serving_inv_def)
  have "ctx_is_done ctx \<or> (\<exists>p. ctx_completion_signal ctx = release_signal p)"
    using si(2) ctx by (simp add: signals_ok_def)
  from close_owed(1) [OF this, of "sl_host s"]
  show "mset (pending ((after_script s)\<lparr>sl_php := q\<rparr>)) + mset (answered ((after_script s)\<lparr>sl_php := q\<rparr>)) =
      mset (pending (sg_slots g ! i)) + mset (answered (sg_slots g ! i))"
    unfolding s(1) [symmetric] using ctx by (simp add: after pending_def answered_def)
  show "set (names ((after_script s)\<lparr>sl_php := q\<rparr>)) \<subseteq> set (names (sg_slots g ! i))"
    unfolding s(1) [symmetric] using s(2) q by (auto simp: after names_def release_script_path_def)
qed (use s q after_script_slot in \<open>auto simp: signals_ok_def after_script_def Let_def split: option.splits prod.splits\<close>)

lemma finish_case:
  assumes inv: "serving_inv g" and i: "i < length (sg_slots g)" and s: "s = sg_slots g ! i" "sl_php s = P_Script n"
  shows "serving_inv (put_slot i (finish_early s) g)"
proof -
  have si: "slot_inv False s" "signals_ok s" using serving_slot_inv [OF inv i] s(1) by simp_all
  obtain ctx where ctx: "sl_context s = Some ctx" using script_slot [OF si(1) s(2)] by blast
  have "ctx_is_done ctx \<or> (\<exists>p. ctx_completion_signal ctx = release_signal p)"
    using si(2) ctx by (simp add: signals_ok_def)
  note closed = close_owed [OF this, of "sl_host s"]
  have "finish_early s =
      s\<lparr>sl_context := Some (fst (close_context ctx (sl_host s))), sl_host := snd (close_context ctx (sl_host s))\<rparr>"
    by (simp add: finish_early_def ctx split_def)
  moreover have "serving_inv (put_slot i (s\<lparr>sl_context := Some (fst (close_context ctx (sl_host s))),
      sl_host := snd (close_context ctx (sl_host s))\<rparr>) g)"
    by (rule context_case [OF inv i s ctx]) (simp_all add: closed)
  ultimately show ?thesis by simp
qed

lemma park_case:
  assumes inv: "serving_inv g" and i: "i < length (sg_slots g)" and s: "s = sg_slots g ! i" "sl_php s = P_Fetch n"
    and next': "php_next now s = Some s'"
  shows "serving_inv (put_slot i s' (put_dispatch (set_receiver n R_Parked (sg_dispatch g)) g))"
proof (rule select_case [OF inv i])
  have s': "s' = php_goto (P_Select n (drain_get_receiver (pt_drain (sl_thread s))), mark_waiting True now (sl_thread s)) s"
    using next' s by (simp add: php_next_def Let_def)
  show "php_step False (sg_slots g ! i) s'" using php_run [OF next'] s(1) by simp
  show "dispatch_inv (set_receiver n R_Parked (sg_dispatch g))" using inv by (simp add: receiver_inv serving_inv_def)
  have sig: "signals_ok (sg_slots g ! i)" using serving_slot_inv [OF inv i] by simp
  show "mset (pending s') + mset (answered s') + mset (map snd (ds_delivered (sg_dispatch g))) =
      mset (pending (sg_slots g ! i)) + mset (answered (sg_slots g ! i)) +
      mset (map snd (ds_delivered (set_receiver n R_Parked (sg_dispatch g))))"
    unfolding s(1) [symmetric] s' by (simp add: php_goto_def pending_def answered_def)
  show "signals_ok s'" using sig unfolding s(1) [symmetric] s' by (simp add: php_goto_def signals_ok_def)
  show "set (names s') \<subseteq> set (names (sg_slots g ! i))"
    unfolding s(1) [symmetric] s' using s(2) by (auto simp: php_goto_def names_def park_simps)
  show "sl_entries s' = sl_entries (sg_slots g ! i)" unfolding s(1) [symmetric] s' by (simp add: php_goto_def)
  show "selecting (sg_slots g ! i) = None \<and> selecting s' = Some n \<and>
        ds_receivers (set_receiver n R_Parked (sg_dispatch g)) = (ds_receivers (sg_dispatch g))(n := R_Parked) \<or>
      selecting (sg_slots g ! i) = Some n \<and> selecting s' = None \<and>
        ds_receivers (set_receiver n R_Parked (sg_dispatch g)) = (ds_receivers (sg_dispatch g))(n := R_Busy)"
    unfolding s(1) [symmetric] s' using s(2) by (simp add: php_goto_def)
qed simp

lemma wake_case:
  assumes inv: "serving_inv g" and i: "i < length (sg_slots g)" and s: "s = sg_slots g ! i" "sl_php s = P_Select n dr"
    and own: "php_own s s'"
  shows "serving_inv (put_slot i s' (put_dispatch (set_receiver n R_Busy (sg_dispatch g)) g))"
proof (rule select_case [OF inv i])
  obtain now where s': "s' = php_goto (P_Loop (Regular_Thread n), mark_waiting False now (sl_thread s)) s"
    using own s(2) by (elim php_ownE) (auto simp: php_next_def Let_def)
  show "php_step False (sg_slots g ! i) s'" using php_step.own [OF own] s(1) by simp
  show "dispatch_inv (set_receiver n R_Busy (sg_dispatch g))" using inv by (simp add: receiver_inv serving_inv_def)
  have sig: "signals_ok (sg_slots g ! i)" using serving_slot_inv [OF inv i] by simp
  show "mset (pending s') + mset (answered s') + mset (map snd (ds_delivered (sg_dispatch g))) =
      mset (pending (sg_slots g ! i)) + mset (answered (sg_slots g ! i)) +
      mset (map snd (ds_delivered (set_receiver n R_Busy (sg_dispatch g))))"
    unfolding s(1) [symmetric] s' by (simp add: php_goto_def pending_def answered_def)
  show "signals_ok s'" using sig unfolding s(1) [symmetric] s' by (simp add: php_goto_def signals_ok_def)
  show "set (names s') \<subseteq> set (names (sg_slots g ! i))"
    unfolding s(1) [symmetric] s' using s(2) by (auto simp: php_goto_def names_def park_simps)
  show "sl_entries s' = sl_entries (sg_slots g ! i)" unfolding s(1) [symmetric] s' by (simp add: php_goto_def)
  show "selecting (sg_slots g ! i) = None \<and> selecting s' = Some n \<and>
        ds_receivers (set_receiver n R_Busy (sg_dispatch g)) = (ds_receivers (sg_dispatch g))(n := R_Parked) \<or>
      selecting (sg_slots g ! i) = Some n \<and> selecting s' = None \<and>
        ds_receivers (set_receiver n R_Busy (sg_dispatch g)) = (ds_receivers (sg_dispatch g))(n := R_Busy)"
    unfolding s(1) [symmetric] s' using s(2) by (simp add: php_goto_def)
qed simp

lemma attach_case:
  assumes inv: "serving_inv g" and i: "i < length (sg_slots g)" and s: "s = sg_slots g ! i"
    and n: "n \<in> set (sl_unattached s)" and free: "\<not> scanning (sg_dispatch g)"
  shows "serving_inv (put_slot i (s\<lparr>sl_entries := sl_entries s @ [n], sl_unattached := remove1 n (sl_unattached s)\<rparr>)
      (put_dispatch ((sg_dispatch g)\<lparr>ds_entries := attach_regular_thread i n (ds_entries (sg_dispatch g))\<rparr>) g))"
proof (rule serving_update [OF inv i])
  let ?s' = "s\<lparr>sl_entries := sl_entries s @ [n], sl_unattached := remove1 n (sl_unattached s)\<rparr>"
  have ok: "parks_ok (sg_slots g) (sg_dispatch g)" "entries_ok (sg_slots g) (sg_dispatch g)" "dispatch_inv (sg_dispatch g)"
    "pool_inv False (sg_pool g)" "signals_ok (sg_slots g ! i)"
    using inv serving_slot_inv [OF inv i] by (simp_all add: serving_inv_def)
  show "pool_inv False (set_slot i ?s' (sg_pool g))" using pool_step_inv [OF pool_step.attach [OF i s n] ok(4)] .
  show "dispatch_inv ((sg_dispatch g)\<lparr>ds_entries := attach_regular_thread i n (ds_entries (sg_dispatch g))\<rparr>)"
    using registry_inv [OF ok(3) free] .
  show "parks_ok ((sg_slots g)[i := ?s']) ((sg_dispatch g)\<lparr>ds_entries := attach_regular_thread i n (ds_entries (sg_dispatch g))\<rparr>)"
    using s by (intro parks_same [OF ok(1) i]) simp_all
  show "entries_ok ((sg_slots g)[i := ?s']) ((sg_dispatch g)\<lparr>ds_entries := attach_regular_thread i n (ds_entries (sg_dispatch g))\<rparr>)"
    using s by (intro entries_attach [OF ok(2) i]) simp
  show "signals_ok ?s'" using ok(5) s by (simp add: signals_ok_def)
qed (simp_all add: s pending_def answered_def names_def)

lemma call_case:
  assumes "serving_inv g" "ds_callers (sg_dispatch g) p = Q_Idle"
  shows "serving_inv (put_dispatch (goto p Q_Start (sg_dispatch g)) g)"
  using assms dispatch_step_inv [OF dispatch_step.call [OF assms(2)]]
  by (intro serving_dispatch) (auto simp: serving_inv_def parks_ok_def)

lemma caller_case:
  assumes "serving_inv g" "dispatch_next n p (sg_dispatch g) = Some d" "ds_delivered d = ds_delivered (sg_dispatch g)"
  shows "serving_inv (put_dispatch d g)"
  using assms dispatch_next_inv [OF _ assms(2)] dispatch_receivers(2,3) [OF assms(2)]
  by (intro serving_dispatch) (auto simp: serving_inv_def parks_ok_def)

lemma dropped_case:
  assumes inv: "serving_inv g" and n: "\<forall>s \<in> set (sg_slots g). n \<notin> set (names s)"
  shows "serving_inv (put_dispatch (set_receiver n R_Dropped (sg_dispatch g)) g)"
proof (rule serving_dispatch [OF inv])
  have "Some n \<notin> set (map selecting (sg_slots g))" using n by (auto dest!: sym [of "Some n"] selecting_named)
  then show "parks_ok (sg_slots g) (set_receiver n R_Dropped (sg_dispatch g))"
    using inv by (auto simp: parks_ok_def serving_inv_def)
qed (use inv in \<open>simp_all add: receiver_inv serving_inv_def\<close>)

lemma cancelled_case:
  assumes inv: "serving_inv g" and i: "i < length (sg_slots g)" and s: "s = sg_slots g ! i"
  shows "serving_inv (put_slot i (s\<lparr>sl_host := (sl_host s)\<lparr>host_flags := f\<rparr>\<rparr>) g)"
proof (rule serving_slot [OF inv i])
  have si: "slot_inv False s" "signals_ok s" using serving_slot_inv [OF inv i] s(1) by simp_all
  have "slot_inv False (s\<lparr>sl_host := w\<rparr>)" for w using si(1) by (simp add: slot_inv_def)
  with inv i s show "pool_inv False (set_slot i (s\<lparr>sl_host := (sl_host s)\<lparr>host_flags := f\<rparr>\<rparr>) (sg_pool g))"
    by (simp add: pool_host serving_inv_def)
  show "signals_ok (s\<lparr>sl_host := (sl_host s)\<lparr>host_flags := f\<rparr>\<rparr>)" using si(2) by (simp add: signals_ok_def)
qed (simp_all add: s pending_def answered_def names_def)

lemma callback_case:
  assumes inv: "serving_inv g" and i: "i < length (sg_slots g)" and s: "s = sg_slots g ! i" "sl_php s = P_Script n"
    and c: "sl_context s = Some ctx" "same_request ctx ctx'"
  shows "serving_inv (put_slot i (s\<lparr>sl_context := Some ctx'\<rparr>) g)"
proof -
  have sig: "signals_ok s" using serving_slot_inv [OF inv i] s(1) by simp
  have "serving_inv (put_slot i (s\<lparr>sl_context := Some ctx', sl_host := sl_host s\<rparr>) g)"
  proof (rule context_case [OF inv i s c(1)])
    show "ctx_is_done ctx' \<or> (\<exists>p. ctx_completion_signal ctx' = release_signal p)"
      using sig c unfolding signals_ok_def by (auto simp: same_request_def)
  qed (use c(2) in \<open>simp_all add: same_request_def owed_def\<close>)
  then show ?thesis by simp
qed

lemma serving_step_inv: "serving_step g g' \<Longrightarrow> serving_inv g \<Longrightarrow> serving_inv g'"
proof (induction rule: serving_step.induct)
  case (convert g i s)
  then show ?case using convert_case by blast
qed (blast intro: pool_case attach_case detach_case park_case wake_case deliver_case call_case caller_case
    callback_case finish_case script_over_case cancelled_case dropped_case)+

lemma serving_new_inv: "serving_inv (serving_new n :: ('s, 'k) serving)"
proof -
  let ?g = "serving_new n :: ('s, 'k) serving"
  have "sg_slots ?g = map (\<lambda>i. slot_new i quiet_host) [0..<max 1 n]"
    by (simp add: serving_new_def pool_new_def)
  then have quiet: "t \<in> set (sg_slots ?g) \<Longrightarrow> \<exists>i. t = (slot_new i quiet_host :: ('s, 'k) slot)" for t
    by (metis imageE list.set_map)
  have slot: "pending (slot_new i quiet_host :: ('s, 'k) slot) = []" "answered (slot_new i quiet_host :: ('s, 'k) slot) = []" "names (slot_new i quiet_host :: ('s, 'k) slot) = []"
    "selecting (slot_new i quiet_host :: ('s, 'k) slot) = None" "sl_entries (slot_new i quiet_host :: ('s, 'k) slot) = []" "signals_ok (slot_new i quiet_host :: ('s, 'k) slot)" for i
    by (simp_all add: slot_new_def pending_def answered_def names_def signals_ok_def quiet_host_def thread_new_def)
  have none: "pending t = [] \<and> answered t = [] \<and> names t = [] \<and> selecting t = None \<and> sl_entries t = [] \<and> signals_ok t"
    if "t \<in> set (sg_slots ?g)" for t
    using quiet [OF that] by (elim exE) (simp add: slot)
  have nth: "j < length (sg_slots ?g) \<Longrightarrow> names (sg_slots ?g ! j) = []"
    "j < length (sg_slots ?g) \<Longrightarrow> sl_entries (sg_slots ?g ! j) = []" for j
    using none nth_mem by blast+
  have disp: "sg_dispatch ?g = dispatch_new" by (simp add: serving_new_def)
  have "conserved (sg_slots ?g) dispatch_new"
    using none by (auto simp: conserved_def in_progress_def answers_def dispatch_new_def)
  moreover have "parks_ok (sg_slots ?g) dispatch_new"
    using none by (auto simp: parks_ok_def dispatch_new_def dest: sym)
  moreover have "pool_inv False (sg_pool ?g)" by (simp add: serving_new_def pool_new_inv)
  moreover have "list_all signals_ok (sg_slots ?g)" using none by (simp add: list_all_iff)
  moreover have "dispatch_inv dispatch_new" by (rule dispatch_reachable_inv [OF dispatch_reachable.new])
  ultimately show ?thesis
    using nth by (simp add: serving_inv_def disp names_ok_def entries_ok_def dispatch_new_def)
qed

lemma serving_reachable_inv: "serving_reachable g \<Longrightarrow> serving_inv g"
  by (induction rule: serving_reachable.induct) (auto intro: serving_new_inv serving_step_inv)

end
