(* ===== verification/ServingProperties.thy ===== *)
theory ServingProperties
  imports Serving
begin

section \<open>What holds of the whole system\<close>

text \<open>
  What the invariant of \<open>Serving\<close> gives: every request is owed or answered once, a send reaches an idle slot, and a
  caller that waits is served by any parked thread by its own steps; with runs of the system as witnesses.
\<close>

subsection \<open>What the whole system guarantees\<close>

lemma owed_at_most_one:
  assumes "slot_inv False s" "signals_ok s"
  shows "length (pending s) \<le> 1" "pending s \<noteq> [] \<Longrightarrow> \<exists>n. sl_php s = P_Script n"
proof -
  show "length (pending s) \<le> 1"
    using assms(2) by (auto simp: pending_def signals_ok_def owed_def release_signal_def signal_new_def signal_fire_def
        quiet_host_def split: option.splits)
  assume "pending s \<noteq> []"
  then have "sl_context s \<noteq> None" by (cases "sl_context s") (simp_all add: pending_def)
  with assms(1) have "in_script (sl_php s)" by (auto simp: slot_inv_def content_ok_def split: if_splits)
  then show "\<exists>n. sl_php s = P_Script n" by (cases "sl_php s") simp_all
qed

lemma absent_after_teardown:
  assumes "serving_inv g" "po_main_pc (sg_pool g) \<noteq> M_Wait" "s \<in> set (sg_slots g)"
  shows "sl_php s = P_Absent"
  using assms by (auto simp: serving_inv_def pool_inv_def role_def released_def quiet_def in_set_conv_nth)

lemma serving_requests:
  assumes inv: "serving_inv g"
  shows "distinct (in_progress (sg_slots g) @ answers (sg_slots g))"
    "p \<in> set (in_progress (sg_slots g) @ answers (sg_slots g)) \<longleftrightarrow>
      ds_callers (sg_dispatch g) p = Q_Sent \<or> ds_callers (sg_dispatch g) p = Q_Done"
    "s \<in> set (sg_slots g) \<Longrightarrow> length (pending s) \<le> 1 \<and> (pending s \<noteq> [] \<longrightarrow> (\<exists>n. sl_php s = P_Script n))"
    "po_main_pc (sg_pool g) \<noteq> M_Wait \<Longrightarrow> in_progress (sg_slots g) = []"
proof -
  have same: "mset (in_progress (sg_slots g) @ answers (sg_slots g)) = mset (map snd (ds_delivered (sg_dispatch g)))"
    and disp: "dispatch_inv (sg_dispatch g)"
    using inv by (simp_all add: serving_inv_def conserved_def)
  show "distinct (in_progress (sg_slots g) @ answers (sg_slots g))"
    using disp mset_eq_imp_distinct_iff [OF same] by (simp add: dispatch_inv_def)
  show "p \<in> set (in_progress (sg_slots g) @ answers (sg_slots g)) \<longleftrightarrow>
      ds_callers (sg_dispatch g) p = Q_Sent \<or> ds_callers (sg_dispatch g) p = Q_Done"
    using disp mset_eq_setD [OF same] by (simp add: dispatch_inv_def del: set_append)
  have slot: "slot_inv False s" "signals_ok s" if "s \<in> set (sg_slots g)" for s
    using inv that by (auto simp: serving_inv_def pool_inv_def list_all_iff in_set_conv_nth)
  then show "s \<in> set (sg_slots g) \<Longrightarrow> length (pending s) \<le> 1 \<and> (pending s \<noteq> [] \<longrightarrow> (\<exists>n. sl_php s = P_Script n))"
    using owed_at_most_one by blast
  assume "po_main_pc (sg_pool g) \<noteq> M_Wait"
  then have "sl_php s = P_Absent" if "s \<in> set (sg_slots g)" for s
    using absent_after_teardown [OF inv _ that] by blast
  then have "pending s = []" if "s \<in> set (sg_slots g)" for s
    using owed_at_most_one(2) [OF slot [OF that]] that by fastforce
  then show "in_progress (sg_slots g) = []" by (simp add: in_progress_def)
qed

text \<open>C6. No request is lost and none is answered twice. In every reachable state of the whole system, with any
  number of callers and slots, handlers changing, scripts ending or closing their request early and the
  pool draining, as long as every request names a script and C can create anew a pthread whose script bailed
  out, the requests that left their callers are exactly those a running script still owes an answer and
  those whose caller has been released, each once; a slot that runs no script owes nothing and one that runs a script owes at most one answer; and when the main pthread tears down after a drain
  every request that left its caller has been answered.\<close>

theorem request_conservation:
  assumes "serving_reachable g"
  shows "distinct (in_progress (sg_slots g) @ answers (sg_slots g)) \<and>
    (p \<in> set (in_progress (sg_slots g) @ answers (sg_slots g))) =
      (ds_callers (sg_dispatch g) p = Q_Sent \<or> ds_callers (sg_dispatch g) p = Q_Done) \<and>
    (\<forall>s \<in> set (sg_slots g). length (pending s) \<le> 1 \<and> (pending s \<noteq> [] \<longrightarrow> (\<exists>n. sl_php s = P_Script n))) \<and>
    (po_main_pc (sg_pool g) \<noteq> M_Wait \<longrightarrow> in_progress (sg_slots g) = [])"
  using serving_requests [OF serving_reachable_inv [OF assms]] by blast

lemma receiver_slot:
  assumes inv: "serving_inv g"
  shows "ds_receivers (sg_dispatch g) n = R_Parked \<longleftrightarrow> (\<exists>!i. i < length (sg_slots g) \<and> selecting (sg_slots g ! i) = Some n)"
    "i < length (sg_slots g) \<Longrightarrow> selecting (sg_slots g ! i) = Some n \<Longrightarrow> sl_context (sg_slots g ! i) = None"
proof -
  have names': "names_ok (sg_slots g) (sg_fresh g)" and parks: "parks_ok (sg_slots g) (sg_dispatch g)"
    using inv by (simp_all add: serving_inv_def)
  have one: "i = j" if "i < length (sg_slots g)" "selecting (sg_slots g ! i) = Some n"
    "j < length (sg_slots g)" "selecting (sg_slots g ! j) = Some n" for i j
    using names' that selecting_named unfolding names_ok_def by blast
  have "ds_receivers (sg_dispatch g) n = R_Parked \<longleftrightarrow> (\<exists>i < length (sg_slots g). selecting (sg_slots g ! i) = Some n)"
    using parks unfolding parks_ok_def selecting_nth by blast
  with one show "ds_receivers (sg_dispatch g) n = R_Parked \<longleftrightarrow> (\<exists>!i. i < length (sg_slots g) \<and> selecting (sg_slots g ! i) = Some n)"
    by blast
  assume i: "i < length (sg_slots g)" "selecting (sg_slots g ! i) = Some n"
  then obtain dr where "sl_php (sg_slots g ! i) = P_Select n dr" by (cases "sl_php (sg_slots g ! i)") auto
  with select_slot serving_slot_inv [OF inv i(1)] show "sl_context (sg_slots g ! i) = None" by blast
qed

lemma torn_down_receives_nothing:
  assumes "serving_inv g" "po_main_pc (sg_pool g) \<noteq> M_Wait"
  shows "ds_receivers (sg_dispatch g) n \<noteq> R_Parked"
proof
  assume "ds_receivers (sg_dispatch g) n = R_Parked"
  with receiver_slot(1) [OF assms(1)] obtain i where "i < length (sg_slots g)" "selecting (sg_slots g ! i) = Some n" by blast
  with absent_after_teardown [OF assms, of "sg_slots g ! i"] show False by simp
qed

text \<open>C10. A send reaches the slot it names. In every reachable state of the whole system a receiver is parked, so
  that a send to it succeeds, exactly when one slot, and no other, is in its select with that receiver; such a
  slot has no request installed, so that a send never displaces one; what the dispatch registry
  lists for a slot is what that slot has attached; and once the main pthread tears down nothing can be sent any
  more, not even through an entry that a late conversion pushed behind the drain.\<close>

theorem send_reaches_idle_slot:
  assumes "serving_reachable g"
  shows "(try_send (ds_receivers (sg_dispatch g) n) = Sent) =
      (\<exists>!i. i < length (sg_slots g) \<and> selecting (sg_slots g ! i) = Some n) \<and>
    (\<forall>i < length (sg_slots g).
      (selecting (sg_slots g ! i) = Some n \<longrightarrow> sl_context (sg_slots g ! i) = None) \<and>
      sl_entries (sg_slots g ! i) = map entry_sender (filter (\<lambda>e. entry_thread e = i) (ds_entries (sg_dispatch g)))) \<and>
    (po_main_pc (sg_pool g) \<noteq> M_Wait \<longrightarrow> try_send (ds_receivers (sg_dispatch g) n) \<noteq> Sent)"
proof -
  have inv: "serving_inv g" using serving_reachable_inv [OF assms] .
  have sent: "(try_send r = Sent) = (r = R_Parked)" for r by (cases r) (simp_all add: try_send_def)
  show ?thesis unfolding sent
    using receiver_slot [OF inv] torn_down_receives_nothing [OF inv] inv by (simp add: serving_inv_def entries_ok_def)
qed

subsection \<open>A parked thread serves a waiting caller\<close>

lemma request_exists: "\<exists>ctx :: ('s, 'k) request_context. request_of p ctx"
proof -
  let ?ctx = "(context_new [] None None (release_signal p))\<lparr>ctx_script_filename := ''/index.php''\<rparr> :: ('s, 'k) request_context"
  have "request_of p ?ctx" by (simp add: request_of_def context_new_def)
  then show ?thesis by blast
qed

text \<open>The steps of one caller.\<close>

inductive own_step :: "nat \<Rightarrow> ('s, 'k) serving \<Rightarrow> ('s, 'k) serving \<Rightarrow> bool" for p where
  moves: "dispatch_next n p (sg_dispatch g) = Some d \<Longrightarrow> ds_delivered d = ds_delivered (sg_dispatch g) \<Longrightarrow>
    own_step p g (put_dispatch d g)"
| sends: "i < length (sg_slots g) \<Longrightarrow> sl_php (sg_slots g ! i) = P_Select n dr \<Longrightarrow>
    dispatch_next n p (sg_dispatch g) = Some d \<Longrightarrow> ds_delivered d = ds_delivered (sg_dispatch g) @ [(n, p)] \<Longrightarrow>
    request_of p ctx \<Longrightarrow> own_step p g (put_slot i (deliver ctx now n (sg_slots g ! i)) (put_dispatch d g))"

abbreviation own_steps :: "nat \<Rightarrow> ('s, 'k) serving \<Rightarrow> ('s, 'k) serving \<Rightarrow> bool" where
  "own_steps p \<equiv> (own_step p)\<^sup>*\<^sup>*"

lemma own_step_serving: "own_step p g g' \<Longrightarrow> serving_step g g'"
  by (induction rule: own_step.induct) (auto intro: serving_step.caller serving_step.deliver)

lemma own_steps_serving: "own_steps p g g' \<Longrightarrow> serving_step\<^sup>*\<^sup>* g g'"
  using rtranclp_mono [of "own_step p" serving_step] own_step_serving by blast

lemma deliver_now:
  fixes g :: "('s, 'k) serving"
  assumes "i < length (sg_slots g)" "selecting (sg_slots g ! i) = Some n"
    and "dispatch_next n p (sg_dispatch g) = Some d" "ds_delivered d = ds_delivered (sg_dispatch g) @ [(n, p)]"
  shows "\<exists>g'. own_step p g g' \<and> p \<in> set (in_progress (sg_slots g'))"
proof -
  from assms(2) obtain dr where php: "sl_php (sg_slots g ! i) = P_Select n dr" by (cases "sl_php (sg_slots g ! i)") auto
  obtain ctx :: "('s, 'k) request_context" where req: "request_of p ctx" using request_exists by blast
  let ?s = "deliver ctx 0 n (sg_slots g ! i)"
  from own_step.sends [OF assms(1) php assms(3,4) req] have "own_step p g (put_slot i ?s (put_dispatch d g))" .
  moreover have "p \<in> set (pending ?s)"
    using owed_request [OF req] deliver_slot(1) [OF req] by (simp add: pending_def)
  then have "p \<in> set (in_progress (sg_slots (put_slot i ?s (put_dispatch d g))))"
    using set_update_memI [OF assms(1), of ?s] by (auto simp: in_progress_def)
  ultimately show ?thesis by blast
qed

text \<open>A step of the caller that sends nothing leaves the slots as they are.\<close>

lemma caller_moves:
  assumes "dispatch_next n p (sg_dispatch g) = Some d" "ds_delivered d = ds_delivered (sg_dispatch g)"
    and "\<exists>g'. own_steps p (put_dispatch d g) g' \<and> p \<in> set (in_progress (sg_slots g'))"
  shows "\<exists>g'. own_steps p g g' \<and> p \<in> set (in_progress (sg_slots g'))"
  using own_step.moves [OF assms(1,2)] assms(3) converse_rtranclp_into_rtranclp [where r = "own_step p"] by blast

lemma deliver_soon:
  assumes "i < length (sg_slots g)" "selecting (sg_slots g ! i) = Some n"
    and "dispatch_next n p (sg_dispatch g) = Some d" "ds_delivered d = ds_delivered (sg_dispatch g) @ [(n, p)]"
  shows "\<exists>g'. own_steps p g g' \<and> p \<in> set (in_progress (sg_slots g'))"
  using deliver_now [OF assms] by blast

lemma sending_served:
  assumes "serving_inv g" "i < length (sg_slots g)" "selecting (sg_slots g ! i) = Some n"
    and "ds_callers (sg_dispatch g) p = Q_Sending"
  shows "\<exists>g'. own_steps p g g' \<and> p \<in> set (in_progress (sg_slots g'))"
proof -
  have "ds_receivers (sg_dispatch g) n = R_Parked"
    using assms(1-3) selecting_nth [of n "sg_slots g"] by (auto simp: serving_inv_def parks_ok_def)
  with assms(4) have "dispatch_next n p (sg_dispatch g) = Some (goto p Q_Sent (receive n p (sg_dispatch g)))"
    by (simp add: dispatch_next_def)
  from deliver_soon [OF assms(2,3) this] show ?thesis by (simp add: receive_def)
qed

lemma shared_served:
  assumes "serving_inv g" "i < length (sg_slots g)" "selecting (sg_slots g ! i) = Some n"
    and "ds_callers (sg_dispatch g) p = Q_Shared"
  shows "\<exists>g'. own_steps p g g' \<and> p \<in> set (in_progress (sg_slots g'))"
proof -
  let ?d = "goto p Q_Sending ((sg_dispatch g)\<lparr>ds_queued := ds_queued (sg_dispatch g) + 1\<rparr>)"
  have step: "dispatch_next n p (sg_dispatch g) = Some ?d" using assms(4) by (simp add: dispatch_next_def)
  show ?thesis
  proof (rule caller_moves [OF step])
    show "\<exists>g'. own_steps p (put_dispatch ?d g) g' \<and> p \<in> set (in_progress (sg_slots g'))"
      by (rule sending_served [OF caller_case [OF assms(1) step], of i n]) (simp_all add: assms)
  qed simp
qed

lemma scan_served:
  assumes "ds_callers (sg_dispatch g) p = Q_Scan es" "serving_inv g" "i < length (sg_slots g)"
    and "selecting (sg_slots g ! i) = Some n"
  shows "\<exists>g'. own_steps p g g' \<and> p \<in> set (in_progress (sg_slots g'))"
  using assms
proof (induction es arbitrary: g)
  case Nil
  let ?d = "goto p Q_Shared (sg_dispatch g)"
  have step: "dispatch_next n p (sg_dispatch g) = Some ?d" using Nil(1) by (simp add: dispatch_next_def)
  show ?case
  proof (rule caller_moves [OF step])
    show "\<exists>g'. own_steps p (put_dispatch ?d g) g' \<and> p \<in> set (in_progress (sg_slots g'))"
      by (rule shared_served [OF caller_case [OF Nil(2) step], of i n]) (simp_all add: Nil)
  qed simp
next
  case (Cons e es)
  show ?case
  proof (cases "ds_receivers (sg_dispatch g) (entry_sender e) = R_Parked")
    case True
    then obtain j where j: "j < length (sg_slots g)" "selecting (sg_slots g ! j) = Some (entry_sender e)"
      using receiver_slot(1) [OF Cons.prems(2)] by blast
    have "dispatch_next (entry_sender e) p (sg_dispatch g) = Some (goto p Q_Done (receive (entry_sender e) p (sg_dispatch g)))"
      using Cons.prems(1) True by (simp add: dispatch_next_def try_send_def)
    from deliver_soon [OF j this] show ?thesis by (simp add: receive_def)
  next
    case False
    let ?d = "goto p (Q_Scan es) (sg_dispatch g)"
    have step: "dispatch_next n p (sg_dispatch g) = Some ?d"
      using Cons.prems(1) False by (cases "ds_receivers (sg_dispatch g) (entry_sender e)") (simp_all add: dispatch_next_def try_send_def)
    show ?thesis
    proof (rule caller_moves [OF step])
      show "\<exists>g'. own_steps p (put_dispatch ?d g) g' \<and> p \<in> set (in_progress (sg_slots g'))"
        by (rule Cons.IH) (simp_all add: Cons.prems caller_case [OF Cons.prems(2) step])
    qed simp
  qed
qed

text \<open>C11. A parked thread serves a waiting caller. In every reachable state of the whole system in which some slot is in its
  select, a caller that has not sent its request yet, wherever it is in the scan of the registry or in the queue, can by
  its own next steps alone, the rest of the system standing still, hand its request to a slot that runs it:
  no check of the queue counter, busy entry or dropped channel on its way keeps it from the free thread.\<close>

theorem parked_thread_serves_caller:
  assumes "serving_reachable g" "i < length (sg_slots g)" "selecting (sg_slots g ! i) = Some n"
    and "ds_callers (sg_dispatch g) p \<notin> {Q_Idle, Q_Sent, Q_Done}"
  shows "\<exists>g'. (own_step p)\<^sup>*\<^sup>* g g' \<and> serving_step\<^sup>*\<^sup>* g g' \<and> p \<in> set (in_progress (sg_slots g'))"
proof -
  have inv: "serving_inv g" using serving_reachable_inv [OF assms(1)] .
  have read: "\<exists>g'. own_steps p g g' \<and> p \<in> set (in_progress (sg_slots g'))"
    if "serving_inv g" "i < length (sg_slots g)" "selecting (sg_slots g ! i) = Some n" "ds_callers (sg_dispatch g) p = Q_Read"
    for g :: "('a, 'b) serving"
  proof -
    let ?d = "goto p (Q_Scan (ds_entries (sg_dispatch g))) (sg_dispatch g)"
    have step: "dispatch_next n p (sg_dispatch g) = Some ?d" using that(4) by (simp add: dispatch_next_def)
    show ?thesis
    proof (rule caller_moves [OF step])
      show "\<exists>g'. own_steps p (put_dispatch ?d g) g' \<and> p \<in> set (in_progress (sg_slots g'))"
        by (rule scan_served [where i = i and n = n]) (simp_all add: that caller_case [OF that(1) step])
    qed simp
  qed
  have "\<exists>g'. own_steps p g g' \<and> p \<in> set (in_progress (sg_slots g'))"
  proof (cases "ds_callers (sg_dispatch g) p")
    case Q_Start
    let ?d = "goto p (if ds_queued (sg_dispatch g) = 0 then Q_Read else Q_Shared) (sg_dispatch g)"
    have step: "dispatch_next n p (sg_dispatch g) = Some ?d" using Q_Start by (simp add: dispatch_next_def)
    have inv': "serving_inv (put_dispatch ?d g)" by (rule caller_case [OF inv step]) simp
    show ?thesis
    proof (rule caller_moves [OF step])
      show "\<exists>g'. own_steps p (put_dispatch ?d g) g' \<and> p \<in> set (in_progress (sg_slots g'))"
        using read [OF inv'] shared_served [OF inv', of i n p] assms(2,3) by (cases "ds_queued (sg_dispatch g) = 0") simp_all
    qed simp
  qed (use assms inv read scan_served shared_served sending_served in blast)+
  with own_steps_serving show ?thesis by blast
qed

subsection \<open>Two runs\<close>

text \<open>One caller, number 5; its request runs \<^verbatim>\<open>/srv/a.php\<close>.\<close>

definition request_for :: "nat \<Rightarrow> (unit, unit) request_context" where
  "request_for p = (ctx_for ''/srv/a.php'')\<lparr>ctx_completion_signal := release_signal p\<rparr>"

datatype serving_choice =
    V_Pool move | V_Convert nat | V_Attach nat nat | V_Park nat | V_Call | V_Caller nat | V_Deliver nat nat
  | V_Script_Over nat

definition resting :: "dispatch_pc \<Rightarrow> bool" where
  "resting pc = (case pc of Q_Scan es \<Rightarrow> False | _ \<Rightarrow> True)"

fun serving_move :: "serving_choice \<Rightarrow> (unit, unit) serving \<Rightarrow> (unit, unit) serving option" where
  "serving_move (V_Pool m) g =
     Option.bind (pool_move m (sg_pool g))
       (\<lambda>p. if list_all2 private_move (sg_slots g) (po_slots p) then Some (g\<lparr>sg_pool := p\<rparr>) else None)"
| "serving_move (V_Convert i) g =
     (if po_pc (sg_pool g) = D_Op i \<and> i < length (sg_slots g) \<and> sl_ctl (sg_slots g ! i) = C_Idle
      then Some (put_slot i ((sg_slots g ! i)\<lparr>sl_ctl := C_Set (Regular_Thread (sg_fresh g))\<rparr>) g\<lparr>sg_fresh := sg_fresh g + 1\<rparr>)
      else None)"
| "serving_move (V_Attach i n) g =
     (let s = sg_slots g ! i; d = sg_dispatch g in
      if i < length (sg_slots g) \<and> n \<in> set (sl_unattached s) \<and> resting (ds_callers d 5)
      then Some (put_slot i (s\<lparr>sl_entries := sl_entries s @ [n], sl_unattached := remove1 n (sl_unattached s)\<rparr>)
             (put_dispatch (d\<lparr>ds_entries := attach_regular_thread i n (ds_entries d)\<rparr>) g))
      else None)"
| "serving_move (V_Park i) g =
     (case sl_php (sg_slots g ! i) of
        P_Fetch n \<Rightarrow>
          if i < length (sg_slots g)
          then map_option (\<lambda>s. put_slot i s (put_dispatch (set_receiver n R_Parked (sg_dispatch g)) g))
                 (php_next 0 (sg_slots g ! i))
          else None
      | _ \<Rightarrow> None)"
| "serving_move V_Call g =
     (if ds_callers (sg_dispatch g) 5 = Q_Idle then Some (put_dispatch (goto 5 Q_Start (sg_dispatch g)) g) else None)"
| "serving_move (V_Caller n) g =
     Option.bind (dispatch_next n 5 (sg_dispatch g))
       (\<lambda>d. if ds_delivered d = ds_delivered (sg_dispatch g) then Some (put_dispatch d g) else None)"
| "serving_move (V_Deliver i n) g =
     (case sl_php (sg_slots g ! i) of
        P_Select m dr \<Rightarrow>
          Option.bind (dispatch_next n 5 (sg_dispatch g))
            (\<lambda>d. if i < length (sg_slots g) \<and> m = n \<and> ds_delivered d = ds_delivered (sg_dispatch g) @ [(n, 5)]
                 then Some (put_slot i (deliver (request_for 5) 0 n (sg_slots g ! i)) (put_dispatch d g)) else None)
      | _ \<Rightarrow> None)"
| "serving_move (V_Script_Over i) g =
     (case sl_php (sg_slots g ! i) of
        P_Script n \<Rightarrow>
          if i < length (sg_slots g) then Some (put_slot i ((after_script (sg_slots g ! i))\<lparr>sl_php := P_Enter\<rparr>) g) else None
      | _ \<Rightarrow> None)"

definition one_caller :: "('s, 'k) serving \<Rightarrow> bool" where
  "one_caller g = (serving_reachable g \<and> (\<forall>p. p \<noteq> 5 \<longrightarrow> ds_callers (sg_dispatch g) p = Q_Idle))"

lemma resting_scan: "\<not> resting (Q_Scan es)"
  by (simp add: resting_def)

lemma one_caller_scanning: "one_caller g \<Longrightarrow> resting (ds_callers (sg_dispatch g) 5) \<Longrightarrow> \<not> scanning (sg_dispatch g)"
proof -
  assume "one_caller g" "resting (ds_callers (sg_dispatch g) 5)"
  then have "resting (ds_callers (sg_dispatch g) p)" for p
    by (cases "p = 5") (simp_all add: one_caller_def resting_def)
  then have "ds_callers (sg_dispatch g) p \<noteq> Q_Scan es" for p es
    by (metis resting_scan)
  then show ?thesis by (simp add: scanning_def)
qed

lemma request_for_ok: "request_of p (request_for p)"
  by (simp add: request_of_def request_for_def ctx_for_def context_new_def)

lemma dispatch_next_callers: "dispatch_next n p d = Some d' \<Longrightarrow> q \<noteq> p \<Longrightarrow> ds_callers d' q = ds_callers d q"
  by (auto simp: dispatch_next_def receive_def split: dispatch_pc.splits list.splits send_result.splits if_splits)

lemma set_receiver_callers [simp]: "ds_callers (set_receiver n r d) = ds_callers d"
  by (simp add: set_receiver_def)

lemma serving_move_step:
  assumes "one_caller g" "serving_move m g = Some g'"
  shows "serving_step g g'"
proof (cases m)
  case (V_Pool m)
  with assms pool_move_step show ?thesis by (auto simp: bind_eq_Some_conv intro: serving_step.pool split: if_splits)
next
  case (V_Attach i n)
  with assms one_caller_scanning [OF assms(1)] show ?thesis
    by (auto simp: Let_def intro!: serving_step.attach split: if_splits)
next
  case (V_Deliver i n)
  with assms request_for_ok show ?thesis
    by (auto simp: bind_eq_Some_conv intro: serving_step.deliver split: if_splits php_pc.splits)
next
  case (V_Convert i)
  with assms show ?thesis using serving_step.convert [of g i "sg_slots g ! i"] by (auto split: if_splits)
qed (use assms in \<open>auto simp: bind_eq_Some_conv intro: serving_step.intros split: if_splits php_pc.splits\<close>)

lemma serving_move_kept: "one_caller g \<Longrightarrow> serving_move m g = Some g' \<Longrightarrow> one_caller g'"
proof -
  assume a: "one_caller g" "serving_move m g = Some g'"
  have "ds_callers (sg_dispatch g') p = ds_callers (sg_dispatch g) p" if "p \<noteq> 5" for p
    using a(2) that
    by (cases m) (auto simp: bind_eq_Some_conv Let_def dispatch_next_callers split: if_splits php_pc.splits)
  with a serving_reachable.step [OF _ serving_move_step [OF a]] show ?thesis by (simp add: one_caller_def)
qed

interpretation serving_runs: kept_runs serving_move "\<lambda>_. True" one_caller
  by unfold_locales (rule serving_move_kept)

lemma one_caller_new: "one_caller (serving_new n)"
  using serving_reachable.new [of n] by (simp add: one_caller_def) (simp add: serving_new_def dispatch_new_def)

text \<open>The first slot is booted, takes up a regular handler, parks, and is attached.\<close>

definition ready_moves :: "serving_choice list" where
  "ready_moves = map V_Pool (Lock 0 # map (Op 0) [Start C_Boot, Ctl, Ctl, Launched, Ctl] @ replicate 5 (Pthread 0) @
       [Op 0 Ctl]) @ [V_Convert 0] @
     map V_Pool (replicate 3 (Op 0 Ctl) @ replicate 3 (Pthread 0) @ [Op 0 Ctl, Pthread 0] @ replicate 3 (Op 0 Ctl) @
       replicate 5 (Pthread 0)) @ [V_Park 0, V_Attach 0 0, V_Pool Unlock]"

definition served_moves :: "serving_choice list" where
  "served_moves = ready_moves @ [V_Call, V_Caller 0, V_Caller 0, V_Deliver 0 0, V_Script_Over 0]"

lemma ready_run:
  "map_option (\<lambda>g. (length (sg_slots g), selecting (sg_slots g ! 0), try_send (ds_receivers (sg_dispatch g) 0)))
     (run_all serving_move ready_moves (serving_new 2)) = Some (2, Some 0, Sent)"
  by code_simp

lemma served_run:
  "map_option (\<lambda>g. (sl_php (sg_slots g ! 0), in_progress (sg_slots g), answers (sg_slots g)))
     (run_all serving_move served_moves (serving_new 2)) = Some (P_Enter, [], [5])"
  by code_simp

lemma called_run:
  "map_option (\<lambda>g. (length (sg_slots g), selecting (sg_slots g ! 0), ds_callers (sg_dispatch g) 5, in_progress (sg_slots g)))
     (run_all serving_move (ready_moves @ [V_Call]) (serving_new 2)) = Some (2, Some 0, Q_Start, [])"
  by code_simp

theorem parked_thread_serves_caller_witness:
  "\<exists>g g' :: (unit, unit) serving. serving_reachable g \<and> ds_callers (sg_dispatch g) 5 = Q_Start \<and>
     in_progress (sg_slots g) = [] \<and> serving_step\<^sup>*\<^sup>* g g' \<and> 5 \<in> set (in_progress (sg_slots g'))"
proof -
  obtain g where g: "run_all serving_move (ready_moves @ [V_Call]) (serving_new 2) = Some g" "length (sg_slots g) = 2"
    "selecting (sg_slots g ! 0) = Some 0" "ds_callers (sg_dispatch g) 5 = Q_Start" "in_progress (sg_slots g) = []"
    using called_run by auto
  have "one_caller g" by (rule serving_runs.run_kept [OF one_caller_new _ g(1)]) simp
  then have r: "serving_reachable g" by (simp add: one_caller_def)
  have "0 < length (sg_slots g)" using g(2) by simp
  from parked_thread_serves_caller [OF r this g(3), of 5] r g(4,5) show ?thesis by auto
qed

theorem request_conservation_witness:
  "\<exists>g :: (unit, unit) serving. serving_reachable g \<and> answers (sg_slots g) = [5] \<and> in_progress (sg_slots g) = [] \<and>
     (ds_callers (sg_dispatch g) 5 = Q_Sent \<or> ds_callers (sg_dispatch g) 5 = Q_Done)"
proof -
  obtain g where g: "run_all serving_move served_moves (serving_new 2) = Some g"
    "in_progress (sg_slots g) = []" "answers (sg_slots g) = [5]"
    using served_run by auto
  have "one_caller g" by (rule serving_runs.run_kept [OF one_caller_new _ g(1)]) simp
  then have r: "serving_reachable g" by (simp add: one_caller_def)
  from request_conservation [OF r, of 5] r g(2,3) show ?thesis by (intro exI [of _ g]) simp
qed

theorem send_reaches_idle_slot_witness:
  "\<exists>g :: (unit, unit) serving. serving_reachable g \<and> try_send (ds_receivers (sg_dispatch g) 0) = Sent \<and>
     (\<exists>!i. i < length (sg_slots g) \<and> selecting (sg_slots g ! i) = Some 0)"
proof -
  obtain g where g: "run_all serving_move ready_moves (serving_new 2) = Some g"
    "try_send (ds_receivers (sg_dispatch g) 0) = Sent"
    using ready_run by auto
  have "one_caller g" by (rule serving_runs.run_kept [OF one_caller_new _ g(1)]) simp
  then have r: "serving_reachable g" by (simp add: one_caller_def)
  from send_reaches_idle_slot [OF r, of 0] r g(2) show ?thesis by (intro exI [of _ g]) simp
qed

end
