(* ===== verification/Layout.thy ===== *)
theory Layout
  imports Main
begin

section \<open>The layout guards of the structs that cross the boundary: \<^verbatim>\<open>frankenrust-sys/src/layout.rs\<close>\<close>

text \<open>
  The compile-time assertions on the two structs that bindgen generates from \<^verbatim>\<open>frankenphp.h\<close>. The
  generated struct, its fields with their names, sizes and alignments in declaration order, is an
  argument; \<open>place_fields\<close> and \<open>struct_size\<close> are the layout that \<^verbatim>\<open>repr(C)\<close> gives it, padding included, for a word of any
  size. An assertion that fails, like an \<^verbatim>\<open>offset_of!\<close> of a field that does not exist, is an error value.
\<close>

subsection \<open>\<^verbatim>\<open>repr(C)\<close>\<close>

record c_field =
  cf_name :: string
  cf_size :: nat
  cf_align :: nat

definition align_up :: "nat \<Rightarrow> nat \<Rightarrow> nat" where
  "align_up n a = (n + (a - 1)) div a * a"

fun place_fields :: "nat \<Rightarrow> c_field list \<Rightarrow> (string \<times> nat) list" where
  "place_fields pos [] = []"
| "place_fields pos (f # fs) =
     (cf_name f, align_up pos (cf_align f)) # place_fields (align_up pos (cf_align f) + cf_size f) fs"

fun fields_end :: "nat \<Rightarrow> c_field list \<Rightarrow> nat" where
  "fields_end pos [] = pos"
| "fields_end pos (f # fs) = fields_end (align_up pos (cf_align f) + cf_size f) fs"

definition struct_size :: "c_field list \<Rightarrow> nat" where
  "struct_size fs = align_up (fields_end 0 fs) (foldr max (map cf_align fs) 1)"

datatype layout_error =
    No_Field string                 \<comment> \<open>\<^verbatim>\<open>offset_of!\<close> does not compile\<close>
  | Wrong_Offset string             \<comment> \<open>an offset assertion\<close>
  | Wrong_Size                      \<comment> \<open>the assertion on \<^verbatim>\<open>size_of\<close>\<close>

definition offset_of :: "c_field list \<Rightarrow> string \<Rightarrow> layout_error + nat" where
  "offset_of fs name = (case map_of (place_fields 0 fs) name of None \<Rightarrow> Inl (No_Field name) | Some n \<Rightarrow> Inr n)"

subsection \<open>\<open>force_kill_slot\<close>\<close>

definition FORCE_KILL_SLOT_WORDS :: "bool \<Rightarrow> nat" where
  "FORCE_KILL_SLOT_WORDS has_kill_signal = (if has_kill_signal then 3 else 2)"

definition assert_offset :: "c_field list \<Rightarrow> string \<Rightarrow> nat \<Rightarrow> layout_error option" where
  "assert_offset fs name n =
     (case offset_of fs name of Inl e \<Rightarrow> Some e | Inr k \<Rightarrow> if k = n then None else Some (Wrong_Offset name))"

definition assert_kill_size :: "nat \<Rightarrow> bool \<Rightarrow> c_field list \<Rightarrow> layout_error option" where
  "assert_kill_size W has_kill_signal fs =
     (if struct_size fs = FORCE_KILL_SLOT_WORDS has_kill_signal * W then None else Some Wrong_Size)"

definition assert_kill_pointers :: "nat \<Rightarrow> c_field list \<Rightarrow> layout_error option" where
  "assert_kill_pointers W fs =
     (case assert_offset fs ''vm_interrupt'' 0 of
        Some e \<Rightarrow> Some e
      | None \<Rightarrow> assert_offset fs ''timed_out'' W)"

definition assert_kill_tid :: "nat \<Rightarrow> bool \<Rightarrow> c_field list \<Rightarrow> layout_error option" where
  "assert_kill_tid W has_kill_signal fs =
     (if has_kill_signal then assert_offset fs ''tid'' (2 * W) else None)"

text \<open>Each of the blocks is compiled on its own, so that the build fails when one of them does.\<close>

definition force_kill_slot_compiles :: "nat \<Rightarrow> bool \<Rightarrow> c_field list \<Rightarrow> bool" where
  "force_kill_slot_compiles W has_kill_signal fs =
     (assert_kill_size W has_kill_signal fs = None \<and> assert_kill_pointers W fs = None \<and>
      assert_kill_tid W has_kill_signal fs = None)"

subsection \<open>\<open>frankenphp_server_vars\<close>\<close>

definition server_vars_fields :: "string list" where
  "server_vars_fields =
     [''total_num_vars'', ''remote_addr'', ''remote_addr_len'', ''remote_host'', ''remote_host_len'',
      ''remote_port'', ''remote_port_len'', ''document_root'', ''document_root_len'', ''path_info'',
      ''path_info_len'', ''php_self'', ''php_self_len'', ''document_uri'', ''document_uri_len'',
      ''script_filename'', ''script_filename_len'', ''script_name'', ''script_name_len'', ''server_name'',
      ''server_name_len'', ''server_port'', ''server_port_len'', ''content_length'', ''content_length_len'',
      ''server_protocol'', ''server_protocol_len'', ''http_host'', ''http_host_len'', ''request_uri'',
      ''request_uri_len'', ''ssl_cipher'', ''ssl_cipher_len'', ''request_scheme'', ''ssl_protocol'', ''https'']"

fun all_offsets :: "c_field list \<Rightarrow> string list \<Rightarrow> layout_error + nat list" where
  "all_offsets fs [] = Inr []"
| "all_offsets fs (name # names) =
     (case offset_of fs name of
        Inl e \<Rightarrow> Inl e
      | Inr n \<Rightarrow> (case all_offsets fs names of Inl e \<Rightarrow> Inl e | Inr ns \<Rightarrow> Inr (n # ns)))"

text \<open>The \<open>while\<close> loop over the array of offsets.\<close>

function offsets_loop :: "nat \<Rightarrow> nat list \<Rightarrow> nat \<Rightarrow> layout_error option" where
  "offsets_loop W offsets i =
     (if i < length offsets
      then (if offsets ! i = i * W then offsets_loop W offsets (i + 1)
            else Some (Wrong_Offset (server_vars_fields ! i)))
      else None)"
  by pat_completeness auto
termination by (relation "measure (\<lambda>(W, offsets, i). length offsets - i)") auto

definition server_vars_check :: "nat \<Rightarrow> c_field list \<Rightarrow> layout_error option" where
  "server_vars_check W fs =
     (case all_offsets fs server_vars_fields of
        Inl e \<Rightarrow> Some e
      | Inr offsets \<Rightarrow>
          (case offsets_loop W offsets 0 of
             Some e \<Rightarrow> Some e
           | None \<Rightarrow> if struct_size fs = length offsets * W then None else Some Wrong_Size))"

subsection \<open>Structs of words\<close>

definition word_field :: "nat \<Rightarrow> string \<Rightarrow> c_field" where
  "word_field W name = \<lparr>cf_name = name, cf_size = W, cf_align = W\<rparr>"

lemma align_up_multiple [simp]: "0 < W \<Longrightarrow> align_up (k * W) W = k * W"
proof -
  assume W: "0 < W"
  then have "(k * W + (W - 1)) div W = k" by (subst div_mult_self3) simp_all
  then show ?thesis by (simp add: align_up_def)
qed

lemma align_up_one [simp]: "align_up n 1 = n"
  by (simp add: align_up_def)

lemma place_words:
  "0 < W \<Longrightarrow> place_fields (k * W) (map (word_field W) names) = zip names (map (\<lambda>i. i * W) [k..<k + length names])"
proof (induction names arbitrary: k)
  case (Cons name names)
  have "[k..<k + length (name # names)] = k # [Suc k..<Suc k + length names]"
    using upt_conv_Cons [of k "k + length (name # names)"] by (simp del: upt_Suc)
  with Cons.IH [of "Suc k"] Cons.prems show ?case
    by (simp add: word_field_def add.commute del: upt_Suc)
qed simp

lemma end_words: "0 < W \<Longrightarrow> fields_end (k * W) (map (word_field W) names) = (k + length names) * W"
proof (induction names arbitrary: k)
  case (Cons name names)
  from Cons.IH [of "Suc k"] Cons.prems show ?case by (simp add: word_field_def add.commute)
qed simp

lemma max_words: "0 < W \<Longrightarrow> names \<noteq> [] \<Longrightarrow> foldr max (map cf_align (map (word_field W) names)) 1 = W"
proof (induction names)
  case (Cons name names)
  then show ?case by (cases names) (simp_all add: word_field_def)
qed simp

lemma size_words: "0 < W \<Longrightarrow> struct_size (map (word_field W) names) = length names * W"
  using end_words [of W 0 names] max_words [of W names]
  by (cases "names = []") (simp_all add: struct_size_def del: One_nat_def)

lemma offset_words:
  assumes "0 < W" "distinct names"
  shows "offset_of (map (word_field W) names) name = Inr (i * W) \<longleftrightarrow> i < length names \<and> names ! i = name"
proof -
  let ?offs = "map (\<lambda>i. i * W) [0..<length names]"
  have placed: "place_fields 0 (map (word_field W) names) = zip names ?offs"
    using place_words [OF assms(1), of 0 names] by simp
  have "map_of (zip names ?offs) name = Some (i * W) \<longleftrightarrow> i < length names \<and> names ! i = name"
  proof
    assume "map_of (zip names ?offs) name = Some (i * W)"
    then have "(name, i * W) \<in> set (zip names ?offs)" by (rule map_of_SomeD)
    then show "i < length names \<and> names ! i = name" using assms(1) by (auto simp: in_set_zip)
  next
    assume "i < length names \<and> names ! i = name"
    then show "map_of (zip names ?offs) name = Some (i * W)"
      using map_of_zip_nth [of names ?offs i] assms(2) by auto
  qed
  moreover have "((case m of None \<Rightarrow> Inl e | Some n \<Rightarrow> Inr n) = Inr k) = (m = Some k)" for m and e :: layout_error and k :: nat
    by (cases m) simp_all
  ultimately show ?thesis by (simp only: offset_of_def placed)
qed

declare offsets_loop.simps [simp del]

lemma all_offsets_Inr: "all_offsets fs names = Inr offs \<longleftrightarrow> list_all2 (\<lambda>name n. offset_of fs name = Inr n) names offs"
proof (induction names arbitrary: offs)
  case (Cons name names)
  note IH = Cons.IH
  show ?case
  proof (cases offs)
    case (Cons n ns)
    then show ?thesis using IH [of ns] by (cases "offset_of fs name"; cases "all_offsets fs names") simp_all
  qed (simp split: sum.splits)
qed auto

lemma offsets_loop_None: "offsets_loop W offs i = None \<longleftrightarrow> (\<forall>j. i \<le> j \<and> j < length offs \<longrightarrow> offs ! j = j * W)"
proof (induction W offs i rule: offsets_loop.induct)
  case (1 W offs i)
  show ?case
  proof (cases "i < length offs \<and> offs ! i = i * W")
    case True
    then have "offsets_loop W offs i = offsets_loop W offs (i + 1)" by (subst offsets_loop.simps) simp
    moreover have "offsets_loop W offs (i + 1) = None \<longleftrightarrow> (\<forall>j. i + 1 \<le> j \<and> j < length offs \<longrightarrow> offs ! j = j * W)"
      using 1 True by blast
    moreover have "i \<le> j \<longleftrightarrow> j = i \<or> i + 1 \<le> j" for j by arith
    ultimately show ?thesis using True by auto
  next
    case False
    then show ?thesis by (subst offsets_loop.simps) auto
  qed
qed

lemma server_vars_check_None:
  "server_vars_check W fs = None \<longleftrightarrow>
     (\<forall>i < length server_vars_fields. offset_of fs (server_vars_fields ! i) = Inr (i * W)) \<and>
     struct_size fs = length server_vars_fields * W"
proof (cases "all_offsets fs server_vars_fields")
  case (Inl e)
  have "\<not> (\<forall>i < length server_vars_fields. offset_of fs (server_vars_fields ! i) = Inr (i * W))"
  proof
    assume "\<forall>i < length server_vars_fields. offset_of fs (server_vars_fields ! i) = Inr (i * W)"
    then have "all_offsets fs server_vars_fields = Inr (map (\<lambda>i. i * W) [0..<length server_vars_fields])"
      by (simp add: all_offsets_Inr list_all2_conv_all_nth)
    with Inl show False by simp
  qed
  with Inl show ?thesis by (simp add: server_vars_check_def)
next
  case (Inr offs)
  then have offs: "list_all2 (\<lambda>name n. offset_of fs name = Inr n) server_vars_fields offs" by (simp add: all_offsets_Inr)
  then have len: "length offs = length server_vars_fields" by (simp add: list_all2_lengthD)
  have "(\<forall>i < length server_vars_fields. offset_of fs (server_vars_fields ! i) = Inr (i * W)) \<longleftrightarrow>
      (\<forall>i < length offs. offs ! i = i * W)"
    using offs len by (simp add: list_all2_conv_all_nth)
  also have "\<dots> \<longleftrightarrow> offsets_loop W offs 0 = None" by (simp add: offsets_loop_None)
  finally show ?thesis using Inr len by (cases "offsets_loop W offs 0") (simp_all add: server_vars_check_def)
qed

lemma length_fields: "length server_vars_fields = 36"
  by (simp add: server_vars_fields_def)

text \<open>The layout guard pins down the declaration. Whatever a word is, a struct of word-sized fields, which is what
  every target the build accepts makes of \<^verbatim>\<open>frankenphp_server_vars\<close>, compiles exactly when its fields are the 36 the
  guard lists, in that order: a field that is dropped, renamed, added or transposed with another is a
  compile error.\<close>

theorem layout_guard_exact:
  assumes "0 < W" "distinct names"
  shows "(server_vars_check W (map (word_field W) names) = None) = (names = server_vars_fields)"
proof
  assume "server_vars_check W (map (word_field W) names) = None"
  then have size: "length names * W = length server_vars_fields * W"
    and nth: "i < length server_vars_fields \<Longrightarrow> names ! i = server_vars_fields ! i" for i
    using offset_words [OF assms] size_words [OF assms(1)] by (auto simp: server_vars_check_None)
  from size assms(1) have "length names = length server_vars_fields" by simp
  with nth show "names = server_vars_fields" by (simp add: nth_equalityI)
next
  assume "names = server_vars_fields"
  then show "server_vars_check W (map (word_field W) names) = None"
    using offset_words [OF assms] size_words [OF assms(1)] by (simp add: server_vars_check_None)
qed

theorem layout_guard_exact_witness:
  "server_vars_check 8 (map (word_field 8) server_vars_fields) = None"
proof -
  have "distinct server_vars_fields" by (simp add: server_vars_fields_def)
  from layout_guard_exact [OF _ this, of 8] show ?thesis by simp
qed

subsection \<open>A field whose type changes\<close>

lemma place_append: "place_fields pos (xs @ ys) = place_fields pos xs @ place_fields (fields_end pos xs) ys"
  by (induction xs arbitrary: pos) simp_all

lemma end_append: "fields_end pos (xs @ ys) = fields_end (fields_end pos xs) ys"
  by (induction xs arbitrary: pos) simp_all

definition words_of :: "nat \<Rightarrow> nat \<Rightarrow> nat" where
  "words_of W s = (s + (W - 1)) div W"

lemma words_of_one: "0 < W \<Longrightarrow> words_of W s = 1 \<longleftrightarrow> 0 < s \<and> s \<le> W"
proof -
  assume W: "0 < W"
  have "x div W = 1 \<Longrightarrow> W \<le> x \<and> x < 2 * W" for x
    using div_mult_mod_eq [of x W] mod_less_divisor [OF W, of x] by simp
  moreover have "W \<le> x \<Longrightarrow> x < 2 * W \<Longrightarrow> x div W = 1" for x by (rule div_nat_eqI) simp_all
  ultimately have "words_of W s = 1 \<longleftrightarrow> W \<le> s + (W - 1) \<and> s + (W - 1) < 2 * W"
    unfolding words_of_def by blast
  with W show ?thesis by auto
qed

lemma align_up_words: "0 < W \<Longrightarrow> align_up (k * W + s) W = (k + words_of W s) * W"
proof -
  assume W: "0 < W"
  have "(k * W + s + (W - 1)) div W = k + words_of W s"
    unfolding words_of_def add.assoc using W by (simp only: div_mult_self3)
  then show ?thesis by (simp add: align_up_def)
qed

text \<open>One field of another size, and of an alignment that a word's is a multiple of.\<close>

definition retyped :: "nat \<Rightarrow> nat \<Rightarrow> nat \<Rightarrow> nat \<Rightarrow> string list \<Rightarrow> c_field list" where
  "retyped W i s a names =
     map (word_field W) (take i names) @ \<lparr>cf_name = names ! i, cf_size = s, cf_align = a\<rparr> #
     map (word_field W) (drop (Suc i) names)"

lemma align_up_dvd: "a dvd W \<Longrightarrow> 0 < a \<Longrightarrow> align_up (k * W) a = k * W"
  by (metis align_up_multiple dvd_def mult.assoc mult.commute)

lemma place_retyped:
  assumes W: "0 < W" "0 < a" "a dvd W" and i: "i < length names" and one: "words_of W s = 1"
  shows "place_fields 0 (retyped W i s a names) = place_fields 0 (map (word_field W) names)"
    "fields_end 0 (map (word_field W) (take i names)) = i * W"
proof -
  show e: "fields_end 0 (map (word_field W) (take i names)) = i * W"
    using end_words [OF W(1), of 0 "take i names"] i by simp
  have names: "names = take i names @ names ! i # drop (Suc i) names" using i by (rule id_take_nth_drop)
  have next': "place_fields (i * W + s) (map (word_field W) post) = place_fields (i * W + W) (map (word_field W) post)" for post
    using align_up_words [OF W(1), of i s] align_up_words [OF W(1), of i W] one W(1) words_of_one [OF W(1), of W]
    by (cases post) (simp_all add: word_field_def)
  have "place_fields 0 (map (word_field W) (take i names @ names ! i # drop (Suc i) names)) = place_fields 0 (retyped W i s a names)"
    using W by (simp add: retyped_def place_append e align_up_dvd next' word_field_def [of W "names ! i"])
  with names show "place_fields 0 (retyped W i s a names) = place_fields 0 (map (word_field W) names)" by simp
qed

lemma max_before: "ns \<noteq> [] \<Longrightarrow> foldr max (map (cf_align \<circ> word_field W) ns) x = max W x"
proof (induction ns)
  case (Cons n ns)
  then show ?case by (cases "ns = []") (simp_all add: word_field_def)
qed simp

lemma size_retyped:
  assumes W: "0 < W" "0 < a" "a dvd W" and i: "i < length names" and two: "2 \<le> length names"
  shows "struct_size (retyped W i s a names) = (i + words_of W s + (length names - Suc i)) * W"
proof -
  let ?pre = "map (word_field W) (take i names)" and ?post = "map (word_field W) (drop (Suc i) names)"
  let ?f = "\<lparr>cf_name = names ! i, cf_size = s, cf_align = a\<rparr>"
  have pre: "fields_end 0 ?pre = i * W" using end_words [OF W(1), of 0 "take i names"] i by simp
  have "W dvd n \<Longrightarrow> align_up n W = n" for n using W(1) by (metis align_up_multiple dvd_def mult.commute)
  have "a \<le> W" using W by (simp add: dvd_imp_le)
  have "foldr max (map cf_align (retyped W i s a names)) 1 = W"
  proof (cases "take i names = []")
    case True
    then have "i = 0" "drop (Suc i) names \<noteq> []" using i two by auto
    then show ?thesis using \<open>a \<le> W\<close> W(1) max_words [OF W(1), of "drop (Suc i) names"]
      by (simp add: retyped_def)
  next
    case False
    then show ?thesis using \<open>a \<le> W\<close> W(1) max_words [OF W(1), of "drop (Suc i) names"]
      by (cases "drop (Suc i) names = []") (simp_all add: retyped_def max_before [OF False])
  qed
  moreover have "fields_end 0 (retyped W i s a names) = fields_end (i * W + s) ?post"
    using W by (simp add: retyped_def end_append pre align_up_dvd)
  moreover have "align_up (fields_end (i * W + s) ?post) W = (i + words_of W s + length (drop (Suc i) names)) * W"
  proof (cases "drop (Suc i) names")
    case Nil
    then show ?thesis using align_up_words [OF W(1)] by simp
  next
    case (Cons n ns)
    then have "fields_end (i * W + s) ?post = fields_end ((i + words_of W s) * W) ?post"
      using align_up_words [OF W(1), of i s] W(1) by (simp add: word_field_def)
    with end_words [OF W(1)] W(1) show ?thesis by simp
  qed
  ultimately show ?thesis by (simp add: struct_size_def)
qed

lemma layout_guard_retyped_iff:
  assumes W: "0 < W" "0 < a" "a dvd W" and i: "i < length server_vars_fields"
  shows "server_vars_check W (retyped W i s a server_vars_fields) = None \<longleftrightarrow> 0 < s \<and> s \<le> W"
proof -
  let ?n = "length server_vars_fields"
  have two: "2 \<le> ?n" by (simp add: length_fields)
  have "struct_size (retyped W i s a server_vars_fields) = ?n * W \<longleftrightarrow> words_of W s = 1"
    unfolding size_retyped [OF W i two] using W(1) i by auto
  moreover have "offset_of (retyped W i s a server_vars_fields) (server_vars_fields ! j) = Inr (j * W)"
    if "words_of W s = 1" "j < ?n" for j
  proof -
    have "distinct server_vars_fields" by (simp add: server_vars_fields_def)
    from offset_words [OF W(1) this, of "server_vars_fields ! j" j] that(2) place_retyped(1) [OF W i that(1)]
    show ?thesis by (simp add: offset_of_def)
  qed
  ultimately show ?thesis using words_of_one [OF W(1), of s] by (auto simp: server_vars_check_None)
qed

text \<open>C40. What the guard notices of a retyped field. When one field of \<^verbatim>\<open>frankenphp_server_vars\<close> gets another type, of any size and an
  alignment that divides a word's, the guard accepts the struct exactly when the new type still fits in a
  word: a wider field is a compile error, but a narrower one, such as a length declared with 32 bits, moves
  nothing, since padding fills its word, and passes.\<close>

theorem layout_guard_retyped:
  assumes "0 < W" "0 < a" "a dvd W" "i < 36"
  shows "(server_vars_check W (retyped W i s a server_vars_fields) = None) = (0 < s \<and> s \<le> W)"
  using layout_guard_retyped_iff [OF assms(1-3)] assms(4) by (simp add: length_fields)

theorem layout_guard_retyped_witness:
  "server_vars_check 8 (retyped 8 2 4 4 server_vars_fields) = None \<and>
   server_vars_check 8 (retyped 8 2 16 8 server_vars_fields) \<noteq> None"
  using layout_guard_retyped [of 8 4 2 4] layout_guard_retyped [of 8 8 2 16] by simp

subsection \<open>The force-kill slot under both conditions\<close>

text \<open>The fields \<^verbatim>\<open>frankenphp.h\<close> declares; the last one only with a kill signal.\<close>

definition force_kill_fields :: "bool \<Rightarrow> string list" where
  "force_kill_fields has_kill_signal = [''vm_interrupt'', ''timed_out''] @ (if has_kill_signal then [''tid''] else [])"

lemma assert_offset_None: "assert_offset fs name n = None \<longleftrightarrow> offset_of fs name = Inr n"
  by (simp add: assert_offset_def split: sum.splits)

lemma force_kill_guard:
  assumes W: "0 < W"
  shows "force_kill_slot_compiles W expected (map (word_field W) (force_kill_fields actual)) \<longleftrightarrow> expected = actual"
proof
  assume "force_kill_slot_compiles W expected (map (word_field W) (force_kill_fields actual))"
  then have "length (force_kill_fields actual) * W = FORCE_KILL_SLOT_WORDS expected * W"
    using size_words [OF W] by (simp add: force_kill_slot_compiles_def assert_kill_size_def split: if_splits)
  with W show "expected = actual"
    by (cases expected; cases actual) (simp_all add: force_kill_fields_def FORCE_KILL_SLOT_WORDS_def)
next
  assume same: "expected = actual"
  have "distinct (force_kill_fields actual)" by (simp add: force_kill_fields_def)
  then have offset: "assert_offset (map (word_field W) (force_kill_fields actual)) name (k * W) = None \<longleftrightarrow>
      k < length (force_kill_fields actual) \<and> force_kill_fields actual ! k = name" for name k
    by (simp only: assert_offset_None offset_words [OF W])
  show "force_kill_slot_compiles W expected (map (word_field W) (force_kill_fields actual))"
    using same size_words [OF W, of "force_kill_fields actual"]
      offset [of "''vm_interrupt''" 0] offset [of "''timed_out''" 1] offset [of "''tid''" 2]
    by (auto simp: force_kill_slot_compiles_def assert_kill_size_def assert_kill_pointers_def assert_kill_tid_def
        force_kill_fields_def FORCE_KILL_SLOT_WORDS_def)
qed

end
