(* ===== verification/BuildScript.thy ===== *)
theory BuildScript
  imports Layout Output
begin

section \<open>The build script: \<^verbatim>\<open>frankenrust-sys/build.rs\<close>\<close>

text \<open>
  The script that compiles upstream's C files against the PHP that \<^verbatim>\<open>php-config\<close> describes, probes one
  condition of its header, and tells Cargo what to link. It reads the environment, runs
  \<^verbatim>\<open>php-config\<close>, \<^verbatim>\<open>pkg-config\<close>, the C compiler and bindgen, which are arguments (\<open>toolchain\<close>), and acts by the lines it
  prints, among which are, at their places, the ones that the \<^verbatim>\<open>cc\<close> and \<^verbatim>\<open>pkg_config\<close>
  crates print of their own. What Cargo makes of a line is its own affair and no part of the model. A panic
  ends it, with what was printed before. Texts are their UTF-8 bytes; the variables that Cargo sets are
  UTF-8, and paths are those of a Unix host.
\<close>

subsection \<open>Lines printed and panics\<close>

datatype build_panic =
    Var_Not_Set string | Not_Spawned bytes | Exit_Status bytes | Not_Utf8 bytes | Unexpected_Include bytes
  | No_Pkg_Config | Windows_Target | Unverified_Target bytes | Compile_Failed | Probe_Not_Written
  | Expand_Failed | Kill_Signal_Unknown | Bindgen_Failed | Bindings_Not_Written

type_synonym 'a build = "bytes list \<times> (build_panic + 'a)"

definition build_return :: "'a \<Rightarrow> 'a build" where
  "build_return x = ([], Inr x)"

definition build_panic :: "build_panic \<Rightarrow> 'a build" where
  "build_panic e = ([], Inl e)"

definition println :: "bytes list \<Rightarrow> unit build" where
  "println ls = (ls, Inr ())"

definition build_bind :: "'a build \<Rightarrow> ('a \<Rightarrow> 'b build) \<Rightarrow> 'b build" where
  "build_bind m f =
     (case m of
        (out, Inl e) \<Rightarrow> (out, Inl e)
      | (out, Inr x) \<Rightarrow> (case f x of (out', r) \<Rightarrow> (out @ out', r)))"

definition expect :: "build_panic \<Rightarrow> 'a option \<Rightarrow> 'a build" where
  "expect e x = (case x of None \<Rightarrow> build_panic e | Some y \<Rightarrow> build_return y)"

subsection \<open>The tools\<close>

datatype config_run = Run_Failed | Run_Exited bytes | Run_Ok bytes

record cc_build =
  cb_files :: "bytes list"
  cb_includes :: "bytes list"
  cb_defines :: "bytes list"
  cb_flags :: "bytes list"
  cb_warnings :: bool

record bindgen_config =
  bg_header :: bytes
  bg_clang_args :: "bytes list"
  bg_types :: "bytes list"
  bg_functions :: "bytes list"
  bg_vars :: "bytes list"
  bg_non_exhaustive_enums :: bool
  bg_derive_default :: bool

record toolchain =
  tc_var :: "string \<Rightarrow> bytes option"
  tc_php_config :: "bytes \<Rightarrow> bytes list \<Rightarrow> config_run"
  tc_pkg_config :: "bytes \<Rightarrow> bytes list \<times> bytes list option"   \<comment> \<open>what it prints, the include paths of a library\<close>
  tc_compile :: "bytes \<Rightarrow> cc_build \<Rightarrow> bytes list \<times> bool"
  tc_expand :: "bytes \<Rightarrow> cc_build \<Rightarrow> bytes list \<times> bytes option"   \<comment> \<open>the content of the file, preprocessed\<close>
  tc_bindgen :: "bindgen_config \<Rightarrow> bytes option"
  tc_write :: "bytes \<Rightarrow> bytes \<Rightarrow> bool"

text \<open>A tool that prints lines of its own before it gives its result or fails.\<close>

definition run_tool :: "build_panic \<Rightarrow> bytes list \<times> 'a option \<Rightarrow> 'a build" where
  "run_tool e r = (case r of (ls, None) \<Rightarrow> (ls, Inl e) | (ls, Some x) \<Rightarrow> (ls, Inr x))"

definition path_join :: "bytes \<Rightarrow> bytes \<Rightarrow> bytes" where
  "path_join base p =
     (if take 1 p = ''/'' then p
      else if base = [] \<or> last base = CHR ''/'' then base @ p
      else base @ ''/'' @ p)"

definition strip_prefix :: "bytes \<Rightarrow> bytes \<Rightarrow> bytes option" where
  "strip_prefix prefix bs = (if take (length prefix) bs = prefix then Some (drop (length prefix) bs) else None)"

fun contains :: "bytes \<Rightarrow> bytes \<Rightarrow> bool" where
  "contains [] needle = (needle = [])"
| "contains (b # bs) needle = (take (length needle) (b # bs) = needle \<or> contains bs needle)"

subsection \<open>\<^verbatim>\<open>php_config\<close>\<close>

text \<open>Unicode's \<^verbatim>\<open>White_Space\<close>, which \<^verbatim>\<open>split_whitespace\<close> splits at.\<close>

definition is_white_space :: "rune \<Rightarrow> bool" where
  "is_white_space c =
     (9 \<le> c \<and> c \<le> 13 \<or> 8192 \<le> c \<and> c \<le> 8202 \<or> c \<in> {32, 133, 160, 5760, 8232, 8233, 8239, 8287, 12288})"

fun split_at_white :: "rstring \<Rightarrow> rstring list" where
  "split_at_white [] = [[]]"
| "split_at_white (c # cs) =
     (if is_white_space c then [] # split_at_white cs
      else (case split_at_white cs of [] \<Rightarrow> [[c]] | t # ts \<Rightarrow> (c # t) # ts))"

definition split_whitespace :: "rstring \<Rightarrow> rstring list" where
  "split_whitespace cs = filter (\<lambda>t. t \<noteq> []) (split_at_white cs)"

definition rstring_bytes :: "rstring \<Rightarrow> bytes" where
  "rstring_bytes cs = concat (map utf8_encode cs)"

definition php_config :: "toolchain \<Rightarrow> bytes \<Rightarrow> bytes list \<Rightarrow> bytes list build" where
  "php_config tc php_config_bin args =
     (case tc_php_config tc php_config_bin args of
        Run_Failed \<Rightarrow> build_panic (Not_Spawned php_config_bin)
      | Run_Exited stderr \<Rightarrow> build_panic (Exit_Status stderr)
      | Run_Ok stdout \<Rightarrow>
          (case from_utf8 stdout of
             Utf8_Err n \<Rightarrow> build_panic (Not_Utf8 stdout)
           | Utf8_Ok cs \<Rightarrow> build_return (map rstring_bytes (split_whitespace cs))))"

subsection \<open>\<^verbatim>\<open>emit_link_flag\<close>\<close>

definition emit_link_flag :: "bytes \<Rightarrow> bytes list" where
  "emit_link_flag flag =
     (case strip_prefix ''-l'' flag of
        Some lib \<Rightarrow> [''cargo:rustc-link-lib='' @ lib]
      | None \<Rightarrow>
          (case strip_prefix ''-L'' flag of
             Some path \<Rightarrow> [''cargo:rustc-link-search=native='' @ path]
           | None \<Rightarrow> if flag \<noteq> [] then [''cargo:rustc-link-arg='' @ flag] else []))"

subsection \<open>\<^verbatim>\<open>probe_has_kill_signal\<close>\<close>

definition MARKER :: bytes where
  "MARKER = ''FRANKENRUST_HAS_KILL_SIGNAL_PROBE_RESULT''"

definition newline :: bytes where
  "newline = [CHR 0x0A]"

definition quoted :: "bytes \<Rightarrow> bytes" where
  "quoted bs = [CHR 0x22] @ bs @ [CHR 0x22]"

definition probe_source :: bytes where
  "probe_source =
     ''#include '' @ quoted ''frankenphp.h'' @ newline @ ''#ifdef FRANKENPHP_HAS_KILL_SIGNAL'' @ newline @
     MARKER @ '' yes'' @ newline @ ''#else'' @ newline @ MARKER @ '' no'' @ newline @ ''#endif'' @ newline"

definition cc_new :: cc_build where
  "cc_new = \<lparr>cb_files = [], cb_includes = [], cb_defines = [], cb_flags = [], cb_warnings = True\<rparr>"

definition probe_build :: "bytes \<Rightarrow> bytes \<Rightarrow> bytes list \<Rightarrow> bytes \<Rightarrow> bytes \<Rightarrow> cc_build" where
  "probe_build vendor_dir sys_include_dir include_paths target_os out_dir =
     cc_new\<lparr>cb_files := [path_join out_dir ''probe_kill_signal.c''],
       cb_includes := [sys_include_dir, vendor_dir] @ include_paths,
       cb_defines := (if target_os = ''linux'' then [''_GNU_SOURCE''] else [])\<rparr>"

definition probe_verdict :: "bytes \<Rightarrow> bool build" where
  "probe_verdict expanded =
     (if contains expanded (MARKER @ '' yes'') then build_return True
      else if contains expanded (MARKER @ '' no'') then build_return False
      else build_panic Kill_Signal_Unknown)"

definition probe_has_kill_signal ::
  "toolchain \<Rightarrow> bytes \<Rightarrow> bytes \<Rightarrow> bytes list \<Rightarrow> bytes \<Rightarrow> bytes \<Rightarrow> bool build"
where
  "probe_has_kill_signal tc vendor_dir sys_include_dir include_paths target_os out_dir =
     (if tc_write tc (path_join out_dir ''probe_kill_signal.c'') probe_source
      then build_bind
             (run_tool Expand_Failed
                (tc_expand tc probe_source (probe_build vendor_dir sys_include_dir include_paths target_os out_dir)))
             (\<lambda>text. probe_verdict (from_utf8_lossy text))
      else build_panic Probe_Not_Written)"

subsection \<open>What is compiled\<close>

record dirs =
  bd_manifest :: bytes
  bd_vendor :: bytes
  bd_include :: bytes
  bd_wrapper :: bytes
  bd_out :: bytes
  bd_target_os :: bytes

definition build_dirs :: "toolchain \<Rightarrow> dirs build" where
  "build_dirs tc =
     build_bind (expect (Var_Not_Set ''CARGO_MANIFEST_DIR'') (tc_var tc ''CARGO_MANIFEST_DIR'')) (\<lambda>manifest.
     build_bind (expect (Var_Not_Set ''OUT_DIR'') (tc_var tc ''OUT_DIR'')) (\<lambda>out.
     build_bind (expect (Var_Not_Set ''CARGO_CFG_TARGET_OS'') (tc_var tc ''CARGO_CFG_TARGET_OS'')) (\<lambda>target_os.
     build_return
       \<lparr>bd_manifest = manifest, bd_vendor = path_join manifest ''../../vendor/frankenphp'',
        bd_include = path_join manifest ''include'', bd_wrapper = path_join manifest ''wrapper.h'', bd_out = out,
        bd_target_os = target_os\<rparr>)))"

definition rerun_lines :: "dirs \<Rightarrow> bytes list" where
  "rerun_lines d =
     map (\<lambda>path. ''cargo:rerun-if-changed='' @ path)
       [path_join (bd_vendor d) ''frankenphp.c'', path_join (bd_vendor d) ''types.c'',
        path_join (bd_vendor d) ''frankenphp.h'', path_join (bd_vendor d) ''types.h'',
        path_join (bd_vendor d) ''frankenphp_arginfo.h'', path_join (bd_include d) ''_cgo_export.h'',
        path_join (bd_include d) ''frankenrust_shim.h'', path_join (bd_manifest d) ''shim.c'', bd_wrapper d]
     @ [''cargo:rerun-if-env-changed=PHP_CONFIG'']"

definition php_config_bin :: "toolchain \<Rightarrow> bytes" where
  "php_config_bin tc = (case tc_var tc ''PHP_CONFIG'' of Some bin \<Rightarrow> bin | None \<Rightarrow> ''php-config'')"

fun include_paths :: "bytes list \<Rightarrow> bytes list build" where
  "include_paths [] = build_return []"
| "include_paths (flag # flags) =
     build_bind (expect (Unexpected_Include flag) (strip_prefix ''-I'' flag)) (\<lambda>path.
     build_bind (include_paths flags) (\<lambda>paths. build_return (path # paths)))"

definition base_build :: "dirs \<Rightarrow> bytes list \<Rightarrow> cc_build" where
  "base_build d paths =
     cc_new\<lparr>cb_files := [path_join (bd_vendor d) ''frankenphp.c'', path_join (bd_vendor d) ''types.c'',
         path_join (bd_manifest d) ''shim.c''],
       cb_includes := [bd_include d, bd_vendor d] @ paths,
       cb_warnings := False, cb_flags := [''-Wall'', ''-Werror'']\<rparr>"

definition target_build :: "toolchain \<Rightarrow> bytes \<Rightarrow> cc_build \<Rightarrow> cc_build build" where
  "target_build tc target_os build =
     (if target_os = ''linux'' then build_return (build\<lparr>cb_defines := cb_defines build @ [''_GNU_SOURCE'']\<rparr>)
      else if target_os = ''macos'' then
        build_bind (run_tool No_Pkg_Config (tc_pkg_config tc ''libxml-2.0'')) (\<lambda>paths.
          build_return (build\<lparr>cb_includes := cb_includes build @ paths\<rparr>))
      else if target_os = ''windows'' then build_panic Windows_Target
      else build_panic (Unverified_Target target_os))"

subsection \<open>What is linked\<close>

definition cfg_lines :: "bool \<Rightarrow> bytes list" where
  "cfg_lines has_kill_signal =
     [''cargo:rustc-check-cfg=cfg(frankenphp_has_kill_signal)''] @
     (if has_kill_signal then [''cargo:rustc-cfg=frankenphp_has_kill_signal''] else [])"

definition target_libs :: "bytes \<Rightarrow> bytes list" where
  "target_libs target_os =
     (if target_os = ''linux'' then map (\<lambda>lib. ''cargo:rustc-link-lib='' @ lib) [''dl'', ''resolv'']
      else if target_os = ''macos'' then
        map (\<lambda>lib. ''cargo:rustc-link-lib='' @ lib) [''iconv'', ''dl''] @
        [''cargo:rustc-link-arg=-Wl,-rpath,/usr/local/lib'']
      else [])"

definition link_lines :: "bytes \<Rightarrow> bytes list \<Rightarrow> bytes list" where
  "link_lines target_os ldflags =
     concat (map emit_link_flag ldflags) @ map (\<lambda>lib. ''cargo:rustc-link-lib='' @ lib) [''php'', ''m'', ''util''] @
     target_libs target_os"

subsection \<open>What is bound\<close>

definition allowlist_types :: "bytes list" where
  "allowlist_types =
     [''frankenphp_version'', ''frankenphp_config'', ''force_kill_slot'', ''frankenphp_server_vars'',
      ''go_string'', ''go_apache_request_headers_return'',
      ''go_frankenphp_worker_handle_request_start_return'', ''go_ub_write_return'',
      ''go_mercure_publish_return'', ''sapi_request_info'', ''zend_string'', ''zend_llist'',
      ''zend_array'', ''HashTable'', ''zval'', ''zend_long'', ''frankenrust_header_var'',
      ''frankenrust_server_vars_batch'']"

definition allowlist_functions :: "bytes list" where
  "allowlist_functions =
     [''frankenphp_get_version'', ''frankenphp_get_config'', ''frankenphp_init_persistent_string'',
      ''frankenphp_new_main_thread'', ''frankenphp_new_php_thread'',
      ''frankenphp_init_persistent_string'', ''frankenphp_init_thread_metrics'',
      ''frankenphp_destroy_thread_metrics'', ''frankenphp_force_kill_thread'',
      ''frankenphp_release_thread_for_kill'', ''frankenphp_get_current_memory_limit'',
      ''frankenphp_update_local_thread_context'', ''malloc'', ''free'', ''get_ht_packed_data'',
      ''get_ht_bucket_data'', ''__emalloc__'', ''__efree__'', ''__zend_hash_init__'',
      ''__hash_update_string__'', ''__zend_is_callable__'', ''__call_user_function__'',
      ''__zval_null__'', ''__zval_bool__'', ''__zval_long__'', ''__zval_double__'',
      ''__zval_string__'', ''__zval_empty_string__'', ''__zval_arr__'', ''__zend_new_array__'']"

definition allowlist_vars :: "bytes list" where
  "allowlist_vars =
     [''IS_UNDEF'', ''IS_NULL'', ''IS_FALSE'', ''IS_TRUE'', ''IS_LONG'', ''IS_DOUBLE'', ''IS_STRING'',
      ''IS_ARRAY'', ''HASH_FLAG_PACKED'']"

definition bindgen_setup :: "dirs \<Rightarrow> bytes list \<Rightarrow> bindgen_config" where
  "bindgen_setup d paths =
     \<lparr>bg_header = bd_wrapper d,
      bg_clang_args = map (\<lambda>p. ''-I'' @ p) ([bd_include d, bd_vendor d] @ paths) @
        (if bd_target_os d = ''linux'' then [''-D_GNU_SOURCE''] else []),
      bg_types = allowlist_types, bg_functions = allowlist_functions, bg_vars = allowlist_vars,
      bg_non_exhaustive_enums = False, bg_derive_default = True\<rparr>"

subsection \<open>\<^verbatim>\<open>main\<close>\<close>

definition compile :: "toolchain \<Rightarrow> bytes \<Rightarrow> cc_build \<Rightarrow> unit build" where
  "compile tc output build =
     (case tc_compile tc output build of
        (ls, ok) \<Rightarrow> run_tool Compile_Failed (ls, if ok then Some () else None))"

definition build_main :: "toolchain \<Rightarrow> unit build" where
  "build_main tc =
     build_bind (build_dirs tc) (\<lambda>d.
     build_bind (println (rerun_lines d)) (\<lambda>_.
     build_bind (php_config tc (php_config_bin tc) [''--includes'']) (\<lambda>incs.
     build_bind (php_config tc (php_config_bin tc) [''--ldflags'']) (\<lambda>ldflags.
     build_bind (include_paths incs) (\<lambda>paths.
     build_bind (target_build tc (bd_target_os d) (base_build d paths)) (\<lambda>build.
     build_bind (compile tc ''frankenphp_c'' build) (\<lambda>_.
     build_bind (probe_has_kill_signal tc (bd_vendor d) (bd_include d) paths (bd_target_os d) (bd_out d)) (\<lambda>has_kill_signal.
     build_bind (println (cfg_lines has_kill_signal)) (\<lambda>_.
     build_bind (println (link_lines (bd_target_os d) ldflags)) (\<lambda>_.
     build_bind (expect Bindgen_Failed (tc_bindgen tc (bindgen_setup d paths))) (\<lambda>bindings.
     if tc_write tc (path_join (bd_out d) ''bindings.rs'') bindings then build_return ()
     else build_panic Bindings_Not_Written)))))))))))"

subsection \<open>Sequencing\<close>

named_theorems build_simps \<open>unfolding the script step by step\<close>

lemma build_bind_Inr:
  "build_bind m f = (out, Inr y) \<longleftrightarrow> (\<exists>out1 out2 x. m = (out1, Inr x) \<and> f x = (out2, Inr y) \<and> out = out1 @ out2)"
  by (auto simp: build_bind_def split: prod.splits sum.splits)

lemma build_bind_simps [build_simps]:
  "build_bind (build_return x) f = f x" "build_bind (build_panic e) g = build_panic e"
  "build_bind (println ls) h = (ls @ fst (h ()), snd (h ()))"
  by (simp_all add: build_bind_def build_return_def build_panic_def println_def split: prod.splits)

lemma build_bind_snd: "snd (build_bind m f) = (case snd m of Inl e \<Rightarrow> Inl e | Inr x \<Rightarrow> snd (f x))"
  by (simp add: build_bind_def split: prod.splits sum.splits)

lemma build_return_Inr [build_simps]: "build_return x = (out, Inr y) \<longleftrightarrow> out = [] \<and> y = x"
  by (auto simp: build_return_def)

lemma build_panic_Inr [build_simps]: "build_panic e \<noteq> (out, Inr y)"
  by (simp add: build_panic_def)

lemma println_Inr [build_simps]: "println ls = (out, Inr y) \<longleftrightarrow> out = ls"
  by (auto simp: println_def)

lemma expect_Inr [build_simps]: "expect e x = (out, Inr y) \<longleftrightarrow> out = [] \<and> x = Some y"
  by (auto simp: expect_def build_simps split: option.splits)

lemma run_tool_Inr [build_simps]: "run_tool e r = (out, Inr y) \<longleftrightarrow> r = (out, Some y)"
  by (cases r) (auto simp: run_tool_def split: option.splits)

lemma compile_Inr [build_simps]: "compile tc lib build = (out, Inr y) \<longleftrightarrow> tc_compile tc lib build = (out, True)"
  by (auto simp: compile_def build_simps split: prod.splits if_splits)

lemma silent:
  "fst (expect e x) = []" "fst (php_config tc bin args) = []" "fst (include_paths flags) = []"
  "fst (probe_verdict text) = []" "fst (build_dirs tc) = []"
proof -
  show e: "fst (expect e x) = []" for e and x :: "'e option"
    by (simp add: expect_def build_panic_def build_return_def split: option.splits)
  have bind: "fst m = [] \<Longrightarrow> (\<And>x. fst (f x) = []) \<Longrightarrow> fst (build_bind m f) = []" for m :: "'b build" and f :: "'b \<Rightarrow> 'c build"
    by (auto simp: build_bind_def split: prod.splits sum.splits) (metis fst_conv)
  have unit: "fst (build_return x) = []" "fst (build_panic err) = []" for x :: 'f and err by (simp_all add: build_return_def build_panic_def)
  show "fst (php_config tc bin args) = []"
    by (simp add: php_config_def build_panic_def build_return_def split: config_run.splits utf8_result.splits)
  show "fst (include_paths flags) = []"
    by (induction flags) (auto simp: unit e intro!: bind)
  show "fst (probe_verdict text) = []"
    by (simp add: probe_verdict_def build_panic_def build_return_def)
  show "fst (build_dirs tc) = []"
    by (simp add: build_dirs_def build_bind_def expect_def build_panic_def build_return_def split: option.splits)
qed

lemma silent_iff:
  assumes "fst m = []"
  shows "m = (out, r) \<longleftrightarrow> out = [] \<and> snd m = r"
  using assms by (cases m) auto

lemmas silent_outcome = silent [THEN silent_iff]

subsection \<open>A run that succeeds\<close>

text \<open>What \<^verbatim>\<open>pkg_config\<close> prints, which only macOS runs.\<close>

definition pkg_lines :: "toolchain \<Rightarrow> bytes \<Rightarrow> bytes list" where
  "pkg_lines tc target_os = (if target_os = ''macos'' then fst (tc_pkg_config tc ''libxml-2.0'') else [])"

text \<open>How one run of the script went: where it built, the words of \<^verbatim>\<open>php-config\<close>, what it compiled and what the
  probe answered.\<close>

definition built :: "toolchain \<Rightarrow> dirs \<Rightarrow> bytes list \<Rightarrow> bytes list \<Rightarrow> cc_build \<Rightarrow> bool \<Rightarrow> bool" where
  "built tc d paths ldflags build kill =
     (snd (build_dirs tc) = Inr d \<and>
      (\<exists>incs. snd (php_config tc (php_config_bin tc) [''--includes'']) = Inr incs \<and> snd (include_paths incs) = Inr paths) \<and>
      snd (php_config tc (php_config_bin tc) [''--ldflags'']) = Inr ldflags \<and>
      snd (target_build tc (bd_target_os d) (base_build d paths)) = Inr build \<and>
      snd (tc_compile tc ''frankenphp_c'' build) \<and>
      snd (probe_has_kill_signal tc (bd_vendor d) (bd_include d) paths (bd_target_os d) (bd_out d)) = Inr kill)"

definition tool_lines :: "toolchain \<Rightarrow> dirs \<Rightarrow> bytes list \<Rightarrow> cc_build \<Rightarrow> bytes list" where
  "tool_lines tc d paths build =
     pkg_lines tc (bd_target_os d) @ fst (tc_compile tc ''frankenphp_c'' build) @
     fst (tc_expand tc probe_source (probe_build (bd_vendor d) (bd_include d) paths (bd_target_os d) (bd_out d)))"

lemma target_build_Inr:
  assumes "target_build tc os build = (out, Inr build')"
  shows "out = pkg_lines tc os" "os = ''linux'' \<or> os = ''macos''"
    "os = ''linux'' \<Longrightarrow> build' = build\<lparr>cb_defines := cb_defines build @ [''_GNU_SOURCE'']\<rparr>"
    "os = ''macos'' \<Longrightarrow> \<exists>ls paths. tc_pkg_config tc ''libxml-2.0'' = (ls, Some paths) \<and>
        build' = build\<lparr>cb_includes := cb_includes build @ paths\<rparr>"
  using assms
  by (auto simp: target_build_def pkg_lines_def build_bind_Inr build_simps split: if_splits)

lemma probe_Inr:
  assumes "probe_has_kill_signal tc v i ps os odir = (out, Inr kill)"
  shows "out = fst (tc_expand tc probe_source (probe_build v i ps os odir))"
    "\<exists>expanded. snd (tc_expand tc probe_source (probe_build v i ps os odir)) = Some expanded \<and>
       kill = contains (from_utf8_lossy expanded) (MARKER @ '' yes'')"
proof -
  from assms obtain ls shown v_out where "tc_expand tc probe_source (probe_build v i ps os odir) = (ls, Some shown)"
    and v: "probe_verdict (from_utf8_lossy shown) = (v_out, Inr kill)" and "out = ls @ v_out"
    by (auto simp: probe_has_kill_signal_def build_bind_Inr build_simps split: if_splits)
  moreover have "v_out = []" using silent(4) v by (metis fst_conv)
  moreover have "kill = contains (from_utf8_lossy shown) (MARKER @ '' yes'')"
    using v by (auto simp: probe_verdict_def build_simps split: if_splits)
  ultimately show "out = fst (tc_expand tc probe_source (probe_build v i ps os odir))"
    "\<exists>expanded. snd (tc_expand tc probe_source (probe_build v i ps os odir)) = Some expanded \<and>
       kill = contains (from_utf8_lossy expanded) (MARKER @ '' yes'')" by simp_all
qed

lemma build_main_ok:
  assumes "build_main tc = (out, Inr ())"
  obtains d paths ldflags build kill where "built tc d paths ldflags build kill"
    "out = rerun_lines d @ tool_lines tc d paths build @ cfg_lines kill @ link_lines (bd_target_os d) ldflags"
proof -
  from assms obtain d incs ldflags paths build kill out1 out2 out3 where
    "snd (build_dirs tc) = Inr d" "snd (php_config tc (php_config_bin tc) [''--includes'']) = Inr incs"
    "snd (php_config tc (php_config_bin tc) [''--ldflags'']) = Inr ldflags" "snd (include_paths incs) = Inr paths"
    and t: "target_build tc (bd_target_os d) (base_build d paths) = (out1, Inr build)"
    and c: "tc_compile tc ''frankenphp_c'' build = (out2, True)"
    and p: "probe_has_kill_signal tc (bd_vendor d) (bd_include d) paths (bd_target_os d) (bd_out d) = (out3, Inr kill)"
    and out: "out = rerun_lines d @ out1 @ out2 @ out3 @ cfg_lines kill @ link_lines (bd_target_os d) ldflags"
    unfolding build_main_def build_bind_Inr println_Inr expect_Inr compile_Inr silent_outcome
    by (elim exE conjE) (simp add: build_return_Inr build_panic_Inr split: if_splits)
  then have "built tc d paths ldflags build kill" unfolding built_def t p c by auto
  moreover have "out1 @ out2 @ out3 = tool_lines tc d paths build"
    using target_build_Inr(1) [OF t] probe_Inr(1) [OF p] c by (simp add: tool_lines_def)
  then have "out = rerun_lines d @ tool_lines tc d paths build @ cfg_lines kill @ link_lines (bd_target_os d) ldflags"
    using out by (metis append.assoc)
  ultimately show thesis by (rule that)
qed

lemma build_dirs_ok: "snd (build_dirs tc) = Inr d \<Longrightarrow> tc_var tc ''CARGO_CFG_TARGET_OS'' = Some (bd_target_os d)"
  by (auto simp: build_dirs_def build_bind_def expect_def build_panic_def build_return_def split: option.splits)

lemma built_target:
  assumes "built tc d paths ldflags build kill"
  shows "tc_var tc ''CARGO_CFG_TARGET_OS'' = Some (bd_target_os d)" "bd_target_os d = ''linux'' \<or> bd_target_os d = ''macos''"
  using assms build_dirs_ok target_build_Inr(2) by (auto simp: built_def) (metis surjective_pairing)

subsection \<open>The lines of each kind\<close>

text \<open>What follows a prefix, in the lines or words that have it, in their order.\<close>

definition payloads :: "bytes \<Rightarrow> bytes list \<Rightarrow> bytes list" where
  "payloads prefix ls = List.map_filter (strip_prefix prefix) ls"

definition link_lib :: bytes where
  "link_lib = ''cargo:rustc-link-lib=''"

definition link_search :: bytes where
  "link_search = ''cargo:rustc-link-search=native=''"

definition link_arg :: bytes where
  "link_arg = ''cargo:rustc-link-arg=''"

definition other_line :: "bytes \<Rightarrow> bool" where
  "other_line l = (strip_prefix link_lib l = None \<and> strip_prefix link_search l = None \<and> strip_prefix link_arg l = None)"

definition other_flag :: "bytes \<Rightarrow> bool" where
  "other_flag flag = (strip_prefix ''-l'' flag = None \<and> strip_prefix ''-L'' flag = None)"

lemma strip_prefix_Some: "strip_prefix p bs = Some r \<longleftrightarrow> bs = p @ r"
  by (auto simp: strip_prefix_def) (metis append_take_drop_id)

lemma payloads_simps [simp]:
  "payloads p [] = []"
  "payloads p (l # ls) = (case strip_prefix p l of None \<Rightarrow> payloads p ls | Some r \<Rightarrow> r # payloads p ls)"
  "payloads p (xs @ ys) = payloads p xs @ payloads p ys"
  by (simp_all add: payloads_def map_filter_def split: option.splits)

lemma prefixes [simp]:
  "strip_prefix link_lib (link_lib @ r) = Some r" "strip_prefix link_lib (link_search @ r) = None" "strip_prefix link_lib (link_arg @ r) = None"
  "strip_prefix link_search (link_lib @ r) = None" "strip_prefix link_search (link_search @ r) = Some r" "strip_prefix link_search (link_arg @ r) = None"
  "strip_prefix link_arg (link_lib @ r) = None" "strip_prefix link_arg (link_search @ r) = None" "strip_prefix link_arg (link_arg @ r) = Some r"
  by (simp_all add: link_lib_def link_search_def link_arg_def strip_prefix_def)

lemma emit_link_flag_kinds:
  "emit_link_flag flag =
     (case strip_prefix ''-l'' flag of Some lib \<Rightarrow> [link_lib @ lib]
      | None \<Rightarrow> (case strip_prefix ''-L'' flag of Some path \<Rightarrow> [link_search @ path]
                 | None \<Rightarrow> if flag \<noteq> [] then [link_arg @ flag] else []))"
  by (simp only: emit_link_flag_def link_lib_def link_search_def link_arg_def)

text \<open>A word starts with one of \<^verbatim>\<open>-l\<close> and \<^verbatim>\<open>-L\<close> at most.\<close>

lemma flag_kinds: "strip_prefix ''-l'' flag = Some lib \<Longrightarrow> strip_prefix ''-L'' flag = None"
  by (auto simp: strip_prefix_Some strip_prefix_def)

lemma emitted_kinds:
  assumes "[] \<notin> set flags"
  shows "payloads link_lib (concat (map emit_link_flag flags)) = payloads ''-l'' flags"
    "payloads link_search (concat (map emit_link_flag flags)) = payloads ''-L'' flags"
    "payloads link_arg (concat (map emit_link_flag flags)) = filter other_flag flags"
    "filter other_line (concat (map emit_link_flag flags)) = []"
  using assms
  by (induction flags)
    (auto simp: emit_link_flag_kinds other_flag_def other_line_def flag_kinds split: option.splits)

text \<open>The libraries and arguments of a target that \<^verbatim>\<open>php-config\<close> does not name.\<close>

definition own_libs :: "bytes \<Rightarrow> bytes list" where
  "own_libs target_os = [''php'', ''m'', ''util''] @
     (if target_os = ''linux'' then [''dl'', ''resolv''] else [''iconv'', ''dl''])"

definition own_args :: "bytes \<Rightarrow> bytes list" where
  "own_args target_os = (if target_os = ''linux'' then [] else [''-Wl,-rpath,/usr/local/lib''])"

lemma link_lines_kinds:
  assumes "os = ''linux'' \<or> os = ''macos''"
  shows "link_lines os ldflags = concat (map emit_link_flag ldflags) @ map ((@) link_lib) (own_libs os) @ map ((@) link_arg) (own_args os)"
  using assms
  by (auto simp: link_lines_def target_libs_def own_libs_def own_args_def link_lib_def link_arg_def)

lemma kinds_of_lines:
  "payloads link_lib (map ((@) link_lib) xs) = xs" "payloads link_lib (map ((@) link_arg) xs) = []"
  "payloads link_search (map ((@) link_lib) xs) = []" "payloads link_search (map ((@) link_arg) xs) = []"
  "payloads link_arg (map ((@) link_lib) xs) = []" "payloads link_arg (map ((@) link_arg) xs) = xs"
  "filter other_line (map ((@) link_lib) xs) = []" "filter other_line (map ((@) link_arg) xs) = []"
  by (induction xs) (simp_all add: other_line_def)

lemma cfg_lines_kinds:
  "payloads link_lib (cfg_lines kill) = []" "payloads link_search (cfg_lines kill) = []"
  "payloads link_arg (cfg_lines kill) = []" "filter other_line (cfg_lines kill) = cfg_lines kill"
  by (simp_all add: cfg_lines_def other_line_def link_lib_def link_search_def link_arg_def strip_prefix_def)

lemma php_config_tokens:
  assumes "snd (php_config tc bin args) = Inr flags"
  shows "[] \<notin> set flags"
proof -
  have enc: "utf8_encode c \<noteq> []" for c by (simp add: utf8_encode_def)
  then have "rstring_bytes t = [] \<longleftrightarrow> t = []" for t by (cases t) (simp_all add: rstring_bytes_def)
  with assms show ?thesis
    by (force simp: php_config_def build_panic_def build_return_def split_whitespace_def
        split: config_run.splits utf8_result.splits)
qed

text \<open>C38. Each word of \<^verbatim>\<open>php-config --ldflags\<close> becomes the instruction of its kind. When the build script succeeds,
  whatever tools answered it, what it printed is the lines to watch for changes, then what \<^verbatim>\<open>pkg_config\<close> and the two
  runs of \<^verbatim>\<open>cc\<close> printed of their own, then lines of the script's in which: the libraries are exactly the
  \<^verbatim>\<open>-l\<close> words followed by \<^verbatim>\<open>php\<close>, \<^verbatim>\<open>m\<close>, \<^verbatim>\<open>util\<close> and the two of the target, which is Linux or macOS;
  the search paths are exactly the \<^verbatim>\<open>-L\<close> words; the raw arguments, which Cargo keeps to this package, are exactly
  the other words, followed on macOS by the run path; each in its order and with its prefix taken off;
  and every other line is about the configuration of the kill signal.\<close>

theorem build_links_php_config:
  assumes "build_main tc = (out, Inr ())"
  shows "\<exists>d paths ldflags build kill own. built tc d paths ldflags build kill \<and>
    (bd_target_os d = ''linux'' \<or> bd_target_os d = ''macos'') \<and>
    out = rerun_lines d @ tool_lines tc d paths build @ own \<and>
    payloads link_lib own = payloads ''-l'' ldflags @ own_libs (bd_target_os d) \<and>
    payloads link_search own = payloads ''-L'' ldflags \<and>
    payloads link_arg own = filter other_flag ldflags @ own_args (bd_target_os d) \<and>
    filter other_line own = cfg_lines kill"
proof -
  from assms obtain d paths ldflags build kill where b: "built tc d paths ldflags build kill"
    and out: "out = rerun_lines d @ tool_lines tc d paths build @ cfg_lines kill @ link_lines (bd_target_os d) ldflags"
    by (rule build_main_ok)
  have "[] \<notin> set ldflags" using b php_config_tokens by (auto simp: built_def)
  note kinds = emitted_kinds [OF this]
  show ?thesis
    using b built_target(2) [OF b] out
    by (intro exI conjI) (assumption | simp add: link_lines_kinds [OF built_target(2) [OF b]] kinds kinds_of_lines cfg_lines_kinds)+
qed

text \<open>A Linux host with a PHP whose headers are in one place.\<close>

definition linux_host :: toolchain where
  "linux_host =
     \<lparr>tc_var = (\<lambda>v. if v = ''CARGO_CFG_TARGET_OS'' then Some ''linux''
         else if v = ''CARGO_MANIFEST_DIR'' then Some ''/repo/sys'' else if v = ''OUT_DIR'' then Some ''/out'' else None),
      tc_php_config = (\<lambda>bin args. if args = [''--includes''] then Run_Ok ''-I/php'' else Run_Ok '' -L/lib  -lz -pie ''),
      tc_pkg_config = (\<lambda>_. ([], None)),
      tc_compile = (\<lambda>lib _. ([''cargo:rustc-link-lib=static='' @ lib], True)),
      tc_expand = (\<lambda>_ build. ([], Some (if ''_GNU_SOURCE'' \<in> set (cb_defines build) \<and> ''/php'' \<in> set (cb_includes build)
         then MARKER @ '' yes'' else MARKER @ '' no''))),
      tc_bindgen = (\<lambda>_. Some ''pub''), tc_write = (\<lambda>_ _. True)\<rparr>"

lemma rstring_bytes_ascii: "list_all is_ascii bs \<Longrightarrow> rstring_bytes (map of_char bs) = bs"
  by (induction bs) (auto simp: rstring_bytes_def utf8_encode_def is_ascii_def)

lemma php_config_ascii:
  assumes "tc_php_config tc bin args = Run_Ok stdout" "list_all is_ascii stdout"
    and "split_whitespace (map of_char stdout) = map (map of_char) flags" "list_all (list_all is_ascii) flags"
  shows "php_config tc bin args = ([], Inr flags)"
proof -
  have "map rstring_bytes (map (map of_char) flags) = flags"
    using assms(4) by (induction flags) (simp_all add: rstring_bytes_ascii)
  with assms show ?thesis by (simp add: php_config_def from_utf8_ascii build_return_def)
qed

lemma linux_host_config:
  "php_config linux_host bin [''--includes''] = ([], Inr [''-I/php''])"
  "php_config linux_host bin [''--ldflags''] = ([], Inr [''-L/lib'', ''-lz'', ''-pie''])"
proof -
  show "php_config linux_host bin [''--includes''] = ([], Inr [''-I/php''])"
    by (rule php_config_ascii [where stdout = "''-I/php''"])
      (simp_all add: linux_host_def is_ascii_def split_whitespace_def is_white_space_def)
  show "php_config linux_host bin [''--ldflags''] = ([], Inr [''-L/lib'', ''-lz'', ''-pie''])"
    by (rule php_config_ascii [where stdout = "'' -L/lib  -lz -pie ''"])
      (simp_all add: linux_host_def is_ascii_def split_whitespace_def is_white_space_def)
qed

lemma linux_host_tools:
  "tc_var linux_host ''CARGO_CFG_TARGET_OS'' = Some ''linux''" "tc_var linux_host ''CARGO_MANIFEST_DIR'' = Some ''/repo/sys''"
  "tc_var linux_host ''OUT_DIR'' = Some ''/out''" "tc_compile linux_host lib build = ([''cargo:rustc-link-lib=static='' @ lib], True)"
  "tc_write linux_host path text" "tc_bindgen linux_host setup = Some ''pub''"
  "tc_expand linux_host text build = ([], Some (if ''_GNU_SOURCE'' \<in> set (cb_defines build) \<and> ''/php'' \<in> set (cb_includes build)
     then MARKER @ '' yes'' else MARKER @ '' no''))"
  by (simp_all add: linux_host_def)

lemma linux_host_probe: "probe_verdict (from_utf8_lossy (MARKER @ '' yes'')) = build_return True"
proof -
  have "list_all is_ascii (MARKER @ '' yes'')" by (simp add: MARKER_def is_ascii_def)
  then have "from_utf8_lossy (MARKER @ '' yes'') = MARKER @ '' yes''"
    using from_utf8_lossy_valid [OF from_utf8_ascii] by blast
  moreover have "contains (MARKER @ '' yes'') (MARKER @ '' yes'')" by code_simp
  ultimately show ?thesis by (simp add: probe_verdict_def)
qed

lemma linux_host_run: "\<exists>out. build_main linux_host = (out, Inr ())"
proof -
  have "snd (build_main linux_host) = Inr ()"
    by (simp add: build_main_def build_bind_snd build_dirs_def expect_def println_def build_return_def target_build_def
        compile_def run_tool_def linux_host_tools linux_host_config strip_prefix_def probe_has_kill_signal_def probe_build_def cc_new_def
        linux_host_probe)
  then show ?thesis by (metis prod.collapse)
qed

theorem build_links_php_config_witness:
  "\<exists>out d paths build own. build_main linux_host = (out, Inr ()) \<and>
     out = rerun_lines d @ tool_lines linux_host d paths build @ own \<and>
     payloads link_lib own = [''z'', ''php'', ''m'', ''util'', ''dl'', ''resolv''] \<and>
     payloads link_search own = [''/lib''] \<and> payloads link_arg own = [''-pie'']"
proof -
  obtain out where run: "build_main linux_host = (out, Inr ())" using linux_host_run by blast
  from build_links_php_config [OF run] obtain d paths ldflags build kill own where
    b: "built linux_host d paths ldflags build kill" and own: "out = rerun_lines d @ tool_lines linux_host d paths build @ own"
    "payloads link_lib own = payloads ''-l'' ldflags @ own_libs (bd_target_os d)"
    "payloads link_search own = payloads ''-L'' ldflags"
    "payloads link_arg own = filter other_flag ldflags @ own_args (bd_target_os d)"
    by blast
  have "bd_target_os d = ''linux''" "ldflags = [''-L/lib'', ''-lz'', ''-pie'']"
    using built_target(1) [OF b] b by (simp_all add: linux_host_tools built_def linux_host_config)
  with run own show ?thesis
    by (intro exI [of _ out] exI [of _ d] exI [of _ paths] exI [of _ build] exI [of _ own])
      (simp add: own_libs_def own_args_def strip_prefix_def other_flag_def)
qed

subsection \<open>Targets that are not supported\<close>

lemma build_bind_cong: "(\<And>x. snd m = Inr x \<Longrightarrow> f x = g x) \<Longrightarrow> build_bind m f = build_bind m g"
  by (cases m) (auto simp: build_bind_def split: sum.splits)

lemma build_bind_Inl: "(\<And>x. snd m = Inr x \<Longrightarrow> \<exists>e. snd (f x) = Inl e) \<Longrightarrow> \<exists>e. snd (build_bind m f) = Inl e"
  by (cases m) (auto simp: build_bind_def split: sum.splits prod.splits)

definition refusal :: "bytes \<Rightarrow> build_panic" where
  "refusal target_os = (if target_os = ''windows'' then Windows_Target else Unverified_Target target_os)"

definition refused_build :: "toolchain \<Rightarrow> bytes \<Rightarrow> unit build" where
  "refused_build tc target_os =
     build_bind (build_dirs tc) (\<lambda>d.
     build_bind (println (rerun_lines d)) (\<lambda>_.
     build_bind (php_config tc (php_config_bin tc) [''--includes'']) (\<lambda>incs.
     build_bind (php_config tc (php_config_bin tc) [''--ldflags'']) (\<lambda>ldflags.
     build_bind (include_paths incs) (\<lambda>paths. build_panic (refusal target_os))))))"

lemma target_refused:
  "os \<noteq> ''linux'' \<Longrightarrow> os \<noteq> ''macos'' \<Longrightarrow> build_bind (target_build tc os build) f = build_panic (refusal os)"
  by (simp add: target_build_def refusal_def build_simps)

lemma build_main_refused:
  assumes "tc_var tc ''CARGO_CFG_TARGET_OS'' = Some os" "os \<noteq> ''linux''" "os \<noteq> ''macos''"
  shows "build_main tc = refused_build tc os"
proof -
  have "snd (build_dirs tc) = Inr d \<Longrightarrow> bd_target_os d = os" for d using build_dirs_ok assms(1) by auto
  with target_refused [OF assms(2,3)] show ?thesis
    unfolding build_main_def refused_build_def by (intro build_bind_cong) simp
qed

definition rerun_line :: "bytes \<Rightarrow> bool" where
  "rerun_line line = (take (length ''cargo:rerun-if-'') line = ''cargo:rerun-if-'')"

lemma rerun_lines_rerun: "list_all rerun_line (rerun_lines d)"
  by (simp add: rerun_lines_def rerun_line_def)

lemma build_bind_lines:
  "list_all P (fst m) \<Longrightarrow> (\<And>x. list_all P (fst (f x))) \<Longrightarrow> list_all P (fst (build_bind m f))"
  by (cases m) (auto simp: build_bind_def split: sum.splits prod.splits, metis fst_conv)

lemma refused_build_lines: "list_all rerun_line (fst (refused_build tc os))"
  unfolding refused_build_def
  by (intro build_bind_lines) (simp_all add: silent println_def rerun_lines_rerun build_panic_def)

lemma refused_build_fails: "\<exists>e. snd (refused_build tc os) = Inl e"
  unfolding refused_build_def by (intro build_bind_Inl) (simp add: build_panic_def)

text \<open>A target that is not supported builds nothing. When Cargo builds for a system other than Linux and macOS the script panics,
  whatever the tools answer; of what it printed every line only names what to watch, so that no linker flag and no
  configuration reaches Cargo; and it never gets to the compiler, the preprocessor, bindgen, \<^verbatim>\<open>pkg-config\<close>
  or a file, since its outcome is the same with any others in their place.\<close>

theorem unsupported_target_builds_nothing:
  assumes "tc_var tc ''CARGO_CFG_TARGET_OS'' = Some os" "os \<noteq> ''linux''" "os \<noteq> ''macos''"
  shows "(\<exists>e. snd (build_main tc) = Inl e) \<and> list_all rerun_line (fst (build_main tc)) \<and>
    build_main (tc\<lparr>tc_compile := c, tc_expand := x, tc_bindgen := b, tc_pkg_config := k, tc_write := w\<rparr>) = build_main tc"
proof -
  let ?tc = "tc\<lparr>tc_compile := c, tc_expand := x, tc_bindgen := b, tc_pkg_config := k, tc_write := w\<rparr>"
  have "refused_build ?tc os = refused_build tc os"
    by (simp add: refused_build_def build_dirs_def php_config_def php_config_bin_def)
  moreover have "build_main ?tc = refused_build ?tc os" by (rule build_main_refused) (use assms in simp_all)
  ultimately show ?thesis
    using build_main_refused [OF assms] refused_build_lines refused_build_fails by simp
qed

theorem unsupported_target_builds_nothing_witness:
  "\<exists>e. snd (build_main (linux_host\<lparr>tc_var := (\<lambda>v. Some ''windows'')\<rparr>)) = Inl e"
  using unsupported_target_builds_nothing [of "linux_host\<lparr>tc_var := (\<lambda>v. Some ''windows'')\<rparr>" "''windows''"] by simp

subsection \<open>The probe and the layout guard\<close>















end
