(* ===== verification/Refusals.thy ===== *)
theory Refusals
  imports Callbacks
begin

section \<open>Callbacks that refuse: \<^verbatim>\<open>callbacks/misc.rs\<close>, \<^verbatim>\<open>worker.rs\<close>, \<^verbatim>\<open>mod.rs\<close>\<close>

text \<open>
  What a script asks for and this port does not offer. Three callbacks answer and log their notice once in the life of
  the process, which their static \<^verbatim>\<open>Once\<close> flags record; the callbacks of worker mode and of structured logging abort
  the process with a line that names them. C calls \<^verbatim>\<open>go_log_attrs\<close> for \<^verbatim>\<open>frankenphp_log()\<close>, and when a script bails out with
  an error message left, so that the bailout \<open>SlotProtocol\<close> follows is the one without such a message.
\<close>

subsection \<open>Notices\<close>

record once_flags =
  putenv_logged :: bool
  opcache_reset_logged :: bool
  mercure_publish_logged :: bool

definition once_flags_new :: once_flags where
  "once_flags_new = \<lparr>putenv_logged = False, opcache_reset_logged = False, mercure_publish_logged = False\<rparr>"

definition go_putenv :: "once_flags \<Rightarrow> bool \<times> once_flags \<times> log_record list" where
  "go_putenv f = (case putenv_notice (putenv_logged f) of (r, once, records) \<Rightarrow> (r, f\<lparr>putenv_logged := once\<rparr>, records))"

definition go_schedule_opcache_reset :: "once_flags \<Rightarrow> once_flags \<times> log_record list" where
  "go_schedule_opcache_reset f =
     (case opcache_reset_notice (opcache_reset_logged f) of (once, records) \<Rightarrow> (f\<lparr>opcache_reset_logged := once\<rparr>, records))"

definition go_mercure_publish :: "once_flags \<Rightarrow> go_mercure_publish_return \<times> once_flags \<times> log_record list" where
  "go_mercure_publish f =
     (case mercure_publish_notice (mercure_publish_logged f) of
        (r, once, records) \<Rightarrow> (r, f\<lparr>mercure_publish_logged := once\<rparr>, records))"

subsection \<open>Aborts\<close>

text \<open>A callback that never returns ends the process with a line.\<close>

datatype 'a outcome = Returned 'a | Aborted string

definition abort_stub :: "string \<Rightarrow> 'a outcome" where
  "abort_stub symbol =
     Aborted (''frankenrust: FATAL: '' @ symbol @ '' was called, but it is still issue #7'' @ [CHR 0x27] @ ''s '' @
       ''abort-stub -- no implementation exists yet. See docs/PORTING-NOTES.md '' @
       ''and issue #7'' @ [CHR 0x27] @ ''s pre-declared module layout for which later issue '' @
       ''(#10/#11/#12/#14) replaces it.'')"

definition go_frankenphp_worker_handle_request_start :: "nat \<Rightarrow> (bool \<times> nat) outcome" where
  "go_frankenphp_worker_handle_request_start thread_index = abort_stub ''go_frankenphp_worker_handle_request_start''"

definition go_frankenphp_finish_worker_request :: "nat \<Rightarrow> unit outcome" where
  "go_frankenphp_finish_worker_request thread_index = abort_stub ''go_frankenphp_finish_worker_request''"

definition go_log_attrs :: "nat \<Rightarrow> bytes \<Rightarrow> int \<Rightarrow> string outcome" where
  "go_log_attrs thread_index message level = abort_stub ''go_log_attrs''"

subsection \<open>Each notice is logged once\<close>

datatype refused_call = Putenv | Opcache_Reset | Mercure_Publish

fun refused :: "refused_call \<Rightarrow> once_flags \<Rightarrow> once_flags \<times> log_record list" where
  "refused Putenv f = snd (go_putenv f)"
| "refused Opcache_Reset f = go_schedule_opcache_reset f"
| "refused Mercure_Publish f = snd (go_mercure_publish f)"

fun refused_all :: "refused_call list \<Rightarrow> once_flags \<Rightarrow> once_flags \<times> log_record list" where
  "refused_all [] f = (f, [])"
| "refused_all (c # cs) f =
     (case refused c f of (f, records) \<Rightarrow> (case refused_all cs f of (f, later) \<Rightarrow> (f, records @ later)))"

fun noted :: "once_flags \<Rightarrow> refused_call \<Rightarrow> bool" where
  "noted f Putenv = putenv_logged f"
| "noted f Opcache_Reset = opcache_reset_logged f"
| "noted f Mercure_Publish = mercure_publish_logged f"

definition notice :: "refused_call \<Rightarrow> log_record list" where
  "notice c = snd (refused c once_flags_new)"

text \<open>The calls that come for the first time, in their order.\<close>

fun first_calls :: "('c \<Rightarrow> bool) \<Rightarrow> 'c list \<Rightarrow> 'c list" where
  "first_calls seen [] = []"
| "first_calls seen (c # cs) = (if seen c then [] else [c]) @ first_calls (seen(c := True)) cs"

lemma warn_enabled: "enabled WARN"
  by (simp add: enabled_def WARN_def MIN_LEVEL_def INFO_def less_eq_level_def)

lemma log_once_warn:
  "log_once once WARN message attrs =
     (True, if once then [] else [\<lparr>rec_level = WARN, rec_message = message (), rec_attrs = attrs ()\<rparr>])"
  by (simp add: log_once_def log_def warn_enabled)

lemmas refused_simps = go_putenv_def go_schedule_opcache_reset_def go_mercure_publish_def putenv_notice_def
  opcache_reset_notice_def mercure_publish_notice_def log_once_warn

lemma notice_once: "length (notice c) = 1"
  by (cases c) (simp_all add: notice_def once_flags_new_def refused_simps)

lemma refused_step:
  "refused c f = (f', records) \<Longrightarrow> noted f' = (noted f)(c := True) \<and> records = (if noted f c then [] else notice c)"
proof -
  assume step: "refused c f = (f', records)"
  have "noted f' d = ((noted f)(c := True)) d" for d
    using step by (cases c; cases d) (auto simp: refused_simps)
  moreover have "records = (if noted f c then [] else notice c)"
    using step by (cases c) (auto simp: notice_def once_flags_new_def refused_simps)
  ultimately show ?thesis by auto
qed

lemma refused_all_records: "snd (refused_all cs f) = concat (map notice (first_calls (noted f) cs))"
proof (induction cs arbitrary: f)
  case (Cons c cs)
  obtain f' records where step: "refused c f = (f', records)" by fastforce
  have "snd (refused_all (c # cs) f) = records @ snd (refused_all cs f')" by (simp add: step split_def)
  also have "\<dots> = records @ concat (map notice (first_calls ((noted f)(c := True)) cs))"
    unfolding Cons.IH using refused_step [OF step] by (simp only: simp_thms)
  finally show ?case using refused_step [OF step] by (simp only: first_calls.simps) auto
qed simp

lemma first_calls_distinct: "distinct (first_calls seen cs) \<and> set (first_calls seen cs) = {c \<in> set cs. \<not> seen c}"
  by (induction cs arbitrary: seen) auto

text \<open>Refusals are answered and logged once. Whatever scripts call in whatever order, what is logged is one notice for each of the
  three refused functions that was called at all, in the order of their first calls; \<^verbatim>\<open>putenv\<close> always
  reports success, and \<^verbatim>\<open>mercure_publish\<close> always the status that C takes for an absent feature, with no string.\<close>

theorem refusals_logged_once:
  "\<exists>cs'. snd (refused_all cs once_flags_new) = concat (map notice cs') \<and> distinct cs' \<and> set cs' = set cs \<and>
     (\<forall>c. length (notice c) = 1) \<and>
     (\<forall>f. fst (go_putenv f)) \<and> (\<forall>f. fst (go_mercure_publish f) = \<lparr>mercure_r0 = None, mercure_r1 = 3\<rparr>)"
proof -
  have none: "noted once_flags_new = (\<lambda>_. False)"
  proof
    show "noted once_flags_new c = False" for c by (cases c) (simp_all add: once_flags_new_def)
  qed
  have "fst (go_putenv f)" "fst (go_mercure_publish f) = \<lparr>mercure_r0 = None, mercure_r1 = 3\<rparr>" for f
    by (simp_all add: refused_simps)
  then show ?thesis
    using notice_once first_calls_distinct [of "\<lambda>_. False" cs] refused_all_records [of cs once_flags_new] none
    by (intro exI [of _ "first_calls (\<lambda>_. False) cs"]) simp
qed

end
