(* ===== verification/Spec2Isabelle.thy ===== *)
theory Spec2Isabelle
  imports CgiPath CgiAddr Headers GoQuote RequestCtx ContextSlots ThreadState Log Output Input ServerVars SlotProperties Dispatch Callbacks PoolInit PoolProgress GoLog ServerMain ServingProperties BuildScript Refusals
begin

text \<open>
  A model of the Rust crates of frankenrust, a port of FrankenPHP's embedding of the PHP engine,
  with the theorems that make it correct. Paths below are relative to \<^verbatim>\<open>src/crates/\<close>; \<^verbatim>\<open>core\<close> stands
  for \<^verbatim>\<open>frankenrust-core/src\<close> and \<^verbatim>\<open>server\<close> for \<^verbatim>\<open>frankenrust-server/src\<close>.

  \<^bold>\<open>The program.\<close> \<^verbatim>\<open>server/server.rs\<close> boots a pool of PHP threads and accepts HTTP connections. Each
  request becomes a \<^verbatim>\<open>RequestContext\<close>, is validated and handed to a regular PHP thread. A PHP thread is
  a C pthread inside \<^verbatim>\<open>php_thread()\<close> that calls back into Rust: before a script, to take a request and
  learn the file to run; during it, to read the body, the cookies and the server variables and to write the
  status, the headers and the body; after it, to close the request. A controller (boot, handler
  change, shutdown) and the pthread meet in a state machine guarded by a mutex and a list of
  subscribers, and in a channel whose closing wakes a parked thread. The main thread outlives all
  others and tears the engine down.

  \<^bold>\<open>Theories and sources.\<close>
  \<^item> \<open>Prelude\<close>: bytes, ASCII folding, splitting and joining, the collections \<open>byte_simps\<close> and \<open>seg_simps\<close>.
    \<open>Runs\<close>: sequences of moves, with the contracts of an invariant, a bounded and a finishing run
    as locales. \<open>Utf8\<close>, \<open>Fmt\<close>: the parts of the standard library's text that the code relies on.
  \<^item> \<open>CgiPath\<close>, \<open>CgiAddr\<close>, \<open>CgiHeaders\<close> (\<^verbatim>\<open>core/cgi.rs\<close>): \<^verbatim>\<open>split_cgi_path\<close>, \<^verbatim>\<open>clean_path\<close>,
    \<^verbatim>\<open>sanitized_path_join\<close>; host and remote address splitting; header names as CGI variables. \<open>CgiHeaders\<close> holds the
    static table as data.
  \<^item> \<open>Headers\<close>, \<open>GoQuote\<close>, \<open>RequestCtx\<close>, \<open>ContextSlots\<close> (\<^verbatim>\<open>core/context.rs\<close>): the header map, Go's quoting of
    rejected values with its table of printable runes, requests, bodies, validation, the
    arena, the completion signal, and the table of per-thread contexts.
  \<^item> \<open>ThreadState\<close> (\<^verbatim>\<open>core/state.rs\<close>): the states, the guarded state with its subscribers, waiting times.
  \<^item> \<open>Log\<close>, \<open>GoLog\<close> (\<^verbatim>\<open>core/callbacks/log.rs\<close>): records, levels, the line format, PHP's own log callback.
  \<^item> \<open>ResponseSink\<close> (\<^verbatim>\<open>server/sink.rs\<close>), \<open>Output\<close>, \<open>Input\<close>, \<open>VarsBatch\<close>, \<open>ServerVars\<close> (\<^verbatim>\<open>core/callbacks/output.rs\<close>, \<^verbatim>\<open>input.rs\<close>,
    \<^verbatim>\<open>servervars.rs\<close>): what a running script may ask for and produce.
  \<^item> \<open>PhpThread\<close>, \<open>SlotProtocol\<close> (\<^verbatim>\<open>core/thread.rs\<close>, \<^verbatim>\<open>thread_inactive.rs\<close>, \<^verbatim>\<open>thread_regular.rs\<close>): a slot's data
    and the step relation of its pthread against its controller, with the pthread's own steps (\<open>php_own\<close>) apart from
    what its callers, its script and C make it do (\<open>php_step\<close>); \<open>SlotInvariant\<close> and \<open>SlotReachable\<close> hold the
    invariant and its preservation, \<open>SlotDuty\<close> two more on top of it (a handler's channel stays connected, a script that
    delays a shutdown has been signalled), \<open>SlotProperties\<close> what follows.
  \<^item> \<open>Dispatch\<close> (\<^verbatim>\<open>core/thread_regular.rs\<close>): the registry of regular threads, the directed scan, the shared channel,
    for any number of callers. \<open>Serving\<close>, \<open>ServingProperties\<close>: the pool and the dispatch as one
    system, from the caller to its release.
  \<^item> \<open>Callbacks\<close> (\<^verbatim>\<open>core/callbacks/thread.rs\<close>, \<^verbatim>\<open>misc.rs\<close>, \<^verbatim>\<open>worker.rs\<close>): the callbacks over the list of
    threads; \<open>Refusals\<close>: the callbacks that log a notice once or abort.
  \<^item> \<open>MainThread\<close> (\<^verbatim>\<open>core/thread.rs\<close>, \<^verbatim>\<open>core/callbacks/mainthread.rs\<close>): sizing and the ini overrides;
    \<open>ThreadPool\<close>: the registry and the drain of all slots interleaved with all pthreads; \<open>PoolInit\<close>: the start and
    the end of a generation as functions; \<open>PoolProgress\<close>: the drain ends.
  \<^item> \<open>HttpFront\<close> (\<^verbatim>\<open>server/request.rs\<close>, \<^verbatim>\<open>response.rs\<close>, \<^verbatim>\<open>server.rs\<close>): percent decoding, \<^verbatim>\<open>build_request\<close>, the directory
    index, the handler and the response builders; \<open>HttpServe\<close> composes them with the callbacks. \<open>ServerLoop\<close>
    (\<^verbatim>\<open>server/server.rs\<close>): boot, accept loop and shutdown of \<^verbatim>\<open>run\<close>. \<open>ServerMain\<close> (\<^verbatim>\<open>server/main.rs\<close>): the configuration, and
    the start composed with \<open>PoolInit\<close>.
  \<^item> \<open>Layout\<close>, \<open>BuildScript\<close> (\<^verbatim>\<open>frankenrust-sys/src/layout.rs\<close>, \<^verbatim>\<open>build.rs\<close>): the compile-time guards of the structs
    that cross to C, over the layout \<^verbatim>\<open>repr(C)\<close> gives their fields, and the script that compiles, probes and links.

  \<^bold>\<open>How state and effects are modelled.\<close> Structs are records, enums datatypes. A panic, an error return
  and an early return are values of a sum or option. Machine integers are words wherever they can wrap or are
  cast; lengths and indices are \<open>nat\<close>. Locks: a step of a relation is one critical section, so
  every interleaving at a lock release is a run. The callbacks run on the thread that owns the index,
  so their state is the table of contexts passed along, and a closure that re-enters the table
  is a value. \<^verbatim>\<open>Arc\<close> identities and channel endpoints are numbers. A channel of capacity zero delivers
  exactly when its receiver is parked.

  \<^bold>\<open>Interfaces.\<close> \<open>header_map\<close> (what a lookup gives after inserts; \<open>Headers\<close>), \<open>body_source\<close> (a reader of a known
  content; \<open>RequestCtx\<close>), \<open>sink_contract\<close> (what a response sink keeps; \<open>ResponseSink\<close>), and \<open>kept_runs\<close>,
  \<open>bounded_runs\<close>, \<open>finishing_runs\<close> (\<open>Runs\<close>, interpreted by the slot, the pool, the dispatch, the whole system and the accept loop).

  \<^bold>\<open>What the theorems show.\<close> The numbering of the claims is their order of importance.
  \<^item> Requests: the dispatched file lies below the document root, is not empty and has no NUL; path
    splitting loses nothing; percent decoding and Go quoting invert their encodings; validation
    accepts exactly the stated grammar; PHP reads back the server variables, the header values and the body it was sent.
  \<^item> Responses: what a live script sends is what the buffer and the wire hold; a finished
    request writes nothing and its completion fires exactly once.
  \<^item> Threads: no wake-up is lost; a handler is replaced only while its pthread is held; while a
    controller waits with the drain closed, the pthread is inside a script or has a step of its own that brings it closer to its
    answer, at most eleven in all; a request is owned exactly while its script runs; a kill signal reaches only a live pthread; a retired slot keeps nothing; the diagnostics for impossible
    states are unreachable; the context locks cannot deadlock.
  \<^item> Pool and server: a start succeeds as a whole or leaves nothing; the engine is torn down only after the last
    pthread; a drain goes on by the program's own steps until it is over, but for the wait, which the
    code leaves unbounded, for a script whose pthread has been sent the kill signal; the accept loop drains the pool exactly
    once on every exit, and ends whatever the peers do. Over the whole system every request that left its caller
    is owed by one running script or answered once, none is owed after a drain, a send reaches an
    idle slot, and a waiting caller reaches a parked thread by its own steps.
  \<^item> Build: each word of \<^verbatim>\<open>php-config --ldflags\<close> is printed as the library, search path or raw argument it is, and apart from
    the lines the tools print of their own nothing else but the fixed libraries; an unsupported target builds nothing; the layout
    guard accepts the header that was compiled and bound, and no other; the guards notice a field that grows, not one that shrinks.

  \<^bold>\<open>Two things that strand a slot.\<close> A request whose script filename is empty, which \<^verbatim>\<open>server\<close> never dispatches but
  \<open>core\<close> accepts, and C failing to create the pthread that takes over after a bailout (\<^verbatim>\<open>frankenphp.c\<close> logs it as
  probably unreachable). The flag of \<open>php_step\<close> and \<open>slot_reachable\<close> says whether they may happen: what holds of every slot is
  proved for either value, liveness and the ownership of requests for False, and C21 shows what the first one does.

  \<^bold>\<open>Bounds.\<close> No definition takes fuel: each loop is structural or a function with a measure, so every
  operation is total. The rank of \<open>PoolProgress\<close> gives each slot five visits of at most twenty steps, the steps of the pthread that is waited for among them; the
  rank of \<open>ServerLoop\<close> gives each connection three events. Conversions that may overflow (\<^verbatim>\<open>c_int\<close>, \<^verbatim>\<open>u16\<close> and \<^verbatim>\<open>u64\<close> lengths, the
  drain generation, milliseconds) are on words of their width.

  \<^bold>\<open>What is an argument.\<close> Code outside the repository's Rust is a parameter, with its documented
  behaviour as a hypothesis where one is needed (for the build: no tool sets the script's own configuration, and the condition in the
  header is a function of the include paths and the macros given): hyper and the \<^verbatim>\<open>http\<close> crate (\<open>to_str\<close>, \<open>http_lib\<close>), a PHP
  script and what C answers, the allocator, the system's memory, the clock, the tools the build script runs, and the response sink
  and body reader that a caller of the library supplies. The order in which C calls the callbacks is that of
  \<^verbatim>\<open>php_thread()\<close> in the vendored \<^verbatim>\<open>frankenphp.c\<close>, and is built into \<open>SlotProtocol\<close>.

  \<^bold>\<open>Not modelled.\<close> The bindings that bindgen generates; what Cargo makes of the lines the build script prints; the panic of
  the \<^verbatim>\<open>http\<close> crate's header map past its capacity; PHP's own reading of its ini settings (\<open>read_ini\<close> reads the block
  line by line); \<^verbatim>\<open>go_init_os_env\<close>, whose body is
  empty; lines written to the standard error stream other than by the logging facade; poisoned locks (every
  lock recovers the value); the once-only creation of the static tables; how the listen address is parsed and bound,
  and \<^verbatim>\<open>ctrl_c\<close>; accessors that only return a field; code compiled for tests; the vendored C and
  Go, the orchestrator, benchmarks and documentation. Memory safety of the raw pointers is Rust's and
  C's: a pointer here is the value it points to, or an address with its alignment where the code computes with it.
\<close>

end
